(* ===== verification/Prelude.thy ===== *)
theory Prelude
  imports Main "HOL-Library.Word" "HOL-Library.AList" "HOL-Library.Monad_Syntax"
begin

section \<open>Shared vocabulary of the EdgeLink development\<close>

text \<open>
  What every component theory uses:
  \<^item> type names for the fixed-width integers, byte strings and clocks of the C++ code;
  \<^item> little-endian byte images of integers (the object representation that \<open>memcpy\<close> copies
    on the x86-64 and AArch64 targets) and the lemmas that make them a bijection;
  \<^item> \<open>std::unordered_map\<close> as an association list with distinct keys: \<open>um_find\<close>,
    \<open>um_emplace\<close>, \<open>um_set\<close>, \<open>um_erase\<close>. The order of the list stands for the unspecified iteration
    order, and no theorem of the development depends on it;
  \<^item> C strings (\<open>c_str\<close>), truncating division of \<open>duration_cast\<close>;
  \<^item> the collections \<open>edgelink_simps\<close> (facts that rewrite) and \<open>wf_intros\<close>
    (preservation of well-formedness) that the component proofs draw on.
\<close>

named_theorems edgelink_simps \<open>rewriting facts shared by the component proofs\<close>
named_theorems wf_intros \<open>preservation of well-formedness invariants\<close>

type_synonym byte = "8 word"
type_synonym bytes = "byte list"
type_synonym u16 = "16 word"
type_synonym u32 = "32 word"
type_synonym u64 = "64 word"

text \<open>A \<open>system_clock\<close> time point: signed 64-bit nanoseconds since the epoch (libstdc++).\<close>

type_synonym wall_time = "64 word"

text \<open>A \<open>steady_clock\<close> time point or a duration, in nanoseconds.\<close>

type_synonym mono_time = int

subsection \<open>Little-endian byte images\<close>

fun le_bytes :: "nat \<Rightarrow> nat \<Rightarrow> bytes" where
  "le_bytes 0 x = []"
| "le_bytes (Suc n) x = word_of_nat (x mod 256) # le_bytes n (x div 256)"

fun le_nat :: "bytes \<Rightarrow> nat" where
  "le_nat [] = 0"
| "le_nat (b # bs) = unat b + 256 * le_nat bs"

lemma length_le_bytes [simp]: "length (le_bytes n x) = n"
  by (induction n x rule: le_bytes.induct) simp_all

lemma unat_byte_lt: "unat (b :: byte) < 256"
  using unsigned_less [where ?'a = nat, of b] by simp

lemma unat_byte_of_nat: "x < 256 \<Longrightarrow> unat (word_of_nat x :: byte) = x"
  by (simp add: unat_of_nat)

lemma unat_word_of_nat_small:
  "x < 2 ^ LENGTH('a) \<Longrightarrow> unat (word_of_nat x :: 'a::len word) = x"
  by (simp add: unat_of_nat take_bit_nat_eq_self)

lemma unat_plus_one: "n \<noteq> - 1 \<Longrightarrow> unat (n + 1 :: 'a::len word) = Suc (unat n)"
proof -
  assume "n \<noteq> - 1"
  then have "1 + n \<noteq> 0" by (metis add.commute eq_neg_iff_add_eq_0)
  then show ?thesis by (metis add.commute unatSuc)
qed

lemma word_less_Suc: "n \<noteq> - 1 \<Longrightarrow> n < n + (1 :: 'a::len word)"
  by (simp add: word_less_nat_alt unat_plus_one)

lemma le_nat_bound: "le_nat bs < 256 ^ length bs"
proof (induction bs)
  case Nil
  then show ?case by simp
next
  case (Cons b bs)
  have "unat b < 256" by (rule unat_byte_lt)
  with Cons have "unat b + 256 * le_nat bs < 256 + 256 * (256 ^ length bs - 1)"
    by simp
  also have "\<dots> = 256 * 256 ^ length bs" by (simp add: algebra_simps)
  finally show ?case by simp
qed

lemma le_nat_le_bytes: "le_nat (le_bytes n x) = x mod 256 ^ n"
proof (induction n x rule: le_bytes.induct)
  case (2 n x)
  have "unat (word_of_nat (x mod 256) :: byte) = x mod 256"
    by (rule unat_byte_of_nat) simp
  then have "le_nat (le_bytes (Suc n) x) = x mod 256 + 256 * (x div 256 mod 256 ^ n)"
    using 2 by simp
  also have "\<dots> = x mod (256 * 256 ^ n)" by (simp add: mod_mult2_eq)
  finally show ?case by simp
qed simp

lemma le_bytes_le_nat: "le_bytes (length bs) (le_nat bs) = bs"
proof (induction bs)
  case (Cons b bs)
  have b: "unat b < 256" by (rule unat_byte_lt)
  have "(unat b + 256 * le_nat bs) mod 256 = unat b"
    and "(unat b + 256 * le_nat bs) div 256 = le_nat bs"
    using b by simp_all
  with Cons show ?case by simp
qed simp

lemma le_nat_inject: "length xs = length ys \<Longrightarrow> le_nat xs = le_nat ys \<Longrightarrow> xs = ys"
  by (metis le_bytes_le_nat)

subsection \<open>Object representation of an integer\<close>

definition pod_bytes :: "'a::len word \<Rightarrow> bytes" where
  "pod_bytes w = le_bytes (LENGTH('a) div 8) (unat w)"

definition pod_value :: "bytes \<Rightarrow> 'a::len word" where
  "pod_value bs = word_of_nat (le_nat bs)"

lemma length_pod_bytes: "length (pod_bytes (w :: 'a::len word)) = LENGTH('a) div 8"
  by (simp add: pod_bytes_def)

lemma pod_value_pod_bytes:
  fixes w :: "'a::len word"
  assumes "8 dvd LENGTH('a)"
  shows "pod_value (pod_bytes w) = w"
proof -
  have "(256::nat) ^ (LENGTH('a) div 8) = (2 ^ 8) ^ (LENGTH('a) div 8)" by simp
  also have "\<dots> = 2 ^ LENGTH('a)" using assms by (simp only: power_mult [symmetric] dvd_mult_div_cancel)
  finally have "unat w < 256 ^ (LENGTH('a) div 8)" by simp
  then show ?thesis
    by (simp add: pod_value_def pod_bytes_def le_nat_le_bytes)
qed

lemma pod_bytes_pod_value:
  assumes "8 dvd LENGTH('a::len)" and "length bs = LENGTH('a) div 8"
  shows "pod_bytes (pod_value bs :: 'a word) = bs"
proof -
  have "(256::nat) ^ (LENGTH('a) div 8) = (2 ^ 8) ^ (LENGTH('a) div 8)" by simp
  also have "\<dots> = 2 ^ LENGTH('a)" using assms(1) by (simp only: power_mult [symmetric] dvd_mult_div_cancel)
  finally have "le_nat bs < 2 ^ LENGTH('a)" using le_nat_bound [of bs] assms(2) by simp
  then have "unat (pod_value bs :: 'a word) = le_nat bs"
    by (simp add: pod_value_def unat_of_nat)
  then show ?thesis
    using assms(2) le_bytes_le_nat [of bs] by (simp add: pod_bytes_def)
qed

lemma pod_bytes_inject:
  fixes v w :: "'a::len word"
  assumes "8 dvd LENGTH('a)"
  shows "pod_bytes v = pod_bytes w \<longleftrightarrow> v = w"
  using pod_value_pod_bytes [OF assms, of v] pod_value_pod_bytes [OF assms, of w] by metis

lemma length_pod_bytes_fixed [simp]:
  "length (pod_bytes (w8 :: 8 word)) = 1" "length (pod_bytes (w16 :: 16 word)) = 2"
  "length (pod_bytes (w32 :: 32 word)) = 4" "length (pod_bytes (w64 :: 64 word)) = 8"
  by (simp_all add: length_pod_bytes)

lemma pod_value_pod_bytes_fixed [simp]:
  "pod_value (pod_bytes (w8 :: 8 word)) = w8" "pod_value (pod_bytes (w16 :: 16 word)) = w16"
  "pod_value (pod_bytes (w32 :: 32 word)) = w32" "pod_value (pod_bytes (w64 :: 64 word)) = w64"
  by (rule pod_value_pod_bytes, simp)+

lemma pod_bytes_pod_value_fixed:
  "length bs = 1 \<Longrightarrow> pod_bytes (pod_value bs :: 8 word) = bs"
  "length bs = 2 \<Longrightarrow> pod_bytes (pod_value bs :: 16 word) = bs"
  "length bs = 4 \<Longrightarrow> pod_bytes (pod_value bs :: 32 word) = bs"
  "length bs = 8 \<Longrightarrow> pod_bytes (pod_value bs :: 64 word) = bs"
  by (rule pod_bytes_pod_value; simp)+

lemma take_drop_step: "take n (drop p xs) @ drop (p + n) xs = drop p xs"
  by (metis append_take_drop_id drop_drop add.commute)

subsection \<open>Characters and bytes\<close>

definition byte_of_char :: "char \<Rightarrow> byte" where
  "byte_of_char c = word_of_nat (of_char c)"

definition char_of_byte :: "byte \<Rightarrow> char" where
  "char_of_byte b = char_of (unat b)"

lemma char_of_byte_of_char [simp]: "char_of_byte (byte_of_char c) = c"
proof -
  have "(of_char c :: nat) < 256" by simp
  then show ?thesis by (simp add: char_of_byte_def byte_of_char_def unat_byte_of_nat)
qed

lemma byte_of_char_of_byte [simp]: "byte_of_char (char_of_byte b) = b"
  using unat_byte_lt [of b] by (simp add: char_of_byte_def byte_of_char_def of_char_of take_bit_nat_eq_self)

lemma char_byte_comp [simp]:
  "char_of_byte \<circ> byte_of_char = id" "byte_of_char \<circ> char_of_byte = id"
  by (simp_all add: fun_eq_iff)

subsection \<open>\<open>std::unordered_map\<close> as an association list\<close>

type_synonym ('k, 'v) umap = "('k \<times> 'v) list"

abbreviation um_find :: "('k, 'v) umap \<Rightarrow> 'k \<Rightarrow> 'v option" where
  "um_find \<equiv> map_of"

abbreviation um_set :: "'k \<Rightarrow> 'v \<Rightarrow> ('k, 'v) umap \<Rightarrow> ('k, 'v) umap" where
  "um_set \<equiv> AList.update"

abbreviation um_erase :: "'k \<Rightarrow> ('k, 'v) umap \<Rightarrow> ('k, 'v) umap" where
  "um_erase \<equiv> AList.delete"

abbreviation um_keys :: "('k, 'v) umap \<Rightarrow> 'k list" where
  "um_keys m \<equiv> map fst m"

text \<open>\<open>emplace\<close> leaves an existing entry alone.\<close>

definition um_emplace :: "'k \<Rightarrow> 'v \<Rightarrow> ('k, 'v) umap \<Rightarrow> ('k, 'v) umap" where
  "um_emplace k v m = (if um_find m k = None then m @ [(k, v)] else m)"

text \<open>The loop \<open>for (auto& entry : m) entry.second = f(entry.second)\<close>.\<close>

definition um_each :: "('v \<Rightarrow> 'v) \<Rightarrow> ('k, 'v) umap \<Rightarrow> ('k, 'v) umap" where
  "um_each f m = map (\<lambda>(k, v). (k, f v)) m"

definition um_wf :: "('k, 'v) umap \<Rightarrow> bool" where
  "um_wf m \<longleftrightarrow> distinct (um_keys m)"

lemma um_wf_Nil [simp]: "um_wf []"
  by (simp add: um_wf_def)

lemma um_wf_set [wf_intros]: "um_wf m \<Longrightarrow> um_wf (um_set k v m)"
  by (simp add: um_wf_def distinct_update)

lemma um_wf_erase [wf_intros]: "um_wf m \<Longrightarrow> um_wf (um_erase k m)"
  by (simp add: um_wf_def distinct_delete)

lemma um_wf_emplace [wf_intros]: "um_wf m \<Longrightarrow> um_wf (um_emplace k v m)"
  by (auto simp: um_wf_def um_emplace_def map_of_eq_None_iff)

lemma um_keys_each [simp]: "um_keys (um_each f m) = um_keys m"
  by (simp add: um_each_def case_prod_beta comp_def)

lemma um_wf_each [wf_intros]: "um_wf m \<Longrightarrow> um_wf (um_each f m)"
  by (simp add: um_wf_def)

lemma um_find_set [edgelink_simps]: "um_find (um_set k v m) x = (if x = k then Some v else um_find m x)"
  by (simp add: update_conv)

lemma um_find_erase [edgelink_simps]: "um_find (um_erase k m) x = (if x = k then None else um_find m x)"
  by (simp add: delete_conv')

lemma um_find_emplace [edgelink_simps]:
  "um_find (um_emplace k v m) x = (if x = k \<and> um_find m k = None then Some v else um_find m x)"
  by (auto simp: um_emplace_def map_add_def split: option.splits)

lemma um_find_each [edgelink_simps]: "um_find (um_each f m) x = map_option f (um_find m x)"
  by (simp add: um_each_def map_of_map)

lemma um_keys_dom: "set (um_keys m) = dom (um_find m)"
  by (simp add: dom_map_of_conv_image_fst)

lemma um_find_mem: "um_find m k = Some v \<Longrightarrow> (k, v) \<in> set m"
  by (rule map_of_SomeD)

lemma um_mem_find: "um_wf m \<Longrightarrow> (k, v) \<in> set m \<longleftrightarrow> um_find m k = Some v"
  unfolding um_wf_def by (metis map_of_SomeD map_of_is_SomeI)

lemma um_size_erase: "um_wf m \<Longrightarrow> um_find m k \<noteq> None \<Longrightarrow> length (um_erase k m) = length m - 1"
proof -
  assume wf: "um_wf m" and k: "um_find m k \<noteq> None"
  have "length (um_erase k m) = card (set (um_keys (um_erase k m)))"
    using um_wf_erase [OF wf, of k] by (metis um_wf_def distinct_card length_map)
  also have "\<dots> = card (set (um_keys m) - {k})"
    by (simp only: delete_keys set_removeAll)
  also have "\<dots> = card (set (um_keys m)) - 1"
    using k by (simp add: map_of_eq_None_iff)
  also have "card (set (um_keys m)) = length m"
    using wf by (metis um_wf_def distinct_card length_map)
  finally show ?thesis .
qed

text \<open>How many entries have a value with a property, and how insertion and removal change the number.\<close>

definition um_count :: "('v \<Rightarrow> bool) \<Rightarrow> ('k, 'v) umap \<Rightarrow> nat" where
  "um_count P m = length (filter (\<lambda>e. P (snd e)) m)"

lemma um_count_Nil [simp]: "um_count P [] = 0"
  by (simp add: um_count_def)

lemma um_count_emplace:
  "um_find m k = None \<Longrightarrow> um_count P (um_emplace k v m) = um_count P m + (if P v then 1 else 0)"
  by (simp add: um_count_def um_emplace_def)

lemma um_count_set:
  "um_find m k = Some v \<Longrightarrow>
     um_count P (um_set k v' m) + (if P v then 1 else 0) = um_count P m + (if P v' then 1 else 0)"
  by (induction m) (auto simp: um_count_def)

lemma um_count_erase:
  "um_wf m \<Longrightarrow> um_find m k = Some v \<Longrightarrow> um_count P (um_erase k m) + (if P v then 1 else 0) = um_count P m"
proof (induction m)
  case (Cons e m)
  obtain k' v' where e: "e = (k', v')" by fastforce
  show ?case
  proof (cases "k' = k")
    case True
    then have "k \<notin> fst ` set m" using Cons.prems(1) by (auto simp: e um_wf_def)
    then have "um_erase k m = m" by simp
    then show ?thesis using Cons.prems(2) True by (simp add: e um_count_def)
  next
    case False
    then show ?thesis using Cons by (auto simp: e um_count_def um_wf_def)
  qed
qed simp

subsection \<open>C strings and durations\<close>

text \<open>The bytes a callee sees when it is given \<open>s.c_str()\<close> and no length: up to the first NUL.\<close>

definition c_str :: "string \<Rightarrow> string" where
  "c_str s = takeWhile (\<lambda>c. c \<noteq> CHR 0x00) s"

lemma c_str_id: "CHR 0x00 \<notin> set s \<Longrightarrow> c_str s = s"
  unfolding c_str_def takeWhile_eq_all_conv by auto

lemma c_str_c_str: "c_str (c_str s) = c_str s"
  by (rule c_str_id) (auto simp: c_str_def dest: set_takeWhileD)

lemma c_str_idem [simp]: "c_str (c_str s) = c_str s"
  by (simp add: c_str_def)

text \<open>Integer division of C++ and of \<open>duration_cast\<close>: towards zero.\<close>

definition cpp_div :: "int \<Rightarrow> int \<Rightarrow> int" where
  "cpp_div n d = (let q = \<bar>n\<bar> div \<bar>d\<bar> in if (n < 0) = (d < 0) then q else - q)"

lemma cpp_div_nonneg: "0 \<le> n \<Longrightarrow> 0 < d \<Longrightarrow> cpp_div n d = n div d"
  by (simp add: cpp_div_def)

abbreviation ns_per_ms :: int where
  "ns_per_ms \<equiv> 1000000"



subsection \<open>Results of system calls\<close>

text \<open>
  A call that transfers data returns its value, or fails with \<open>EINTR\<close>, with \<open>EAGAIN\<close>/\<open>EWOULDBLOCK\<close>, or with
  another error. A loop that retries after \<open>EINTR\<close> consumes the list of results the kernel gives, one per call;
  \<open>None\<close> means that the list ended while the loop was still running.
\<close>

datatype 'a sys_result = Sys_ok 'a | Sys_EINTR | Sys_EAGAIN | Sys_error

fun retry_eintr :: "'a sys_result list \<Rightarrow> ('a sys_result \<times> 'a sys_result list) option" where
  "retry_eintr [] = None"
| "retry_eintr (r # rs) = (if r = Sys_EINTR then retry_eintr rs else Some (r, rs))"

lemma retry_eintr_total: "\<exists>r \<in> set rs. r \<noteq> Sys_EINTR \<Longrightarrow> \<exists>r rs'. retry_eintr rs = Some (r, rs') \<and> r \<noteq> Sys_EINTR"
  by (induction rs) auto

lemma retry_eintr_Some:
  "retry_eintr rs = Some (r, rs') \<longleftrightarrow> (\<exists>n. rs = replicate n Sys_EINTR @ r # rs') \<and> r \<noteq> Sys_EINTR"
proof (induction rs)
  case (Cons a rs)
  show ?case
  proof (cases "a = Sys_EINTR")
    case True
    then have "(\<exists>n. a # rs = replicate n Sys_EINTR @ r # rs') \<and> r \<noteq> Sys_EINTR \<longleftrightarrow>
        (\<exists>n. rs = replicate n Sys_EINTR @ r # rs') \<and> r \<noteq> Sys_EINTR"
      by (metis append_Cons append_Nil list.inject not0_implies_Suc replicate_0 replicate_Suc)
    then show ?thesis using True Cons by simp
  next
    case False
    then show ?thesis by (auto simp: Cons_eq_append_conv Cons_replicate_eq intro: exI [of _ 0])
  qed
qed simp

text \<open>The size of \<open>sun_path\<close> in a \<open>sockaddr_un\<close> on Linux.\<close>

definition sun_path_size :: nat where
  "sun_path_size = 108"

end
