(* ===== verification/Device_Model.thy ===== *)
theory Device_Model
  imports Prelude
begin

section \<open>Devices, tags and their values\<close>

text \<open>
  The data model of \<open>include/edgelink/device.h\<close>: the enumerations \<open>Quality\<close> and
  \<open>ConnectionState\<close>, the variant \<open>TagValue\<close>, the structs \<open>Tag\<close> and \<open>Device\<close> with their
  member functions. Floating-point alternatives carry their IEEE bit pattern, so that copying bytes is
  modelled exactly. \<open>system_clock::now()\<close> is the argument \<open>now\<close> of the operations that read it.
\<close>

datatype quality =
    Quality_Good
  | Quality_Stale
  | Quality_Timeout
  | Quality_Invalid
  | Quality_Disconnected

datatype connection_state =
    State_Disconnected
  | State_Connecting
  | State_Connected
  | State_Timeout
  | State_Error

datatype tag_value =
    Val_Monostate
  | Val_Bool bool
  | Val_Int8 "8 word"
  | Val_Int16 "16 word"
  | Val_Int32 "32 word"
  | Val_Int64 "64 word"
  | Val_UInt8 "8 word"
  | Val_UInt16 "16 word"
  | Val_UInt32 "32 word"
  | Val_UInt64 "64 word"
  | Val_Float "32 word"
  | Val_Double "64 word"
  | Val_String string

text \<open>\<open>std::variant::index()\<close>.\<close>

fun value_index :: "tag_value \<Rightarrow> nat" where
  "value_index Val_Monostate = 0"
| "value_index (Val_Bool _) = 1"
| "value_index (Val_Int8 _) = 2"
| "value_index (Val_Int16 _) = 3"
| "value_index (Val_Int32 _) = 4"
| "value_index (Val_Int64 _) = 5"
| "value_index (Val_UInt8 _) = 6"
| "value_index (Val_UInt16 _) = 7"
| "value_index (Val_UInt32 _) = 8"
| "value_index (Val_UInt64 _) = 9"
| "value_index (Val_Float _) = 10"
| "value_index (Val_Double _) = 11"
| "value_index (Val_String _) = 12"

lemma value_index_le: "value_index v \<le> 12"
  by (cases v) simp_all

text \<open>\<open>static_cast\<close> between \<open>Quality\<close> and its underlying integer.\<close>

fun quality_index :: "quality \<Rightarrow> nat" where
  "quality_index Quality_Good = 0"
| "quality_index Quality_Stale = 1"
| "quality_index Quality_Timeout = 2"
| "quality_index Quality_Invalid = 3"
| "quality_index Quality_Disconnected = 4"

fun quality_of_index :: "nat \<Rightarrow> quality" where
  "quality_of_index n =
     (if n = 0 then Quality_Good else if n = 1 then Quality_Stale
      else if n = 2 then Quality_Timeout else if n = 3 then Quality_Invalid
      else Quality_Disconnected)"

lemma quality_index_le: "quality_index q \<le> 4"
  by (cases q) simp_all

lemma quality_of_quality_index [simp]: "quality_of_index (quality_index q) = q"
  by (cases q) simp_all

lemma quality_index_of_index: "n \<le> 4 \<Longrightarrow> quality_index (quality_of_index n) = n"
  by auto

declare quality_of_index.simps [simp del]

subsection \<open>Tags\<close>

record tag =
  tag_name :: string
  tag_val :: tag_value
  tag_quality :: quality
  tag_timestamp :: wall_time

text \<open>\<open>Tag{}\<close> with the default member initialisers.\<close>

definition default_tag :: tag where
  "default_tag = \<lparr>tag_name = '''', tag_val = Val_Monostate,
     tag_quality = Quality_Disconnected, tag_timestamp = 0\<rparr>"

definition tag_isValid :: "tag \<Rightarrow> bool" where
  "tag_isValid t \<longleftrightarrow> tag_quality t = Quality_Good \<and> tag_val t \<noteq> Val_Monostate"

subsection \<open>Devices\<close>

record device =
  dev_id :: string
  dev_name :: string
  dev_protocol :: string
  dev_state :: connection_state
  dev_tags :: "(string, tag) umap"

definition default_device :: device where
  "default_device = \<lparr>dev_id = '''', dev_name = '''', dev_protocol = '''',
     dev_state = State_Disconnected, dev_tags = []\<rparr>"

definition findTag :: "device \<Rightarrow> string \<Rightarrow> tag option" where
  "findTag d tagName = um_find (dev_tags d) tagName"

definition device_updateTag :: "wall_time \<Rightarrow> tag \<Rightarrow> device \<Rightarrow> device" where
  "device_updateTag now t d =
     (let t' = t\<lparr>tag_timestamp := now\<rparr>
      in d\<lparr>dev_tags := um_set (tag_name t') t' (dev_tags d)\<rparr>)"

definition isOnline :: "device \<Rightarrow> bool" where
  "isOnline d \<longleftrightarrow> dev_state d = State_Connected"

fun qualityToString :: "quality \<Rightarrow> string" where
  "qualityToString Quality_Good = ''GOOD''"
| "qualityToString Quality_Stale = ''STALE''"
| "qualityToString Quality_Timeout = ''TIMEOUT''"
| "qualityToString Quality_Invalid = ''INVALID''"
| "qualityToString Quality_Disconnected = ''DISCONNECTED''"

fun connectionStateToString :: "connection_state \<Rightarrow> string" where
  "connectionStateToString State_Disconnected = ''DISCONNECTED''"
| "connectionStateToString State_Connecting = ''CONNECTING''"
| "connectionStateToString State_Connected = ''CONNECTED''"
| "connectionStateToString State_Timeout = ''TIMEOUT''"
| "connectionStateToString State_Error = ''ERROR''"

lemma qualityToString_inject: "qualityToString q = qualityToString r \<longleftrightarrow> q = r"
  by (cases q; cases r) simp_all

lemma connectionStateToString_inject:
  "connectionStateToString s = connectionStateToString t \<longleftrightarrow> s = t"
  by (cases s; cases t) simp_all

subsection \<open>Well-formed tag tables\<close>

text \<open>Every tag is stored once, under its own, non-empty name.\<close>

definition tags_wf :: "(string, tag) umap \<Rightarrow> bool" where
  "tags_wf m \<longleftrightarrow> um_wf m \<and> (\<forall>k t. um_find m k = Some t \<longrightarrow> tag_name t = k \<and> k \<noteq> '''')"

lemma tags_wf_Nil [simp]: "tags_wf []"
  by (simp add: tags_wf_def)

lemma tags_wf_set [wf_intros]:
  "tags_wf m \<Longrightarrow> tag_name t = k \<Longrightarrow> k \<noteq> '''' \<Longrightarrow> tags_wf (um_set k t m)"
  by (auto simp: tags_wf_def edgelink_simps intro: wf_intros split: if_splits)

lemma tags_wf_each [wf_intros]:
  "tags_wf m \<Longrightarrow> (\<And>t. tag_name (f t) = tag_name t) \<Longrightarrow> tags_wf (um_each f m)"
  by (auto simp: tags_wf_def edgelink_simps intro: wf_intros)

lemma findTag_updateTag [edgelink_simps]:
  "findTag (device_updateTag now t d) k =
     (if k = tag_name t then Some (t\<lparr>tag_timestamp := now\<rparr>) else findTag d k)"
  by (simp add: findTag_def device_updateTag_def Let_def edgelink_simps)

lemma device_updateTag_frame [simp]:
  "dev_id (device_updateTag now t d) = dev_id d"
  "dev_name (device_updateTag now t d) = dev_name d"
  "dev_protocol (device_updateTag now t d) = dev_protocol d"
  "dev_state (device_updateTag now t d) = dev_state d"
  by (simp_all add: device_updateTag_def Let_def)

end
