(* ===== verification/Device_Manager.thy ===== *)
theory Device_Manager
  imports Device_Model
begin

section \<open>The device manager\<close>

text \<open>
  \<open>src/device_manager.cpp\<close>. The state is \<open>devices_\<close>, the table from device id to device; every
  mutating operation returns its C++ result and the new table. \<open>findDevice\<close> returns a pointer into the table
  in C++; the operations below that write through it store the changed device back under the same key. The
  locale \<open>device_store\<close> states what the other components rely on.
\<close>

type_synonym device_manager = "(string, device) umap"

definition findDevice :: "device_manager \<Rightarrow> string \<Rightarrow> device option" where
  "findDevice dm deviceId = um_find dm deviceId"

definition hasDevice :: "device_manager \<Rightarrow> string \<Rightarrow> bool" where
  "hasDevice dm deviceId \<longleftrightarrow> um_find dm deviceId \<noteq> None"

definition addDevice :: "device \<Rightarrow> device_manager \<Rightarrow> bool \<times> device_manager" where
  "addDevice device dm =
     (if dev_id device = '''' then (False, dm)
      else if um_find dm (dev_id device) \<noteq> None then (False, dm)
      else (True, um_emplace (dev_id device) device dm))"

definition removeDevice :: "string \<Rightarrow> device_manager \<Rightarrow> bool \<times> device_manager" where
  "removeDevice deviceId dm =
     (case um_find dm deviceId of
        None \<Rightarrow> (False, dm)
      | Some _ \<Rightarrow> (True, um_erase deviceId dm))"

definition deviceCount :: "device_manager \<Rightarrow> nat" where
  "deviceCount dm = length dm"

definition deviceIds :: "device_manager \<Rightarrow> string list" where
  "deviceIds dm = map fst dm"

definition updateConnectionState ::
  "string \<Rightarrow> connection_state \<Rightarrow> device_manager \<Rightarrow> bool \<times> device_manager" where
  "updateConnectionState deviceId state dm =
     (case findDevice dm deviceId of
        None \<Rightarrow> (False, dm)
      | Some device \<Rightarrow> (True, um_set deviceId (device\<lparr>dev_state := state\<rparr>) dm))"

definition updateTag ::
  "wall_time \<Rightarrow> string \<Rightarrow> tag \<Rightarrow> device_manager \<Rightarrow> bool \<times> device_manager" where
  "updateTag now deviceId t dm =
     (case findDevice dm deviceId of
        None \<Rightarrow> (False, dm)
      | Some device \<Rightarrow>
          if tag_name t = '''' then (False, dm)
          else (True, um_set deviceId (device_updateTag now t device) dm))"

definition updateAllTagQualities ::
  "wall_time \<Rightarrow> string \<Rightarrow> quality \<Rightarrow> device_manager \<Rightarrow> bool \<times> device_manager" where
  "updateAllTagQualities now deviceId q dm =
     (case findDevice dm deviceId of
        None \<Rightarrow> (False, dm)
      | Some device \<Rightarrow>
          (True, um_set deviceId
             (device\<lparr>dev_tags := um_each (\<lambda>t. t\<lparr>tag_quality := q, tag_timestamp := now\<rparr>)
                                   (dev_tags device)\<rparr>) dm))"

definition clear_devices :: "device_manager \<Rightarrow> device_manager" where
  "clear_devices dm = []"

lemmas device_manager_defs = findDevice_def hasDevice_def addDevice_def removeDevice_def
  deviceCount_def deviceIds_def updateConnectionState_def updateTag_def
  updateAllTagQualities_def clear_devices_def

subsection \<open>Invariant\<close>

definition device_wf :: "device \<Rightarrow> bool" where
  "device_wf d \<longleftrightarrow> tags_wf (dev_tags d)"

definition dm_wf :: "device_manager \<Rightarrow> bool" where
  "dm_wf dm \<longleftrightarrow> um_wf dm \<and>
     (\<forall>k d. um_find dm k = Some d \<longrightarrow> dev_id d = k \<and> k \<noteq> '''' \<and> device_wf d)"

lemma dm_wf_Nil [simp]: "dm_wf []"
  by (simp add: dm_wf_def)

lemma dm_wf_set:
  "dm_wf dm \<Longrightarrow> dev_id d = k \<Longrightarrow> k \<noteq> '''' \<Longrightarrow> device_wf d \<Longrightarrow> dm_wf (um_set k d dm)"
  by (auto simp: dm_wf_def edgelink_simps intro: wf_intros split: if_splits)

lemma dm_wf_find:
  "dm_wf dm \<Longrightarrow> um_find dm k = Some d \<Longrightarrow> dev_id d = k \<and> k \<noteq> '''' \<and> device_wf d"
  by (simp add: dm_wf_def)

lemma device_wf_updateTag [wf_intros]:
  "device_wf d \<Longrightarrow> tag_name t \<noteq> '''' \<Longrightarrow> device_wf (device_updateTag now t d)"
  by (auto simp: device_wf_def device_updateTag_def Let_def intro: wf_intros)

lemma dm_wf_addDevice [wf_intros]:
  "dm_wf dm \<Longrightarrow> device_wf d \<Longrightarrow> dm_wf (snd (addDevice d dm))"
  by (auto simp: addDevice_def dm_wf_def edgelink_simps intro: wf_intros split: if_splits)

lemma dm_wf_removeDevice [wf_intros]: "dm_wf dm \<Longrightarrow> dm_wf (snd (removeDevice k dm))"
  by (auto simp: removeDevice_def dm_wf_def edgelink_simps intro: wf_intros
      split: option.splits if_splits)

lemma dm_wf_updateConnectionState [wf_intros]:
  "dm_wf dm \<Longrightarrow> dm_wf (snd (updateConnectionState k s dm))"
  by (auto simp: updateConnectionState_def findDevice_def device_wf_def
      intro!: dm_wf_set dest: dm_wf_find split: option.splits)

lemma dm_wf_updateTag [wf_intros]: "dm_wf dm \<Longrightarrow> dm_wf (snd (updateTag now k t dm))"
  by (auto simp: updateTag_def findDevice_def
      intro!: dm_wf_set wf_intros dest: dm_wf_find split: option.splits)

lemma device_wf_each_tag [wf_intros]:
  "device_wf d \<Longrightarrow> (\<And>t. tag_name (f t) = tag_name t) \<Longrightarrow>
     device_wf (d\<lparr>dev_tags := um_each f (dev_tags d)\<rparr>)"
  by (simp add: device_wf_def tags_wf_each)

lemma dm_wf_updateAllTagQualities [wf_intros]:
  "dm_wf dm \<Longrightarrow> dm_wf (snd (updateAllTagQualities now k q dm))"
  by (auto simp: updateAllTagQualities_def findDevice_def
      intro!: dm_wf_set device_wf_each_tag dest: dm_wf_find split: option.splits)

subsection \<open>The interface the connection state machine and the plugins rely on\<close>

text \<open>
  A store of devices: \<open>find\<close> looks one up, \<open>set_state\<close> writes its connection state. The laws say exactly
  which lookups change.
\<close>

locale device_store =
  fixes find :: "'s \<Rightarrow> string \<Rightarrow> device option"
    and set_state :: "string \<Rightarrow> connection_state \<Rightarrow> 's \<Rightarrow> bool \<times> 's"
  assumes set_state_result: "fst (set_state k s m) \<longleftrightarrow> find m k \<noteq> None"
    and set_state_find: "find (snd (set_state k s m)) k' =
          (if k' = k then map_option (\<lambda>d. d\<lparr>dev_state := s\<rparr>) (find m k) else find m k')"
    and set_state_absent: "find m k = None \<Longrightarrow> snd (set_state k s m) = m"
begin

lemma set_state_present:
  "find (snd (set_state k s m)) k' = None \<longleftrightarrow> find m k' = None"
  by (simp add: set_state_find)

lemma set_state_state:
  "fst (set_state k s m) \<Longrightarrow> map_option dev_state (find (snd (set_state k s m)) k) = Some s"
  by (auto simp: set_state_find set_state_result)

lemma set_state_other:
  "k' \<noteq> k \<Longrightarrow> find (snd (set_state k s m)) k' = find m k'"
  by (simp add: set_state_find)

lemma set_state_frame:
  "find (snd (set_state k s m)) k = Some d' \<Longrightarrow>
     \<exists>d. find m k = Some d \<and> d' = d\<lparr>dev_state := s\<rparr>"
  by (auto simp: set_state_find)

lemma set_state_last_wins:
  "find (snd (set_state k s2 (snd (set_state k s1 m)))) k' = find (snd (set_state k s2 m)) k'"
  by (cases "find m k") (simp_all add: set_state_find)

end

lemma updateConnectionState_result: "fst (updateConnectionState k s dm) \<longleftrightarrow> findDevice dm k \<noteq> None"
  by (auto simp: updateConnectionState_def split: option.splits)

lemma updateConnectionState_find:
  "findDevice (snd (updateConnectionState k s dm)) k' =
     (if k' = k then map_option (\<lambda>d. d\<lparr>dev_state := s\<rparr>) (findDevice dm k) else findDevice dm k')"
  by (auto simp: updateConnectionState_def findDevice_def edgelink_simps split: option.splits)

interpretation dms: device_store findDevice updateConnectionState
proof unfold_locales
  fix k s and m :: device_manager
  show "findDevice m k = None \<Longrightarrow> snd (updateConnectionState k s m) = m"
    by (simp add: updateConnectionState_def)
qed (rule updateConnectionState_result updateConnectionState_find)+

subsection \<open>Looking a tag up\<close>

text \<open>What a client sees: \<open>findDevice\<close>, then \<open>findTag\<close> on the device it returns.\<close>

definition lookupTag :: "device_manager \<Rightarrow> string \<Rightarrow> string \<Rightarrow> tag option" where
  "lookupTag dm k n = Option.bind (findDevice dm k) (\<lambda>d. findTag d n)"

lemma lookupTag_updateTag [edgelink_simps]:
  "lookupTag (snd (updateTag now k t dm)) k' n =
     (if fst (updateTag now k t dm) \<and> k' = k \<and> n = tag_name t
      then Some (t\<lparr>tag_timestamp := now\<rparr>) else lookupTag dm k' n)"
  by (auto simp: lookupTag_def updateTag_def findDevice_def edgelink_simps split: option.splits)

lemma updateTag_result: "fst (updateTag now k t dm) \<longleftrightarrow> hasDevice dm k \<and> tag_name t \<noteq> ''''"
  by (auto simp: updateTag_def hasDevice_def findDevice_def split: option.splits)

lemma updateTag_device:
  "map_option dev_state (findDevice (snd (updateTag now k t dm)) k') = map_option dev_state (findDevice dm k')"
  by (auto simp: updateTag_def findDevice_def edgelink_simps split: option.splits)

lemma updateAllTagQualities_device:
  "map_option dev_state (findDevice (snd (updateAllTagQualities now k q dm)) k') =
     map_option dev_state (findDevice dm k')"
  by (auto simp: updateAllTagQualities_def findDevice_def edgelink_simps split: option.splits)

lemma lookupTag_setQualities [edgelink_simps]:
  "lookupTag (snd (updateAllTagQualities now k q dm)) k' n =
     (if k' = k then map_option (\<lambda>t. t\<lparr>tag_quality := q, tag_timestamp := now\<rparr>) (lookupTag dm k n)
      else lookupTag dm k' n)"
  by (auto simp: lookupTag_def updateAllTagQualities_def findDevice_def findTag_def edgelink_simps
      split: option.splits)

text \<open>
  \<open>updateTag\<close> succeeds exactly for a known device and a named tag; then the tag reads back with the
  given value and the current time, and no other tag of any device changes. A failed call changes nothing.
\<close>

theorem updateTag_reads_back:
  "(fst (updateTag now k t dm) \<longleftrightarrow> hasDevice dm k \<and> tag_name t \<noteq> '''') \<and>
   lookupTag (snd (updateTag now k t dm)) k' n =
     (if hasDevice dm k \<and> tag_name t \<noteq> '''' \<and> k' = k \<and> n = tag_name t
      then Some (t\<lparr>tag_timestamp := now\<rparr>) else lookupTag dm k' n)"
  by (simp add: updateTag_result lookupTag_updateTag)

subsection \<open>Sequences of operations\<close>

datatype dm_call =
    Call_add device
  | Call_remove string
  | Call_setState string connection_state
  | Call_updateTag wall_time string tag
  | Call_setQualities wall_time string quality
  | Call_clear

fun dm_apply :: "dm_call \<Rightarrow> device_manager \<Rightarrow> device_manager" where
  "dm_apply (Call_add d) dm = snd (addDevice d dm)"
| "dm_apply (Call_remove k) dm = snd (removeDevice k dm)"
| "dm_apply (Call_setState k s) dm = snd (updateConnectionState k s dm)"
| "dm_apply (Call_updateTag now k t) dm = snd (updateTag now k t dm)"
| "dm_apply (Call_setQualities now k q) dm = snd (updateAllTagQualities now k q dm)"
| "dm_apply Call_clear dm = clear_devices dm"

fun call_ok :: "dm_call \<Rightarrow> bool" where
  "call_ok (Call_add d) = device_wf d"
| "call_ok _ = True"

lemma dm_wf_call: "dm_wf dm \<Longrightarrow> call_ok c \<Longrightarrow> dm_wf (dm_apply c dm)"
  by (cases c) (auto simp: clear_devices_def intro: wf_intros)

lemma dm_wf_calls: "dm_wf dm \<Longrightarrow> list_all call_ok cs \<Longrightarrow> dm_wf (fold dm_apply cs dm)"
  by (induction cs arbitrary: dm) (auto intro: dm_wf_call)

lemma dm_wf_ids: "dm_wf dm \<Longrightarrow> distinct (deviceIds dm) \<and> length (deviceIds dm) = deviceCount dm"
  by (simp add: dm_wf_def um_wf_def deviceIds_def deviceCount_def)

text \<open>
  From an empty manager, any sequence of operations keeps the table well-formed: ids are distinct and
  non-empty, every device is stored under its own id, every tag under its own non-empty name; so
  \<open>deviceIds\<close> lists \<open>deviceCount\<close> different ids.
\<close>

theorem device_table_invariant:
  assumes "list_all call_ok cs"
  shows "dm_wf (fold dm_apply cs []) \<and>
    distinct (deviceIds (fold dm_apply cs [])) \<and>
    length (deviceIds (fold dm_apply cs [])) = deviceCount (fold dm_apply cs [])"
  using dm_wf_calls [OF dm_wf_Nil assms] dm_wf_ids by blast

theorem device_table_invariant_witness:
  "dm_wf (fold dm_apply
     [Call_add (default_device\<lparr>dev_id := ''plc''\<rparr>),
      Call_updateTag 7 ''plc'' (default_tag\<lparr>tag_name := ''t''\<rparr>)] [])"
  using device_table_invariant
    [of "[Call_add (default_device\<lparr>dev_id := ''plc''\<rparr>),
          Call_updateTag 7 ''plc'' (default_tag\<lparr>tag_name := ''t''\<rparr>)]"]
  by (simp add: device_wf_def default_device_def)

end
