(* ===== verification/Connection_State.thy ===== *)
theory Connection_State
  imports Device_Manager
begin

section \<open>The connection state machine of one device\<close>

text \<open>
  \<open>src/device_connection_state_machine.cpp\<close>. The machine keeps its own copy of the connection state and
  writes every change through to the device manager it points at, so the operations act on the pair of both.
  \<open>nowProvider_()\<close> is the argument \<open>now\<close> (nanoseconds); the timeout is in milliseconds. Signed 64-bit
  overflow of time arithmetic (undefined in C++) is outside the model: times are mathematical integers.
\<close>

record csm =
  csm_deviceId :: string
  csm_timeout :: int
  csm_lastActivity :: mono_time
  csm_state :: connection_state

type_synonym csm_world = "csm \<times> device_manager"

datatype csm_error = Csm_InvalidConfiguration | Csm_DeviceNotFound

text \<open>The constructor; \<open>None\<close> is a null \<open>DeviceManager*\<close>.\<close>

definition new_csm ::
  "device_manager option \<Rightarrow> string \<Rightarrow> int \<Rightarrow> mono_time \<Rightarrow> csm_error + csm" where
  "new_csm deviceManager deviceId timeout now =
     (case deviceManager of
        None \<Rightarrow> Inl Csm_InvalidConfiguration
      | Some dm \<Rightarrow>
          if deviceId = '''' \<or> timeout \<le> 0 then Inl Csm_InvalidConfiguration
          else (case findDevice dm deviceId of
                  None \<Rightarrow> Inl Csm_DeviceNotFound
                | Some device \<Rightarrow>
                    Inr \<lparr>csm_deviceId = deviceId, csm_timeout = timeout,
                         csm_lastActivity = now, csm_state = dev_state device\<rparr>))"

fun isTransitionAllowed :: "connection_state \<Rightarrow> connection_state \<Rightarrow> bool" where
  "isTransitionAllowed State_Disconnected nextState \<longleftrightarrow> nextState = State_Connecting"
| "isTransitionAllowed State_Connecting nextState \<longleftrightarrow>
     nextState = State_Connected \<or> nextState = State_Timeout \<or>
     nextState = State_Error \<or> nextState = State_Disconnected"
| "isTransitionAllowed State_Connected nextState \<longleftrightarrow>
     nextState = State_Timeout \<or> nextState = State_Error \<or> nextState = State_Disconnected"
| "isTransitionAllowed State_Timeout nextState \<longleftrightarrow>
     nextState = State_Connecting \<or> nextState = State_Disconnected"
| "isTransitionAllowed State_Error nextState \<longleftrightarrow>
     nextState = State_Connecting \<or> nextState = State_Disconnected"

definition transitionTo :: "mono_time \<Rightarrow> connection_state \<Rightarrow> csm_world \<Rightarrow> bool \<times> csm_world" where
  "transitionTo now nextState w =
     (let (m, dm) = w in
      if nextState = csm_state m then (True, m, dm)
      else if \<not> isTransitionAllowed (csm_state m) nextState then (False, m, dm)
      else (let (ok, dm') = updateConnectionState (csm_deviceId m) nextState dm in
            if \<not> ok then (False, m, dm')
            else (let m' = m\<lparr>csm_state := nextState\<rparr> in
                  if csm_state m' = State_Connected
                  then (True, m'\<lparr>csm_lastActivity := now\<rparr>, dm')
                  else (True, m', dm'))))"

definition markActivity :: "mono_time \<Rightarrow> csm_world \<Rightarrow> bool \<times> csm_world" where
  "markActivity now w =
     (let (m, dm) = w in
      if csm_state m \<noteq> State_Connected then (False, m, dm)
      else (True, m\<lparr>csm_lastActivity := now\<rparr>, dm))"

definition checkTimeout :: "mono_time \<Rightarrow> csm_world \<Rightarrow> bool \<times> csm_world" where
  "checkTimeout now w =
     (let (m, dm) = w in
      if csm_state m \<noteq> State_Connected then (False, m, dm)
      else if now - csm_lastActivity m < csm_timeout m * ns_per_ms then (False, m, dm)
      else transitionTo now State_Timeout (m, dm))"

lemmas csm_defs = transitionTo_def markActivity_def checkTimeout_def

subsection \<open>Every branch of the operations\<close>

text \<open>The device the machine is about is still registered.\<close>

definition csm_attached :: "csm_world \<Rightarrow> bool" where
  "csm_attached w \<longleftrightarrow> findDevice (snd w) (csm_deviceId (fst w)) \<noteq> None"

lemma transitionTo_detached:
  "findDevice dm (csm_deviceId m) = None \<Longrightarrow>
     transitionTo now s (m, dm) = (s = csm_state m, m, dm)"
  by (simp add: transitionTo_def updateConnectionState_def)

lemma transitionTo_attached:
  assumes "findDevice dm (csm_deviceId m) \<noteq> None"
  shows "transitionTo now s (m, dm) =
    (if s = csm_state m then (True, m, dm)
     else if isTransitionAllowed (csm_state m) s
     then (True,
           m\<lparr>csm_state := s, csm_lastActivity := (if s = State_Connected then now else csm_lastActivity m)\<rparr>,
           snd (updateConnectionState (csm_deviceId m) s dm))
     else (False, m, dm))"
proof -
  obtain dm' where ok: "updateConnectionState (csm_deviceId m) s dm = (True, dm')"
    using assms dms.set_state_result [of "csm_deviceId m" s dm]
    by (cases "updateConnectionState (csm_deviceId m) s dm") auto
  show ?thesis
    by (simp add: transitionTo_def Let_def ok)
qed

lemma transitionTo_cases:
  obtains (same) "s = csm_state m" "transitionTo now s (m, dm) = (True, m, dm)"
  | (refused) "s \<noteq> csm_state m" "\<not> (isTransitionAllowed (csm_state m) s \<and> csm_attached (m, dm))"
      "transitionTo now s (m, dm) = (False, m, dm)"
  | (moved) "s \<noteq> csm_state m" "isTransitionAllowed (csm_state m) s" "csm_attached (m, dm)"
      "transitionTo now s (m, dm) =
        (True, m\<lparr>csm_state := s, csm_lastActivity := (if s = State_Connected then now else csm_lastActivity m)\<rparr>,
         snd (updateConnectionState (csm_deviceId m) s dm))"
proof (cases "findDevice dm (csm_deviceId m)")
  case None
  then show ?thesis
    using same refused transitionTo_detached [OF None] by (simp add: csm_attached_def) blast
next
  case (Some d)
  then show ?thesis
    using same refused moved transitionTo_attached [of dm m now s]
    by (simp add: csm_attached_def split: if_splits)
qed

lemma transitionTo_frame [simp]:
  "csm_deviceId (fst (snd (transitionTo now s w))) = csm_deviceId (fst w)"
  "csm_timeout (fst (snd (transitionTo now s w))) = csm_timeout (fst w)"
  by (cases w, rule transitionTo_cases [of s "fst w" now "snd w"]; simp)+

lemma transitionTo_result:
  "fst (transitionTo now s w) \<longleftrightarrow>
     s = csm_state (fst w) \<or> isTransitionAllowed (csm_state (fst w)) s \<and> csm_attached w"
  by (cases w, rule transitionTo_cases [of s "fst w" now "snd w"]; simp)

lemma transitionTo_state:
  "csm_state (fst (snd (transitionTo now s w))) =
     (if fst (transitionTo now s w) then s else csm_state (fst w))"
  by (cases w, rule transitionTo_cases [of s "fst w" now "snd w"]; simp)

lemma transitionTo_failed: "\<not> fst (transitionTo now s w) \<Longrightarrow> snd (transitionTo now s w) = w"
  by (cases w, rule transitionTo_cases [of s "fst w" now "snd w"]; simp)

lemma checkTimeout_result:
  "fst (checkTimeout now w) \<longleftrightarrow>
     csm_state (fst w) = State_Connected \<and> csm_attached w \<and>
     csm_timeout (fst w) * ns_per_ms \<le> now - csm_lastActivity (fst w)"
  by (cases w) (auto simp: checkTimeout_def transitionTo_result Let_def)

lemma checkTimeout_unfold:
  "snd (checkTimeout now w) = (if fst (checkTimeout now w) then snd (transitionTo now State_Timeout w) else w)"
  by (cases w) (auto simp: checkTimeout_def transitionTo_failed Let_def)

subsection \<open>Machine and store agree\<close>

text \<open>As long as the device is registered, the manager and the machine hold the same state.\<close>

definition csm_sync :: "csm_world \<Rightarrow> bool" where
  "csm_sync w \<longleftrightarrow>
     (\<forall>d. findDevice (snd w) (csm_deviceId (fst w)) = Some d \<longrightarrow> dev_state d = csm_state (fst w))"

lemma csm_sync_new: "new_csm (Some dm) k t now = Inr m \<Longrightarrow> csm_sync (m, dm)"
  by (auto simp: new_csm_def csm_sync_def split: if_splits option.splits)

lemma csm_sync_transitionTo [wf_intros]:
  assumes "csm_sync w" shows "csm_sync (snd (transitionTo now s w))"
proof (cases w)
  case (Pair m dm)
  show ?thesis unfolding Pair
  proof (cases rule: transitionTo_cases [of s m now dm])
    case moved
    then show "csm_sync (snd (transitionTo now s (m, dm)))"
      by (auto simp: csm_sync_def dest: dms.set_state_frame)
  qed (use assms Pair in \<open>simp_all\<close>)
qed

lemma csm_sync_markActivity [wf_intros]: "csm_sync w \<Longrightarrow> csm_sync (snd (markActivity now w))"
  by (cases w) (simp add: markActivity_def csm_sync_def Let_def)

lemma csm_sync_checkTimeout [wf_intros]: "csm_sync w \<Longrightarrow> csm_sync (snd (checkTimeout now w))"
  by (simp add: checkTimeout_unfold csm_sync_transitionTo)

subsection \<open>Runs of the machine\<close>

text \<open>
  One step is a call of one of the three operations at any time, or a change of the manager by someone else
  that does not touch the connection state of this device (tag updates, other devices) or removes it.
\<close>

inductive csm_step :: "csm_world \<Rightarrow> csm_world \<Rightarrow> bool" where
  step_transition: "csm_step w (snd (transitionTo now s w))"
| step_activity: "csm_step w (snd (markActivity now w))"
| step_timeout: "csm_step w (snd (checkTimeout now w))"
| step_other: "findDevice dm' (csm_deviceId m) = None \<or>
     map_option dev_state (findDevice dm' (csm_deviceId m)) =
     map_option dev_state (findDevice dm (csm_deviceId m)) \<Longrightarrow> csm_step (m, dm) (m, dm')"

inductive csm_reach :: "csm_world \<Rightarrow> bool" where
  reach_new: "new_csm (Some dm) k t now = Inr m \<Longrightarrow> csm_reach (m, dm)"
| reach_step: "csm_reach w \<Longrightarrow> csm_step w w' \<Longrightarrow> csm_reach w'"

inductive_cases csm_stepE: "csm_step w w'"

lemma csm_sync_other:
  "csm_sync (m, dm) \<Longrightarrow> findDevice dm' (csm_deviceId m) = None \<or>
     map_option dev_state (findDevice dm' (csm_deviceId m)) =
     map_option dev_state (findDevice dm (csm_deviceId m)) \<Longrightarrow> csm_sync (m, dm')"
  by (cases "findDevice dm (csm_deviceId m)") (auto simp: csm_sync_def)

lemma csm_step_sync: "csm_step w w' \<Longrightarrow> csm_sync w \<Longrightarrow> csm_sync w'"
  by (induction rule: csm_step.induct) (auto intro: wf_intros csm_sync_other)

lemma csm_reach_sync: "csm_reach w \<Longrightarrow> csm_sync w"
  by (induction rule: csm_reach.induct) (auto intro: csm_sync_new csm_step_sync)

lemma markActivity_state: "csm_state (fst (snd (markActivity now w))) = csm_state (fst w)"
  by (cases w) (simp add: markActivity_def Let_def)

lemma transitionTo_allowed:
  "csm_state (fst (snd (transitionTo now s w))) = csm_state (fst w) \<or>
   isTransitionAllowed (csm_state (fst w)) (csm_state (fst (snd (transitionTo now s w))))"
  by (auto simp: transitionTo_state transitionTo_result)

lemma csm_step_allowed:
  "csm_step w w' \<Longrightarrow> csm_state (fst w') = csm_state (fst w) \<or>
     isTransitionAllowed (csm_state (fst w)) (csm_state (fst w'))"
proof (erule csm_stepE)
  fix now assume "w' = snd (checkTimeout now w)"
  then show ?thesis
    using transitionTo_allowed [of now State_Timeout w] by (simp add: checkTimeout_unfold)
qed (simp_all add: markActivity_state transitionTo_allowed)



text \<open>
  Every step of a run either keeps the state or follows an edge of the transition table; in particular
  \<open>Connected\<close> is entered from \<open>Connecting\<close> only.
\<close>

theorem connection_steps_follow_table:
  assumes "csm_step w w'" and "csm_state (fst w') \<noteq> csm_state (fst w)"
  shows "isTransitionAllowed (csm_state (fst w)) (csm_state (fst w')) \<and>
    (csm_state (fst w') = State_Connected \<longrightarrow> csm_state (fst w) = State_Connecting)"
proof -
  from csm_step_allowed [OF assms(1)] assms(2)
  have "isTransitionAllowed (csm_state (fst w)) (csm_state (fst w'))" by simp
  then show ?thesis by (cases "csm_state (fst w)") auto
qed

theorem connection_steps_follow_table_witness:
  "let m = \<lparr>csm_deviceId = ''d'', csm_timeout = 3000, csm_lastActivity = 5, csm_state = State_Connecting\<rparr>;
       dm = [(''d'', default_device\<lparr>dev_id := ''d'', dev_state := State_Connecting\<rparr>)]
   in isTransitionAllowed (csm_state m) (csm_state (fst (snd (transitionTo 9 State_Connected (m, dm)))))"
proof -
  let ?m = "\<lparr>csm_deviceId = ''d'', csm_timeout = 3000, csm_lastActivity = 5, csm_state = State_Connecting\<rparr>"
  let ?dm = "[(''d'', default_device\<lparr>dev_id := ''d'', dev_state := State_Connecting\<rparr>)]"
  have "csm_state (fst (snd (transitionTo 9 State_Connected (?m, ?dm)))) = State_Connected"
    by (simp add: transitionTo_def updateConnectionState_def findDevice_def)
  then show ?thesis
    using connection_steps_follow_table [OF step_transition, of 9 State_Connected "(?m, ?dm)"]
    by simp
qed

text \<open>
  \<open>checkTimeout\<close> reports a timeout exactly when the machine is connected, its device is registered and
  the last activity is at least the configured timeout ago; it then puts machine and manager into
  \<open>Timeout\<close>, and otherwise changes nothing.
\<close>

theorem checkTimeout_exact:
  "(fst (checkTimeout now w) \<longleftrightarrow>
     csm_state (fst w) = State_Connected \<and> csm_attached w \<and>
     csm_timeout (fst w) * ns_per_ms \<le> now - csm_lastActivity (fst w)) \<and>
   (if fst (checkTimeout now w)
    then csm_state (fst (snd (checkTimeout now w))) = State_Timeout \<and>
      map_option dev_state (findDevice (snd (snd (checkTimeout now w))) (csm_deviceId (fst w))) = Some State_Timeout
    else snd (checkTimeout now w) = w)"
proof (cases "fst (checkTimeout now w)")
  case True
  then have c: "csm_state (fst w) = State_Connected" "csm_attached w"
    by (simp_all add: checkTimeout_result)
  obtain m dm where w: "w = (m, dm)" by (cases w)
  have "map_option dev_state (findDevice (snd (snd (transitionTo now State_Timeout w))) (csm_deviceId (fst w)))
      = Some State_Timeout"
    using c unfolding w
    by (cases rule: transitionTo_cases [of State_Timeout m now dm])
      (auto simp: csm_attached_def dms.set_state_find)
  with True c show ?thesis
    by (simp add: checkTimeout_unfold transitionTo_state transitionTo_result checkTimeout_result)
next
  case False
  then have "snd (checkTimeout now w) = w" by (subst checkTimeout_unfold) simp
  with False show ?thesis using checkTimeout_result [of now w] by simp
qed

end
