(* ===== verification/Reconnect_Backoff.thy ===== *)
theory Reconnect_Backoff
  imports Prelude
begin

section \<open>Exponential reconnect back-off\<close>

text \<open>
  \<open>src/reconnect_backoff.cpp\<close>. Delays are signed milliseconds, time points nanoseconds of a monotonic clock
  (the argument \<open>now\<close> is \<open>nowProvider_()\<close>), the failure counter a \<open>std::size_t\<close>.
\<close>

record backoff =
  bo_initialDelay :: int
  bo_maximumDelay :: int
  bo_nextDelay :: int
  bo_retryAt :: mono_time
  bo_failureCount :: u64

datatype backoff_error = Backoff_InvalidRange

definition new_backoff :: "int \<Rightarrow> int \<Rightarrow> backoff_error + backoff" where
  "new_backoff initialDelay maximumDelay =
     (if initialDelay \<le> 0 \<or> maximumDelay < initialDelay then Inl Backoff_InvalidRange
      else Inr \<lparr>bo_initialDelay = initialDelay, bo_maximumDelay = maximumDelay,
                bo_nextDelay = initialDelay, bo_retryAt = 0, bo_failureCount = 0\<rparr>)"

definition recordFailure :: "mono_time \<Rightarrow> backoff \<Rightarrow> backoff" where
  "recordFailure now b =
     (let b1 = b\<lparr>bo_retryAt := now + bo_nextDelay b * ns_per_ms,
                 bo_failureCount := bo_failureCount b + 1\<rparr> in
      if bo_nextDelay b1 \<ge> bo_maximumDelay b1 then b1\<lparr>bo_nextDelay := bo_maximumDelay b1\<rparr>
      else (let doubledDelay = bo_nextDelay b1 * 2
            in b1\<lparr>bo_nextDelay := min doubledDelay (bo_maximumDelay b1)\<rparr>))"

definition reset_backoff :: "backoff \<Rightarrow> backoff" where
  "reset_backoff b = b\<lparr>bo_failureCount := 0, bo_nextDelay := bo_initialDelay b, bo_retryAt := 0\<rparr>"

definition canRetry :: "mono_time \<Rightarrow> backoff \<Rightarrow> bool" where
  "canRetry now b \<longleftrightarrow> bo_failureCount b = 0 \<or> now \<ge> bo_retryAt b"

definition failureCount :: "backoff \<Rightarrow> u64" where
  "failureCount b = bo_failureCount b"

definition remainingDelay :: "mono_time \<Rightarrow> backoff \<Rightarrow> int" where
  "remainingDelay now b =
     (if bo_failureCount b = 0 then 0
      else if now \<ge> bo_retryAt b then 0
      else cpp_div (bo_retryAt b - now) ns_per_ms)"

subsection \<open>Invariant\<close>

definition backoff_wf :: "backoff \<Rightarrow> bool" where
  "backoff_wf b \<longleftrightarrow> 0 < bo_initialDelay b \<and> bo_initialDelay b \<le> bo_nextDelay b \<and>
     bo_nextDelay b \<le> bo_maximumDelay b"

lemma backoff_wf_new [wf_intros]: "new_backoff i m = Inr b \<Longrightarrow> backoff_wf b"
  by (auto simp: new_backoff_def backoff_wf_def split: if_splits)

lemma backoff_wf_recordFailure [wf_intros]: "backoff_wf b \<Longrightarrow> backoff_wf (recordFailure now b)"
  by (auto simp: recordFailure_def backoff_wf_def Let_def)

lemma backoff_wf_reset [wf_intros]: "backoff_wf b \<Longrightarrow> backoff_wf (reset_backoff b)"
  by (auto simp: reset_backoff_def backoff_wf_def)

lemma recordFailure_frame [simp]:
  "bo_initialDelay (recordFailure now b) = bo_initialDelay b"
  "bo_maximumDelay (recordFailure now b) = bo_maximumDelay b"
  "bo_failureCount (recordFailure now b) = bo_failureCount b + 1"
  "bo_retryAt (recordFailure now b) = now + bo_nextDelay b * ns_per_ms"
  by (simp_all add: recordFailure_def Let_def)

lemma recordFailure_nextDelay:
  "backoff_wf b \<Longrightarrow> bo_nextDelay (recordFailure now b) = min (2 * bo_nextDelay b) (bo_maximumDelay b)"
  by (auto simp: recordFailure_def backoff_wf_def Let_def)

subsection \<open>The delays of a series of failures\<close>

text \<open>The delay the \<open>n\<close>-th failure in a row (from 0) waits.\<close>

definition backoff_delay :: "backoff \<Rightarrow> nat \<Rightarrow> int" where
  "backoff_delay b n = min (bo_initialDelay b * 2 ^ n) (bo_maximumDelay b)"

abbreviation failures :: "mono_time list \<Rightarrow> backoff \<Rightarrow> backoff" where
  "failures ts b \<equiv> fold recordFailure ts b"

lemma backoff_wf_failures: "backoff_wf b \<Longrightarrow> backoff_wf (failures ts b)"
  by (induction ts arbitrary: b) (simp_all add: backoff_wf_recordFailure)

lemma failures_frame [simp]:
  "bo_initialDelay (failures ts b) = bo_initialDelay b"
  "bo_maximumDelay (failures ts b) = bo_maximumDelay b"
  by (induction ts arbitrary: b) simp_all

lemma failures_count: "bo_failureCount (failures ts b) = bo_failureCount b + word_of_nat (length ts)"
  by (induction ts arbitrary: b) (simp_all add: algebra_simps)

lemma backoff_delay_Suc:
  assumes "0 < bo_initialDelay b" and "bo_initialDelay b \<le> bo_maximumDelay b"
  shows "backoff_delay b (Suc n) = min (2 * backoff_delay b n) (bo_maximumDelay b)"
proof -
  have "0 < bo_initialDelay b * 2 ^ n" using assms by simp
  with assms show ?thesis by (simp add: backoff_delay_def min_def mult.commute mult.left_commute)
qed

lemma failures_nextDelay:
  assumes "backoff_wf b" and "bo_nextDelay b = bo_initialDelay b"
  shows "bo_nextDelay (failures ts b) = backoff_delay b (length ts)"
proof (induction ts rule: rev_induct)
  case Nil
  then show ?case using assms by (simp add: backoff_delay_def backoff_wf_def)
next
  case (snoc t ts)
  have "0 < bo_initialDelay b" "bo_initialDelay b \<le> bo_maximumDelay b"
    using assms(1) by (simp_all add: backoff_wf_def)
  with snoc show ?case
    using recordFailure_nextDelay [OF backoff_wf_failures [OF assms(1)]]
    by (simp add: backoff_delay_Suc)
qed



subsection \<open>Bounds\<close>

datatype backoff_event = Bo_failure mono_time | Bo_reset

fun backoff_apply :: "backoff_event \<Rightarrow> backoff \<Rightarrow> backoff" where
  "backoff_apply (Bo_failure now) b = recordFailure now b"
| "backoff_apply Bo_reset b = reset_backoff b"

lemma backoff_apply_frame:
  "bo_initialDelay (backoff_apply e b) = bo_initialDelay b"
  "bo_maximumDelay (backoff_apply e b) = bo_maximumDelay b"
  by (cases e; simp add: reset_backoff_def)+

lemma backoff_wf_apply: "backoff_wf b \<Longrightarrow> backoff_wf (backoff_apply e b)"
  by (cases e) (simp_all add: backoff_wf_recordFailure backoff_wf_reset)

lemma backoff_wf_run:
  "backoff_wf b \<Longrightarrow> backoff_wf (fold backoff_apply es b) \<and>
     bo_initialDelay (fold backoff_apply es b) = bo_initialDelay b \<and>
     bo_maximumDelay (fold backoff_apply es b) = bo_maximumDelay b"
  by (induction es arbitrary: b) (simp_all add: backoff_wf_apply backoff_apply_frame)

text \<open>
  Whatever sequence of failures and successes happens after a valid construction, the next delay stays
  between the initial and the maximum delay; if the maximum is at most \<open>2^62\<close> milliseconds, the doubling
  in \<open>recordFailure\<close> never overflows a signed 64-bit count.
\<close>

theorem backoff_delay_bounds:
  assumes "new_backoff i m = Inr b"
  shows "i \<le> bo_nextDelay (fold backoff_apply es b) \<and> bo_nextDelay (fold backoff_apply es b) \<le> m \<and>
    (m \<le> 2 ^ 62 \<longrightarrow> bo_nextDelay (fold backoff_apply es b) < m \<longrightarrow>
       bo_nextDelay (fold backoff_apply es b) * 2 < 2 ^ 63)"
proof -
  have "bo_initialDelay b = i" "bo_maximumDelay b = m"
    using assms by (auto simp: new_backoff_def split: if_splits)
  then show ?thesis
    using backoff_wf_run [OF backoff_wf_new [OF assms], of es] by (auto simp: backoff_wf_def)
qed

theorem backoff_delay_bounds_witness:
  "500 \<le> bo_nextDelay (fold backoff_apply [Bo_failure 1, Bo_reset, Bo_failure 5, Bo_failure 9]
     \<lparr>bo_initialDelay = 500, bo_maximumDelay = 900, bo_nextDelay = 500, bo_retryAt = 0, bo_failureCount = 0\<rparr>)"
  using backoff_delay_bounds
    [of 500 900 "\<lparr>bo_initialDelay = 500, bo_maximumDelay = 900, bo_nextDelay = 500, bo_retryAt = 0,
        bo_failureCount = 0\<rparr>" "[Bo_failure 1, Bo_reset, Bo_failure 5, Bo_failure 9]"]
  by (simp add: new_backoff_def)

lemma remainingDelay_bounds:
  "0 \<le> remainingDelay now b \<and> (canRetry now b \<longrightarrow> remainingDelay now b = 0)"
  by (auto simp: remainingDelay_def canRetry_def cpp_div_nonneg)

lemma remainingDelay_zero_iff:
  "remainingDelay now b = 0 \<longleftrightarrow> bo_failureCount b = 0 \<or> bo_retryAt b - now < ns_per_ms"
  by (auto simp: remainingDelay_def cpp_div_nonneg)

end
