(* ===== verification/Message_Bus.thy ===== *)
theory Message_Bus
  imports Device_Model
begin

section \<open>The in-process message bus\<close>

text \<open>
  \<open>src/message_bus.cpp\<close>. The bus keeps two indexes, topic to subscription list and subscription id to
  topic, and a 64-bit id counter. A callback is a value of the type parameter \<open>'cb\<close>; \<open>None\<close> is an empty
  \<open>std::function\<close>. Calling a callback is the argument \<open>run\<close> of \<open>publish\<close>: it may change its own world
  \<open>'w\<close> and, because \<open>publish\<close> holds no lock while it calls, the bus itself; the boolean says whether it
  returned (an exception is caught, logged and not counted).
\<close>

record message =
  msg_topic :: string
  msg_deviceId :: string
  msg_tagName :: string
  msg_value :: tag_value
  msg_quality :: quality
  msg_timestamp :: wall_time

definition default_message :: message where
  "default_message = \<lparr>msg_topic = '''', msg_deviceId = '''', msg_tagName = '''',
     msg_value = Val_Monostate, msg_quality = Quality_Invalid, msg_timestamp = 0\<rparr>"

type_synonym subscription_id = u64

abbreviation InvalidSubscriptionId :: subscription_id where
  "InvalidSubscriptionId \<equiv> 0"

type_synonym 'cb subscription = "subscription_id \<times> 'cb"

record 'cb bus =
  bus_nextSubscriptionId :: subscription_id
  bus_subscribers :: "(string, 'cb subscription list) umap"
  bus_subscriptionTopics :: "(subscription_id, string) umap"

definition empty_bus :: "'cb bus" where
  "empty_bus = \<lparr>bus_nextSubscriptionId = 1, bus_subscribers = [], bus_subscriptionTopics = []\<rparr>"

definition subscribe :: "string \<Rightarrow> 'cb option \<Rightarrow> 'cb bus \<Rightarrow> subscription_id \<times> 'cb bus" where
  "subscribe topic callback b =
     (case callback of
        None \<Rightarrow> (InvalidSubscriptionId, b)
      | Some cb \<Rightarrow>
          if topic = '''' then (InvalidSubscriptionId, b)
          else (let subscriptionId = bus_nextSubscriptionId b;
                    old = (case um_find (bus_subscribers b) topic of None \<Rightarrow> [] | Some ss \<Rightarrow> ss)
                in (subscriptionId,
                    b\<lparr>bus_nextSubscriptionId := subscriptionId + 1,
                      bus_subscribers := um_set topic (old @ [(subscriptionId, cb)]) (bus_subscribers b),
                      bus_subscriptionTopics := um_set subscriptionId topic (bus_subscriptionTopics b)\<rparr>)))"

definition unsubscribe :: "subscription_id \<Rightarrow> 'cb bus \<Rightarrow> bool \<times> 'cb bus" where
  "unsubscribe subscriptionId b =
     (case um_find (bus_subscriptionTopics b) subscriptionId of
        None \<Rightarrow> (False, b)
      | Some topic \<Rightarrow>
          (case um_find (bus_subscribers b) topic of
             None \<Rightarrow> (False, b\<lparr>bus_subscriptionTopics := um_erase subscriptionId (bus_subscriptionTopics b)\<rparr>)
           | Some subscriptions \<Rightarrow>
               (let kept = filter (\<lambda>s. fst s \<noteq> subscriptionId) subscriptions;
                    removed = (length kept \<noteq> length subscriptions);
                    subscribers = (if kept = [] then um_erase topic (bus_subscribers b)
                                   else um_set topic kept (bus_subscribers b))
                in (removed,
                    b\<lparr>bus_subscribers := subscribers,
                      bus_subscriptionTopics := um_erase subscriptionId (bus_subscriptionTopics b)\<rparr>))))"

text \<open>The delivery loop over the snapshot.\<close>

fun deliver :: "('cb \<Rightarrow> message \<Rightarrow> 'w \<times> 'cb bus \<Rightarrow> bool \<times> 'w \<times> 'cb bus) \<Rightarrow> message \<Rightarrow>
  'cb subscription list \<Rightarrow> nat \<Rightarrow> 'w \<times> 'cb bus \<Rightarrow> nat \<times> 'w \<times> 'cb bus" where
  "deliver run m [] deliveredCount s = (deliveredCount, s)"
| "deliver run m (subscription # rest) deliveredCount s =
     (let (returned, s') = run (snd subscription) m s
      in deliver run m rest (if returned then deliveredCount + 1 else deliveredCount) s')"

definition publish :: "('cb \<Rightarrow> message \<Rightarrow> 'w \<times> 'cb bus \<Rightarrow> bool \<times> 'w \<times> 'cb bus) \<Rightarrow> message \<Rightarrow>
  'w \<times> 'cb bus \<Rightarrow> nat \<times> 'w \<times> 'cb bus" where
  "publish run m s =
     (if msg_topic m = '''' then (0, s)
      else (case um_find (bus_subscribers (snd s)) (msg_topic m) of
              None \<Rightarrow> (0, s)
            | Some subscriptions \<Rightarrow> deliver run m subscriptions 0 s))"

definition subscriberCount :: "string \<Rightarrow> 'cb bus \<Rightarrow> nat" where
  "subscriberCount topic b =
     (case um_find (bus_subscribers b) topic of None \<Rightarrow> 0 | Some ss \<Rightarrow> length ss)"

definition clear_bus :: "'cb bus \<Rightarrow> 'cb bus" where
  "clear_bus b = b\<lparr>bus_subscribers := [], bus_subscriptionTopics := []\<rparr>"

subsection \<open>Abstraction and invariant\<close>

text \<open>What a topic's subscribers are, in subscription order.\<close>

definition bus_subs :: "'cb bus \<Rightarrow> string \<Rightarrow> 'cb subscription list" where
  "bus_subs b t = (case um_find (bus_subscribers b) t of None \<Rightarrow> [] | Some ss \<Rightarrow> ss)"

definition bus_wf :: "'cb bus \<Rightarrow> bool" where
  "bus_wf b \<longleftrightarrow>
     um_wf (bus_subscribers b) \<and> um_wf (bus_subscriptionTopics b) \<and>
     (\<forall>t ss. um_find (bus_subscribers b) t = Some ss \<longrightarrow> t \<noteq> '''' \<and> ss \<noteq> [] \<and> distinct (map fst ss)) \<and>
     (\<forall>i t. um_find (bus_subscriptionTopics b) i = Some t \<longleftrightarrow> i \<in> fst ` set (bus_subs b t)) \<and>
     (\<forall>i t. um_find (bus_subscriptionTopics b) i = Some t \<longrightarrow> 0 < i \<and> i < bus_nextSubscriptionId b) \<and>
     0 < bus_nextSubscriptionId b"

lemma bus_wfI:
  assumes "um_wf (bus_subscribers b)" and "um_wf (bus_subscriptionTopics b)"
    and "\<And>t ss. um_find (bus_subscribers b) t = Some ss \<Longrightarrow> t \<noteq> '''' \<and> ss \<noteq> [] \<and> distinct (map fst ss)"
    and "\<And>i t. um_find (bus_subscriptionTopics b) i = Some t \<longleftrightarrow> i \<in> fst ` set (bus_subs b t)"
    and "\<And>i t. um_find (bus_subscriptionTopics b) i = Some t \<Longrightarrow> 0 < i \<and> i < bus_nextSubscriptionId b"
    and "0 < bus_nextSubscriptionId b"
  shows "bus_wf b"
  using assms(1,2,3,5,6) unfolding bus_wf_def assms(4) [symmetric] by blast

lemma bus_wfD:
  assumes "bus_wf b"
  shows "um_wf (bus_subscribers b)" and "um_wf (bus_subscriptionTopics b)"
    and "um_find (bus_subscribers b) t = Some ss \<Longrightarrow> t \<noteq> '''' \<and> ss \<noteq> [] \<and> distinct (map fst ss)"
    and "um_find (bus_subscriptionTopics b) i = Some t \<Longrightarrow> 0 < i \<and> i < bus_nextSubscriptionId b"
    and "0 < bus_nextSubscriptionId b"
  using assms unfolding bus_wf_def by blast+

lemma bus_subs_topic:
  "bus_wf b \<Longrightarrow> um_find (bus_subscriptionTopics b) i = Some t \<longleftrightarrow> i \<in> fst ` set (bus_subs b t)"
  by (simp add: bus_wf_def)

lemma bus_subs_Some: "bus_subs b t \<noteq> [] \<Longrightarrow> um_find (bus_subscribers b) t = Some (bus_subs b t)"
  by (auto simp: bus_subs_def split: option.splits)

lemma bus_subs_distinct: "bus_wf b \<Longrightarrow> distinct (map fst (bus_subs b t))"
  by (auto simp: bus_subs_def dest: bus_wfD(3) split: option.splits)

lemma bus_wf_empty: "bus_wf empty_bus"
  by (simp add: bus_wf_def empty_bus_def bus_subs_def)

lemma bus_wf_clear: "bus_wf b \<Longrightarrow> bus_wf (clear_bus b)"
  by (simp add: bus_wf_def clear_bus_def bus_subs_def)

lemma subscribe_subs:
  "t \<noteq> '''' \<Longrightarrow> bus_subs (snd (subscribe t (Some cb) b)) t' =
     (if t' = t then bus_subs b t @ [(bus_nextSubscriptionId b, cb)] else bus_subs b t')"
  by (simp add: subscribe_def bus_subs_def Let_def edgelink_simps split: option.splits)

lemma subscribe_refused:
  "t = '''' \<or> c = None \<Longrightarrow> subscribe t c b = (InvalidSubscriptionId, b)"
  by (auto simp: subscribe_def split: option.splits)

lemma fresh_id: "bus_wf b \<Longrightarrow> bus_nextSubscriptionId b \<notin> fst ` set (bus_subs b t)"
  using bus_subs_topic [of b "bus_nextSubscriptionId b" t] bus_wfD(4) [of b "bus_nextSubscriptionId b" t]
  by auto

lemma subscribe_fields:
  assumes "t \<noteq> ''''"
  shows "fst (subscribe t (Some cb) b) = bus_nextSubscriptionId b"
    and "bus_nextSubscriptionId (snd (subscribe t (Some cb) b)) = bus_nextSubscriptionId b + 1"
    and "bus_subscribers (snd (subscribe t (Some cb) b)) =
      um_set t (bus_subs b t @ [(bus_nextSubscriptionId b, cb)]) (bus_subscribers b)"
    and "bus_subscriptionTopics (snd (subscribe t (Some cb) b)) =
      um_set (bus_nextSubscriptionId b) t (bus_subscriptionTopics b)"
  using assms by (simp_all add: subscribe_def Let_def bus_subs_def)

lemma bus_wf_subscribe:
  assumes wf: "bus_wf b" and max: "bus_nextSubscriptionId b \<noteq> - 1" and t: "t \<noteq> ''''"
  shows "bus_wf (snd (subscribe t (Some cb) b))"
proof (rule bus_wfI)
  let ?n = "bus_nextSubscriptionId b" and ?b' = "snd (subscribe t (Some cb) b)"
  note f = subscribe_fields [OF t]
  have lt: "?n < ?n + 1" using max by (rule word_less_Suc)
  show "um_wf (bus_subscribers ?b')" "um_wf (bus_subscriptionTopics ?b')"
    by (simp_all add: f um_wf_set bus_wfD(1,2) [OF wf])
  show "0 < bus_nextSubscriptionId ?b'" using bus_wfD(5) [OF wf] lt by (simp add: f)
  have "distinct (map fst (bus_subs b t @ [(?n, cb)]))"
    using bus_subs_distinct [OF wf, of t] fresh_id [OF wf, of t] by simp
  then show "um_find (bus_subscribers ?b') t' = Some ss \<Longrightarrow> t' \<noteq> '''' \<and> ss \<noteq> [] \<and> distinct (map fst ss)" for t' ss
    using t bus_wfD(3) [OF wf, of t' ss] by (auto simp: f um_find_set split: if_splits)
  show "um_find (bus_subscriptionTopics ?b') i = Some t' \<longleftrightarrow> i \<in> fst ` set (bus_subs ?b' t')" for i t'
    using bus_subs_topic [OF wf, of i t'] fresh_id [OF wf, of t']
    by (auto simp: f um_find_set subscribe_subs [OF t])
  show "um_find (bus_subscriptionTopics ?b') i = Some t' \<Longrightarrow> 0 < i \<and> i < bus_nextSubscriptionId ?b'" for i t'
    using bus_wfD(4) [OF wf, of i t'] bus_wfD(5) [OF wf] lt
    by (auto simp: f um_find_set intro: less_trans split: if_splits)
qed

lemma unsubscribe_unknown:
  "um_find (bus_subscriptionTopics b) i = None \<Longrightarrow> unsubscribe i b = (False, b)"
  by (simp add: unsubscribe_def)

lemma unsubscribe_known:
  assumes "bus_wf b" and "um_find (bus_subscriptionTopics b) i = Some t"
  shows "unsubscribe i b =
    (True, b\<lparr>bus_subscribers :=
               (if filter (\<lambda>s. fst s \<noteq> i) (bus_subs b t) = [] then um_erase t (bus_subscribers b)
                else um_set t (filter (\<lambda>s. fst s \<noteq> i) (bus_subs b t)) (bus_subscribers b)),
             bus_subscriptionTopics := um_erase i (bus_subscriptionTopics b)\<rparr>)"
proof -
  have mem: "i \<in> fst ` set (bus_subs b t)" using assms bus_subs_topic by blast
  then have find: "um_find (bus_subscribers b) t = Some (bus_subs b t)"
    by (auto intro: bus_subs_Some)
  have "length (filter (\<lambda>s. fst s \<noteq> i) (bus_subs b t)) < length (bus_subs b t)"
    using mem by (auto intro: length_filter_less)
  with assms(2) find show ?thesis by (simp add: unsubscribe_def Let_def)
qed

lemma filter_absent: "i \<notin> fst ` set ss \<Longrightarrow> filter (\<lambda>s. fst s \<noteq> i) ss = ss"
  by (auto simp: filter_id_conv)

lemma unsubscribe_subs:
  assumes wf: "bus_wf b"
  shows "bus_subs (snd (unsubscribe i b)) t = filter (\<lambda>s. fst s \<noteq> i) (bus_subs b t)"
proof (cases "um_find (bus_subscriptionTopics b) i")
  case None
  then have "i \<notin> fst ` set (bus_subs b t)" using bus_subs_topic [OF wf, of i t] by simp
  with None show ?thesis by (simp add: unsubscribe_unknown filter_absent)
next
  case (Some t0)
  show ?thesis
  proof (cases "t = t0")
    case True
    with Some show ?thesis
      by (simp add: unsubscribe_known [OF wf Some] bus_subs_def edgelink_simps)
  next
    case False
    then have "i \<notin> fst ` set (bus_subs b t)" using bus_subs_topic [OF wf, of i t] Some by simp
    with False show ?thesis
      by (simp add: unsubscribe_known [OF wf Some] filter_absent) (simp add: bus_subs_def edgelink_simps)
  qed
qed

lemma unsubscribe_topics:
  assumes "bus_wf b"
  shows "um_find (bus_subscriptionTopics (snd (unsubscribe i b))) j =
    (if j = i then None else um_find (bus_subscriptionTopics b) j)"
  using assms
  by (cases "um_find (bus_subscriptionTopics b) i")
    (auto simp: unsubscribe_unknown unsubscribe_known edgelink_simps)

lemma bus_wf_unsubscribe:
  assumes wf: "bus_wf b" shows "bus_wf (snd (unsubscribe i b))"
proof (cases "um_find (bus_subscriptionTopics b) i")
  case None
  with wf show ?thesis by (simp add: unsubscribe_unknown)
next
  case (Some t0)
  let ?b' = "snd (unsubscribe i b)"
  note u = unsubscribe_known [OF wf Some]
  have next': "bus_nextSubscriptionId ?b' = bus_nextSubscriptionId b" by (simp add: u)
  have "i \<in> fst ` set (bus_subs b t0)" using Some bus_subs_topic [OF wf] by simp
  then have t0: "um_find (bus_subscribers b) t0 = Some (bus_subs b t0)" by (auto intro: bus_subs_Some)
  show ?thesis
  proof (rule bus_wfI)
    show "um_wf (bus_subscribers ?b')" "um_wf (bus_subscriptionTopics ?b')"
      by (simp_all add: u um_wf_set um_wf_erase bus_wfD(1,2) [OF wf])
    show "0 < bus_nextSubscriptionId ?b'" using bus_wfD(5) [OF wf] by (simp add: next')
    show "um_find (bus_subscribers ?b') t = Some ss \<Longrightarrow> t \<noteq> '''' \<and> ss \<noteq> [] \<and> distinct (map fst ss)" for t ss
      using bus_wfD(3) [OF wf, of t ss] bus_wfD(3) [OF wf t0]
      by (auto simp: u um_find_set um_find_erase distinct_map_filter split: if_splits)
    show "um_find (bus_subscriptionTopics ?b') j = Some t \<longleftrightarrow> j \<in> fst ` set (bus_subs ?b' t)" for j t
      using bus_subs_topic [OF wf, of j t]
      by (auto simp: unsubscribe_topics [OF wf] unsubscribe_subs [OF wf])
    show "um_find (bus_subscriptionTopics ?b') j = Some t \<Longrightarrow> 0 < j \<and> j < bus_nextSubscriptionId ?b'" for j t
      using bus_wfD(4) [OF wf, of j t] by (simp add: next' unsubscribe_topics [OF wf] split: if_splits)
  qed
qed

lemma unsubscribe_result:
  assumes "bus_wf b"
  shows "fst (unsubscribe i b) \<longleftrightarrow> (\<exists>t. i \<in> fst ` set (bus_subs b t))"
proof (cases "um_find (bus_subscriptionTopics b) i")
  case None
  then show ?thesis using bus_subs_topic [OF assms, of i] by (simp add: unsubscribe_unknown)
next
  case (Some t)
  then show ?thesis using bus_subs_topic [OF assms, of i t] by (auto simp: unsubscribe_known [OF assms Some])
qed

subsection \<open>The interface its clients rely on\<close>

text \<open>
  Publish/subscribe as the services see it: \<open>subs\<close> is the ordered list of subscriptions of a topic,
  \<open>room\<close> says that an id is left. \<open>StorageService\<close> and \<open>MqttService\<close> attach with \<open>sub\<close> and detach with
  \<open>unsub\<close>.
\<close>

locale pubsub =
  fixes sub :: "string \<Rightarrow> 'cb option \<Rightarrow> 'b \<Rightarrow> subscription_id \<times> 'b"
    and unsub :: "subscription_id \<Rightarrow> 'b \<Rightarrow> bool \<times> 'b"
    and subs :: "'b \<Rightarrow> string \<Rightarrow> (subscription_id \<times> 'cb) list"
    and invar :: "'b \<Rightarrow> bool" and room :: "'b \<Rightarrow> bool"
  assumes sub_refused: "t = '''' \<or> c = None \<Longrightarrow> sub t c b = (0, b)"
    and sub_fresh: "invar b \<Longrightarrow> t \<noteq> '''' \<Longrightarrow> fst (sub t (Some cb) b) \<notin> fst ` set (subs b t')"
    and sub_nonzero: "invar b \<Longrightarrow> t \<noteq> '''' \<Longrightarrow> fst (sub t (Some cb) b) \<noteq> 0"
    and sub_subs: "t \<noteq> '''' \<Longrightarrow> subs (snd (sub t (Some cb) b)) t' =
          (if t' = t then subs b t @ [(fst (sub t (Some cb) b), cb)] else subs b t')"
    and sub_invar: "invar b \<Longrightarrow> room b \<Longrightarrow> t \<noteq> '''' \<Longrightarrow> invar (snd (sub t (Some cb) b))"
    and unsub_result: "invar b \<Longrightarrow> fst (unsub i b) \<longleftrightarrow> (\<exists>t. i \<in> fst ` set (subs b t))"
    and unsub_subs: "invar b \<Longrightarrow> subs (snd (unsub i b)) t = filter (\<lambda>s. fst s \<noteq> i) (subs b t)"
    and unsub_invar: "invar b \<Longrightarrow> invar (snd (unsub i b))"
begin

lemma attach_detach:
  assumes "invar b" "room b" "t \<noteq> ''''"
  shows "fst (unsub (fst (sub t (Some cb) b)) (snd (sub t (Some cb) b)))"
    and "subs (snd (unsub (fst (sub t (Some cb) b)) (snd (sub t (Some cb) b)))) t' = subs b t'"
proof -
  have inv: "invar (snd (sub t (Some cb) b))" using assms by (rule sub_invar)
  show "fst (unsub (fst (sub t (Some cb) b)) (snd (sub t (Some cb) b)))"
    unfolding unsub_result [OF inv] sub_subs [OF assms(3)] by (rule exI [of _ t]) simp
  have "filter (\<lambda>s. fst s \<noteq> fst (sub t (Some cb) b)) (subs b t') = subs b t'" for t'
    using sub_fresh [OF assms(1,3), of cb t'] by (rule filter_absent)
  then show "subs (snd (unsub (fst (sub t (Some cb) b)) (snd (sub t (Some cb) b)))) t' = subs b t'"
    by (simp add: unsub_subs [OF inv] sub_subs [OF assms(3)])
qed

lemma unsub_twice: "invar b \<Longrightarrow> \<not> fst (unsub i (snd (unsub i b)))"
  by (auto simp: unsub_result [OF unsub_invar] unsub_subs)

lemma unsub_others:
  "invar b \<Longrightarrow> (j, cb) \<in> set (subs b t) \<Longrightarrow> j \<noteq> i \<Longrightarrow> (j, cb) \<in> set (subs (snd (unsub i b)) t)"
  by (simp add: unsub_subs)

end

interpretation mb: pubsub subscribe unsubscribe bus_subs bus_wf "\<lambda>b. bus_nextSubscriptionId b \<noteq> - 1"
proof unfold_locales
  show "bus_wf b \<Longrightarrow> t \<noteq> '''' \<Longrightarrow> fst (subscribe t (Some cb) b) \<noteq> 0" for b :: "'a bus" and t cb
    using bus_wfD(5) [of b] by (simp add: subscribe_fields)
qed (simp_all add: subscribe_refused subscribe_fields fresh_id subscribe_subs bus_wf_subscribe
      unsubscribe_result unsubscribe_subs bus_wf_unsubscribe)

text \<open>
  Unsubscribing the id a subscription returned succeeds and restores the subscriber list of every topic;
  the id is never 0 and unsubscribing it a second time fails.
\<close>

theorem subscribe_unsubscribe:
  assumes "bus_wf b" and "bus_nextSubscriptionId b \<noteq> - 1" and "t \<noteq> ''''"
    and "subscribe t (Some cb) b = (i, b1)" and "unsubscribe i b1 = (ok, b2)"
  shows "i \<noteq> 0 \<and> bus_subs b1 t = bus_subs b t @ [(i, cb)] \<and> ok \<and> bus_subs b2 = bus_subs b \<and>
    bus_wf b2 \<and> \<not> fst (unsubscribe i b2)"
proof -
  have i: "i = fst (subscribe t (Some cb) b)" and b1: "b1 = snd (subscribe t (Some cb) b)"
    and ok: "ok = fst (unsubscribe i b1)" and b2: "b2 = snd (unsubscribe i b1)"
    using assms(4,5) by simp_all
  have "bus_wf b1" unfolding b1 using assms(1-3) by (rule bus_wf_subscribe)
  moreover have "i \<noteq> 0" unfolding i using assms(1,3) by (rule mb.sub_nonzero)
  moreover have "ok" "bus_subs b2 = bus_subs b"
    unfolding ok b2 i b1 using mb.attach_detach [OF assms(1-3)] by (simp_all add: fun_eq_iff)
  moreover have "bus_subs b1 t = bus_subs b t @ [(i, cb)]"
    unfolding b1 i by (simp add: mb.sub_subs [OF assms(3)])
  ultimately show ?thesis
    unfolding b2 using bus_wf_unsubscribe mb.unsub_twice by blast
qed

theorem subscribe_unsubscribe_witness:
  "let (i, b1) = subscribe ''t'' (Some (7::nat)) empty_bus; (ok, b2) = unsubscribe i b1
   in i \<noteq> 0 \<and> bus_subs b1 ''t'' = [(i, 7)] \<and> ok \<and> bus_subs b2 = bus_subs empty_bus \<and> \<not> fst (unsubscribe i b2)"
proof -
  have n: "bus_nextSubscriptionId (empty_bus :: nat bus) \<noteq> - 1" by (simp add: empty_bus_def)
  obtain i b1 where s: "subscribe ''t'' (Some (7::nat)) empty_bus = (i, b1)" by fastforce
  obtain ok b2 where u: "unsubscribe i b1 = (ok, b2)" by fastforce
  show ?thesis
    using subscribe_unsubscribe [OF bus_wf_empty n _ s u]
    by (simp add: s u) (simp add: bus_subs_def empty_bus_def)
qed

subsection \<open>Delivery\<close>

lemma deliver_trace:
  "deliver (\<lambda>cb m (w, b). (ok cb m, w @ [cb], env cb m b)) m ss n (w, b) =
     (n + length (filter (\<lambda>s. ok (snd s) m) ss), w @ map snd ss, fold (\<lambda>s. env (snd s) m) ss b)"
  by (induction ss arbitrary: n w b) simp_all

text \<open>
  \<open>publish\<close> runs the callbacks subscribed to the topic when it was called, each exactly once and in
  subscription order, whatever the callbacks do to the bus meanwhile and whichever of them throw; it returns
  how many returned normally. (The world records the callbacks that were run; \<open>ok\<close> and \<open>env\<close> are their
  outcome and their effect on the bus.)
\<close>

theorem publish_snapshot:
  assumes "msg_topic m \<noteq> ''''"
  shows "publish (\<lambda>cb m (w, b). (ok cb m, w @ [cb], env cb m b)) m (w, b) =
    (length (filter (\<lambda>s. ok (snd s) m) (bus_subs b (msg_topic m))),
     w @ map snd (bus_subs b (msg_topic m)),
     fold (\<lambda>s. env (snd s) m) (bus_subs b (msg_topic m)) b)"
  using assms by (simp add: publish_def bus_subs_def deliver_trace split: option.splits)

theorem publish_snapshot_witness:
  "publish (\<lambda>cb m (w, b). (cb \<noteq> (2::nat), w @ [cb], clear_bus b)) (default_message\<lparr>msg_topic := ''t''\<rparr>)
     ([], \<lparr>bus_nextSubscriptionId = 4, bus_subscribers = [(''t'', [(1, 1), (2, 2), (3, 3)])],
            bus_subscriptionTopics = [(1, ''t''), (2, ''t''), (3, ''t'')]\<rparr>) =
   (2, [1, 2, 3], \<lparr>bus_nextSubscriptionId = 4, bus_subscribers = [], bus_subscriptionTopics = []\<rparr>)"
  using publish_snapshot [of "default_message\<lparr>msg_topic := ''t''\<rparr>" "\<lambda>cb m. cb \<noteq> (2::nat)"
      "\<lambda>cb m. clear_bus"]
  by (simp add: bus_subs_def clear_bus_def)

lemma bus_wf_deliver:
  assumes "\<And>cb s. bus_wf (snd s) \<Longrightarrow> bus_wf (snd (snd (run cb m s)))" and "bus_wf (snd s)"
  shows "bus_wf (snd (snd (deliver run m ss n s)))"
  using assms(2)
proof (induction ss arbitrary: n s)
  case (Cons x ss)
  have "bus_wf (snd (snd (run (snd x) m s)))" using Cons.prems by (rule assms(1))
  then show ?case by (auto simp: case_prod_beta Let_def intro: Cons.IH)
qed simp

lemma bus_wf_publish:
  assumes "\<And>cb s. bus_wf (snd s) \<Longrightarrow> bus_wf (snd (snd (run cb m s)))" and "bus_wf (snd s)"
  shows "bus_wf (snd (snd (publish run m s)))"
  using assms by (auto simp: publish_def intro!: bus_wf_deliver split: option.splits)

end
