(* ===== verification/Bus_Threads.thy ===== *)
theory Bus_Threads
  imports Message_Bus
begin

section \<open>The message bus under several threads\<close>

text \<open>
  \<open>src/message_bus.cpp\<close> with threads. The mutex makes \<open>subscribe\<close>, \<open>unsubscribe\<close>, \<open>clear\<close> and the copy that
  \<open>publish\<close> takes of the subscriber list atomic; the callbacks are called without the mutex, so anything can happen between
  two of them, in other threads or in the callback itself. A world is the bus and the calls of \<open>publish\<close>, finished ones
  included.
\<close>

subsection \<open>The sections of \<open>publish\<close>\<close>

text \<open>The copy under the mutex.\<close>

definition publish_copy :: "message \<Rightarrow> 'cb bus \<Rightarrow> 'cb subscription list" where
  "publish_copy m b =
     (if msg_topic m = '''' then []
      else (case um_find (bus_subscribers b) (msg_topic m) of None \<Rightarrow> [] | Some subscriptions \<Rightarrow> subscriptions))"

text \<open>
  A call of \<open>publish\<close>: the subscriptions still to be called and \<open>deliveredCount\<close>; ghosts: the copy, which callbacks ran
  and whether they returned, and the id counter and the removed ids when the copy was taken.
\<close>

record 'cb publisher =
  pb_message :: message
  pb_rest :: "'cb subscription list"
  pb_deliveredCount :: nat
  pb_copy :: "'cb subscription list"
  pb_called :: "(subscription_id \<times> bool) list"
  pb_next :: subscription_id
  pb_removed :: "subscription_id list"

record 'cb bus_world =
  bw_bus :: "'cb bus"
  bw_publishers :: "'cb publisher list"
  bw_removed :: "subscription_id list"

definition publish_begin :: "message \<Rightarrow> 'cb bus_world \<Rightarrow> 'cb publisher" where
  "publish_begin m w =
     (let copy = publish_copy m (bw_bus w)
      in \<lparr>pb_message = m, pb_rest = copy, pb_deliveredCount = 0, pb_copy = copy, pb_called = [],
          pb_next = bus_nextSubscriptionId (bw_bus w), pb_removed = bw_removed w\<rparr>)"

text \<open>One round of the delivery loop; \<open>returned\<close> is false when the callback throws.\<close>

definition publish_round :: "bool \<Rightarrow> 'cb publisher \<Rightarrow> 'cb publisher option" where
  "publish_round returned p =
     (case pb_rest p of
        [] \<Rightarrow> None
      | subscription # rest \<Rightarrow>
          Some (p\<lparr>pb_rest := rest, pb_called := pb_called p @ [(fst subscription, returned)],
            pb_deliveredCount := (if returned then pb_deliveredCount p + 1 else pb_deliveredCount p)\<rparr>))"

text \<open>Without other threads the rounds are the loop \<open>deliver\<close> of \<open>Message_Bus\<close>.\<close>

lemma deliver_rounds:
  assumes "pb_rest p = s # rest" and "run (snd s) m w = (returned, w')"
  shows "\<exists>p'. publish_round returned p = Some p' \<and>
    deliver run m (pb_rest p) (pb_deliveredCount p) w = deliver run m (pb_rest p') (pb_deliveredCount p') w'"
  using assms by (simp add: publish_round_def)

subsection \<open>Interleavings\<close>

inductive bus_step :: "'cb bus_world \<Rightarrow> 'cb bus_world \<Rightarrow> bool" where
  step_subscribe: "bus_nextSubscriptionId (bw_bus w) \<noteq> - 1 \<Longrightarrow>
     bus_step w (w\<lparr>bw_bus := snd (subscribe t c (bw_bus w))\<rparr>)"
| step_unsubscribe: "unsubscribe i (bw_bus w) = (ok, b') \<Longrightarrow>
     bus_step w (w\<lparr>bw_bus := b', bw_removed := (if ok then i # bw_removed w else bw_removed w)\<rparr>)"
| step_clear: "bus_step w (w\<lparr>bw_bus := clear_bus (bw_bus w),
     bw_removed := um_keys (bus_subscriptionTopics (bw_bus w)) @ bw_removed w\<rparr>)"
| step_publish: "bus_step w (w\<lparr>bw_publishers := bw_publishers w @ [publish_begin m w]\<rparr>)"
| step_round: "k < length (bw_publishers w) \<Longrightarrow> publish_round returned (bw_publishers w ! k) = Some p \<Longrightarrow>
     bus_step w (w\<lparr>bw_publishers := (bw_publishers w)[k := p]\<rparr>)"

inductive bus_reach :: "'cb bus_world \<Rightarrow> 'cb bus_world \<Rightarrow> bool" for w0 where
  bus_reach_init: "bus_reach w0 w0"
| bus_reach_next: "bus_reach w0 w \<Longrightarrow> bus_step w w' \<Longrightarrow> bus_reach w0 w'"

subsection \<open>Invariant\<close>

text \<open>What is known of one call of \<open>publish\<close>.\<close>

definition publisher_ok :: "'cb bus \<Rightarrow> 'cb publisher \<Rightarrow> bool" where
  "publisher_ok b p \<longleftrightarrow>
     map fst (pb_called p) @ map fst (pb_rest p) = map fst (pb_copy p) \<and> distinct (map fst (pb_copy p)) \<and>
     pb_deliveredCount p = length (filter snd (pb_called p)) \<and>
     set (pb_removed p) \<inter> fst ` set (pb_copy p) = {} \<and> pb_next p \<le> bus_nextSubscriptionId b \<and>
     (\<forall>s \<in> set (bus_subs b (msg_topic (pb_message p))). fst s < pb_next p \<longrightarrow> s \<in> set (pb_copy p))"

definition bus_world_inv :: "'cb bus_world \<Rightarrow> bool" where
  "bus_world_inv w \<longleftrightarrow> bus_wf (bw_bus w) \<and>
     (\<forall>i \<in> set (bw_removed w). i < bus_nextSubscriptionId (bw_bus w) \<and> (\<forall>t. i \<notin> fst ` set (bus_subs (bw_bus w) t))) \<and>
     list_all (publisher_ok (bw_bus w)) (bw_publishers w)"

lemma publish_copy_subs: "bus_wf b \<Longrightarrow> publish_copy m b = bus_subs b (msg_topic m)"
  by (auto simp: publish_copy_def bus_subs_def dest: bus_wfD(3) split: option.splits)

text \<open>The bus changed: subscriptions are gone, or new ones have ids from the counter on.\<close>

lemma publisher_ok_bus:
  assumes ok: "publisher_ok b p" and n: "bus_nextSubscriptionId b \<le> bus_nextSubscriptionId b'"
    and s: "\<And>t s. s \<in> set (bus_subs b' t) \<Longrightarrow> s \<in> set (bus_subs b t) \<or> bus_nextSubscriptionId b \<le> fst s"
  shows "publisher_ok b' p"
proof -
  have le: "pb_next p \<le> bus_nextSubscriptionId b" using ok by (simp add: publisher_ok_def)
  have "x \<in> set (pb_copy p)" if x: "x \<in> set (bus_subs b' (msg_topic (pb_message p)))" "fst x < pb_next p" for x
  proof -
    have "\<not> bus_nextSubscriptionId b \<le> fst x" using le x(2) by (metis leD order_trans)
    then have "x \<in> set (bus_subs b (msg_topic (pb_message p)))" using s [OF x(1)] by blast
    then show ?thesis using ok x(2) by (simp add: publisher_ok_def)
  qed
  then show ?thesis using ok order_trans [OF le n] by (simp add: publisher_ok_def)
qed

lemma bus_world_inv_bus:
  assumes inv: "bus_world_inv w" and wf: "bus_wf b'"
    and n: "bus_nextSubscriptionId (bw_bus w) \<le> bus_nextSubscriptionId b'"
    and s: "\<And>t s. s \<in> set (bus_subs b' t) \<Longrightarrow> s \<in> set (bus_subs (bw_bus w) t) \<or> bus_nextSubscriptionId (bw_bus w) \<le> fst s"
    and r: "\<And>i. i \<in> set removed \<Longrightarrow> i \<in> set (bw_removed w) \<or> i < bus_nextSubscriptionId b' \<and> (\<forall>t. i \<notin> fst ` set (bus_subs b' t))"
  shows "bus_world_inv (w\<lparr>bw_bus := b', bw_removed := removed\<rparr>)"
proof -
  have old: "i < bus_nextSubscriptionId (bw_bus w)" "i \<notin> fst ` set (bus_subs (bw_bus w) t)" if "i \<in> set (bw_removed w)" for i t
    using inv that by (simp_all add: bus_world_inv_def)
  have "i < bus_nextSubscriptionId b'" if "i \<in> set (bw_removed w)" for i
    using old(1) [OF that] n by (rule less_le_trans)
  moreover have "i \<notin> fst ` set (bus_subs b' t)" if i: "i \<in> set (bw_removed w)" for i t
  proof
    assume "i \<in> fst ` set (bus_subs b' t)"
    then obtain x where x: "x \<in> set (bus_subs b' t)" "i = fst x" by blast
    show False using s [OF x(1)]
    proof
      assume "x \<in> set (bus_subs (bw_bus w) t)"
      then show False using old(2) [OF i, of t] x(2) by blast
    next
      assume "bus_nextSubscriptionId (bw_bus w) \<le> fst x"
      then show False using old(1) [OF i] x(2) by (simp add: leD)
    qed
  qed
  ultimately have "\<forall>i \<in> set removed. i < bus_nextSubscriptionId b' \<and> (\<forall>t. i \<notin> fst ` set (bus_subs b' t))"
    using r by blast
  moreover have "list_all (publisher_ok b') (bw_publishers w)"
    using inv publisher_ok_bus [OF _ n s] by (simp add: bus_world_inv_def list_all_iff)
  ultimately show ?thesis using wf by (simp add: bus_world_inv_def)
qed

lemma bus_world_inv_subscribe:
  assumes inv: "bus_world_inv w" and n: "bus_nextSubscriptionId (bw_bus w) \<noteq> - 1"
  shows "bus_world_inv (w\<lparr>bw_bus := snd (subscribe t c (bw_bus w))\<rparr>)"
proof (cases "t = '''' \<or> c = None")
  case True
  then show ?thesis using inv by (simp add: subscribe_refused)
next
  case False
  then obtain cb where c: "c = Some cb" "t \<noteq> ''''" by auto
  have wf: "bus_wf (bw_bus w)" using inv by (simp add: bus_world_inv_def)
  have lt: "bus_nextSubscriptionId (bw_bus w) \<le> bus_nextSubscriptionId (bw_bus w) + 1"
    using word_less_Suc [OF n] by (rule less_imp_le)
  have "bus_world_inv (w\<lparr>bw_bus := snd (subscribe t c (bw_bus w)), bw_removed := bw_removed w\<rparr>)"
    using bus_wf_subscribe [OF wf n c(2)] lt c
    by (intro bus_world_inv_bus [OF inv]) (auto simp: subscribe_subs subscribe_fields split: if_splits)
  then show ?thesis by simp
qed

lemma bus_world_inv_unsubscribe:
  assumes inv: "bus_world_inv w" and u: "unsubscribe i (bw_bus w) = (ok, b')"
  shows "bus_world_inv (w\<lparr>bw_bus := b', bw_removed := (if ok then i # bw_removed w else bw_removed w)\<rparr>)"
proof -
  have wf: "bus_wf (bw_bus w)" using inv by (simp add: bus_world_inv_def)
  have b': "b' = snd (unsubscribe i (bw_bus w))" "ok = fst (unsubscribe i (bw_bus w))" by (simp_all add: u)
  have n: "bus_nextSubscriptionId b' = bus_nextSubscriptionId (bw_bus w)"
    using b'(1) by (auto simp: unsubscribe_def Let_def split: option.splits)
  have "i < bus_nextSubscriptionId (bw_bus w)" if ok
    using that b'(2) unsubscribe_result [OF wf, of i] bus_subs_topic [OF wf, of i] bus_wfD(4) [OF wf, of i] by auto
  moreover have "bus_wf b'" using bus_wf_unsubscribe [OF wf, of i] b'(1) by simp
  moreover have "bus_subs b' t = filter (\<lambda>s. fst s \<noteq> i) (bus_subs (bw_bus w) t)" for t
    using unsubscribe_subs [OF wf, of i t] b'(1) by simp
  ultimately show ?thesis by (intro bus_world_inv_bus [OF inv]) (auto simp: n split: if_splits)
qed

lemma bus_world_inv_clear:
  assumes inv: "bus_world_inv w"
  shows "bus_world_inv (w\<lparr>bw_bus := clear_bus (bw_bus w),
    bw_removed := um_keys (bus_subscriptionTopics (bw_bus w)) @ bw_removed w\<rparr>)"
proof -
  have wf: "bus_wf (bw_bus w)" using inv by (simp add: bus_world_inv_def)
  have "i < bus_nextSubscriptionId (bw_bus w)" if "i \<in> set (um_keys (bus_subscriptionTopics (bw_bus w)))" for i
    using that bus_wfD(4) [OF wf, of i] unfolding um_keys_dom by auto
  then show ?thesis
    using bus_wf_clear [OF wf] by (intro bus_world_inv_bus [OF inv]) (auto simp: clear_bus_def bus_subs_def)
qed

lemma bus_world_inv_publish:
  assumes inv: "bus_world_inv w"
  shows "bus_world_inv (w\<lparr>bw_publishers := bw_publishers w @ [publish_begin m w]\<rparr>)"
proof -
  have wf: "bus_wf (bw_bus w)" using inv by (simp add: bus_world_inv_def)
  have "publisher_ok (bw_bus w) (publish_begin m w)"
    using inv bus_subs_distinct [OF wf]
    by (auto simp: publisher_ok_def publish_begin_def Let_def publish_copy_subs [OF wf] bus_world_inv_def)
  then show ?thesis using inv by (simp add: bus_world_inv_def)
qed

lemma publisher_ok_round:
  assumes "publisher_ok b p" and "publish_round returned p = Some p'" shows "publisher_ok b p'"
proof (cases "pb_rest p")
  case (Cons s rest)
  then show ?thesis using assms unfolding publisher_ok_def publish_round_def by clarsimp
qed (use assms in \<open>simp add: publish_round_def\<close>)

lemma bus_world_inv_step: "bus_step w w' \<Longrightarrow> bus_world_inv w \<Longrightarrow> bus_world_inv w'"
proof (induction rule: bus_step.induct)
  case (step_round k w returned p)
  then have "publisher_ok (bw_bus w) p"
    using publisher_ok_round [of "bw_bus w" "bw_publishers w ! k" returned p] by (simp add: bus_world_inv_def list_all_length)
  then show ?case using step_round by (auto simp: bus_world_inv_def list_all_length nth_list_update)
qed (simp_all add: bus_world_inv_subscribe bus_world_inv_unsubscribe bus_world_inv_clear bus_world_inv_publish)

lemma bus_world_inv_reach: "bus_reach w0 w \<Longrightarrow> bus_world_inv w0 \<Longrightarrow> bus_world_inv w"
  by (induction rule: bus_reach.induct) (auto intro: bus_world_inv_step)

text \<open>\<open>publish\<close> is the copy and then the rounds.\<close>

lemma publish_sections: "publish run m s = deliver run m (publish_copy m (snd s)) 0 s"
  by (simp add: publish_def publish_copy_def split: option.splits)

subsection \<open>What every interleaving delivers\<close>

text \<open>The callbacks a call ran, by their ids, and whether the call is over.\<close>

definition publish_ran :: "'cb publisher \<Rightarrow> subscription_id list" where
  "publish_ran p = map fst (pb_called p)"

lemma publish_progress: "pb_rest p \<noteq> [] \<Longrightarrow> \<exists>p'. publish_round returned p = Some p' \<and> length (pb_rest p') < length (pb_rest p)"
  by (cases "pb_rest p") (auto simp: publish_round_def)

text \<open>
  C15. In every interleaving of calls of \<open>subscribe\<close>, \<open>unsubscribe\<close>, \<open>clear\<close> and \<open>publish\<close>, a call of \<open>publish\<close> runs no
  callback twice, runs none that was removed before the copy of the list was taken, and counts the ones that returned.
  When its loop is over, it has run every subscription of the topic that is older than the copy and is still on the bus.
\<close>

theorem bus_threads_deliver:
  assumes "bus_wf b" and "bus_reach \<lparr>bw_bus = b, bw_publishers = [], bw_removed = []\<rparr> w" and "p \<in> set (bw_publishers w)"
  shows "distinct (publish_ran p) \<and> set (publish_ran p) \<inter> set (pb_removed p) = {} \<and>
    pb_deliveredCount p = length (filter snd (pb_called p)) \<and>
    (pb_rest p = [] \<longrightarrow>
      (\<forall>s \<in> set (bus_subs (bw_bus w) (msg_topic (pb_message p))). fst s < pb_next p \<longrightarrow> fst s \<in> set (publish_ran p)))"
proof -
  have "bus_world_inv \<lparr>bw_bus = b, bw_publishers = [], bw_removed = []\<rparr>"
    using assms(1) by (simp add: bus_world_inv_def)
  from bus_world_inv_reach [OF assms(2) this] have ok: "publisher_ok (bw_bus w) p"
    using assms(3) by (simp add: bus_world_inv_def list_all_iff)
  then have ids: "publish_ran p @ map fst (pb_rest p) = map fst (pb_copy p)" "distinct (map fst (pb_copy p))"
    by (simp_all add: publisher_ok_def publish_ran_def)
  have sub: "set (publish_ran p) \<subseteq> fst ` set (pb_copy p)" and eq: "pb_rest p = [] \<Longrightarrow> set (publish_ran p) = fst ` set (pb_copy p)"
    using arg_cong [OF ids(1), of set] by auto
  have "fst s \<in> set (publish_ran p)"
    if "pb_rest p = []" "s \<in> set (bus_subs (bw_bus w) (msg_topic (pb_message p)))" "fst s < pb_next p" for s
    using ok that(2,3) unfolding eq [OF that(1)] publisher_ok_def by blast
  moreover have "distinct (publish_ran p)" using ids(2) unfolding ids(1) [symmetric] by simp
  moreover have "set (publish_ran p) \<inter> set (pb_removed p) = {}" "pb_deliveredCount p = length (filter snd (pb_called p))"
    using ok sub unfolding publisher_ok_def by blast+
  ultimately show ?thesis by blast
qed

subsection \<open>An example\<close>

text \<open>
  Two callbacks are subscribed and a call of \<open>publish\<close> has taken its copy when the first subscription is removed; the call
  then runs both callbacks, the first one after \<open>unsubscribe\<close> has returned.
\<close>

definition demo_topic :: message where
  "demo_topic = default_message\<lparr>msg_topic := ''t''\<rparr>"

definition demo_bus :: "nat bus" where
  "demo_bus = snd (subscribe ''t'' (Some 8) (snd (subscribe ''t'' (Some 7) empty_bus)))"

definition demo_world :: "nat subscription list \<Rightarrow> nat \<Rightarrow> (subscription_id \<times> bool) list \<Rightarrow> nat bus_world" where
  "demo_world rest n called =
     \<lparr>bw_bus = snd (unsubscribe 1 demo_bus),
      bw_publishers = [\<lparr>pb_message = demo_topic, pb_rest = rest, pb_deliveredCount = n, pb_copy = [(1, 7), (2, 8)],
        pb_called = called, pb_next = 3, pb_removed = []\<rparr>],
      bw_removed = [1]\<rparr>"

lemma demo_removed_reach:
  "bus_reach \<lparr>bw_bus = empty_bus, bw_publishers = [], bw_removed = []\<rparr> (demo_world [(1, 7), (2, 8)] 0 [])"
proof -
  let ?w = "\<lambda>b ps. \<lparr>bw_bus = b, bw_publishers = ps, bw_removed = []\<rparr>"
  let ?b = "snd (subscribe ''t'' (Some 7) empty_bus)" and ?ps = "bw_publishers (demo_world [(1, 7), (2, 8)] 0 [])"
  note demo = demo_bus_def subscribe_def unsubscribe_def empty_bus_def demo_topic_def default_message_def Let_def
    publish_begin_def publish_copy_def demo_world_def edgelink_simps
  have s: "bus_step (?w empty_bus []) (?w ?b [])" "bus_step (?w ?b []) (?w demo_bus [])"
    using step_subscribe [of "?w empty_bus []" "''t''" "Some 7"] step_subscribe [of "?w ?b []" "''t''" "Some 8"]
    by (simp_all add: demo)
  have p: "bus_step (?w demo_bus []) (?w demo_bus ?ps)"
    using step_publish [of "?w demo_bus []" demo_topic] by (simp add: demo)
  have u: "bus_step (?w demo_bus ?ps) (demo_world [(1, 7), (2, 8)] 0 [])"
    using step_unsubscribe [of 1 "?w demo_bus ?ps" True "snd (unsubscribe 1 demo_bus)"] by (simp add: demo)
  note n = bus_reach_next
  show ?thesis by (rule n [OF n [OF n [OF n [OF bus_reach_init s(1)] s(2)] p] u])
qed

lemma demo_round:
  "bus_step (demo_world (s # rest) n called)
     (demo_world rest (if returned then n + 1 else n) (called @ [(fst s, returned)]))"
  using step_round [of 0 "demo_world (s # rest) n called" returned
      "hd (bw_publishers (demo_world rest (if returned then n + 1 else n) (called @ [(fst s, returned)])))"]
  by (simp add: publish_round_def demo_world_def)

abbreviation demo_late :: "nat bus_world" where
  "demo_late \<equiv> demo_world [] 1 [(1, False), (2, True)]"

lemma demo_late_reach: "bus_reach \<lparr>bw_bus = empty_bus, bw_publishers = [], bw_removed = []\<rparr> demo_late"
  using bus_reach_next [OF bus_reach_next [OF demo_removed_reach demo_round [where returned = False]] demo_round [where returned = True]]
  by simp

text \<open>A callback can be called after the \<open>unsubscribe\<close> that removed it has returned true.\<close>

lemma callback_after_unsubscribe:
  "\<exists>w w' :: nat bus_world. bus_reach \<lparr>bw_bus = empty_bus, bw_publishers = [], bw_removed = []\<rparr> w \<and> bus_step w w' \<and>
     1 \<in> set (bw_removed w) \<and> publish_ran (hd (bw_publishers w)) = [] \<and> publish_ran (hd (bw_publishers w')) = [1]"
  using demo_removed_reach demo_round [of "(1, 7)" "[(2, 8)]" 0 "[]" True]
  by (intro exI [of _ "demo_world [(1, 7), (2, 8)] 0 []"] exI [of _ "demo_world [(2, 8)] 1 [(1, True)]"])
    (simp add: demo_world_def publish_ran_def)

theorem bus_threads_deliver_witness:
  "\<exists>p. p \<in> set (bw_publishers demo_late) \<and> publish_ran p = [1, 2] \<and> pb_deliveredCount p = 1 \<and> distinct (publish_ran p) \<and>
     (\<forall>s \<in> set (bus_subs (bw_bus demo_late) ''t''). fst s < pb_next p \<longrightarrow> fst s \<in> set (publish_ran p))"
proof -
  let ?p = "hd (bw_publishers demo_late)"
  have "?p \<in> set (bw_publishers demo_late)" by (simp add: demo_world_def)
  from bus_threads_deliver [OF bus_wf_empty demo_late_reach this] show ?thesis
    by (intro exI [of _ ?p]) (simp add: demo_world_def publish_ran_def demo_topic_def default_message_def)
qed

end
