(* ===== verification/Ipc_Codec.thy ===== *)
theory Ipc_Codec
  imports Message_Bus
begin

section \<open>The binary message codec\<close>

text \<open>
  \<open>src/ipc_message_codec.cpp\<close>. A message is a 36-byte header (magic, version, type index, quality,
  timestamp, four lengths) followed by topic, device id, tag name and value bytes. Integers are copied as they lie
  in memory, little-endian on the supported targets. \<open>encode\<close> returns the bytes or \<open>None\<close> (C++ \<open>false\<close>, output
  untouched); \<open>decode\<close> returns its result and the out-parameter \<open>message\<close>, which the code writes field by field
  and so may leave partly overwritten when it fails.
\<close>

definition MessageMagic :: u32 where "MessageMagic = 0x454C4D53"
definition MessageVersion :: u16 where "MessageVersion = 1"

definition appendPod :: "bytes \<Rightarrow> 'a::len word \<Rightarrow> bytes" where
  "appendPod output value = output @ pod_bytes value"

definition readPod :: "bytes \<Rightarrow> nat \<Rightarrow> (nat \<times> 'a::len word) option" where
  "readPod input offset =
     (let size = LENGTH('a) div 8 in
      if offset > length input \<or> length input - offset < size then None
      else Some (offset + size, pod_value (take size (drop offset input))))"

definition readString :: "bytes \<Rightarrow> nat \<Rightarrow> u32 \<Rightarrow> (nat \<times> string) option" where
  "readString input offset len =
     (if offset > length input \<or> length input - offset < unat len then None
      else Some (offset + unat len, map char_of_byte (take (unat len) (drop offset input))))"

fun encodeValue :: "tag_value \<Rightarrow> bytes" where
  "encodeValue Val_Monostate = []"
| "encodeValue (Val_Bool b) = appendPod [] (if b then 1 else 0 :: 8 word)"
| "encodeValue (Val_Int8 w) = appendPod [] w"
| "encodeValue (Val_Int16 w) = appendPod [] w"
| "encodeValue (Val_Int32 w) = appendPod [] w"
| "encodeValue (Val_Int64 w) = appendPod [] w"
| "encodeValue (Val_UInt8 w) = appendPod [] w"
| "encodeValue (Val_UInt16 w) = appendPod [] w"
| "encodeValue (Val_UInt32 w) = appendPod [] w"
| "encodeValue (Val_UInt64 w) = appendPod [] w"
| "encodeValue (Val_Float w) = appendPod [] w"
| "encodeValue (Val_Double w) = appendPod [] w"
| "encodeValue (Val_String s) = map byte_of_char s"

definition decodeNumericValue :: "('a::len word \<Rightarrow> tag_value) \<Rightarrow> bytes \<Rightarrow> tag_value option" where
  "decodeNumericValue alternative input =
     (if length input \<noteq> LENGTH('a) div 8 then None else Some (alternative (pod_value input)))"

definition decodeValue :: "u16 \<Rightarrow> bytes \<Rightarrow> tag_value option" where
  "decodeValue typeIndex input =
     (let n = unat typeIndex in
      if n = 0 then (if input \<noteq> [] then None else Some Val_Monostate)
      else if n = 1 then
        (case input of [x] \<Rightarrow> if x > 1 then None else Some (Val_Bool (x \<noteq> 0)) | _ \<Rightarrow> None)
      else if n = 2 then decodeNumericValue Val_Int8 input
      else if n = 3 then decodeNumericValue Val_Int16 input
      else if n = 4 then decodeNumericValue Val_Int32 input
      else if n = 5 then decodeNumericValue Val_Int64 input
      else if n = 6 then decodeNumericValue Val_UInt8 input
      else if n = 7 then decodeNumericValue Val_UInt16 input
      else if n = 8 then decodeNumericValue Val_UInt32 input
      else if n = 9 then decodeNumericValue Val_UInt64 input
      else if n = 10 then decodeNumericValue Val_Float input
      else if n = 11 then decodeNumericValue Val_Double input
      else if n = 12 then Some (Val_String (map char_of_byte input))
      else None)"

definition maxLength :: nat where "maxLength = 2 ^ 32 - 1"

definition encode :: "message \<Rightarrow> bytes option" where
  "encode m =
     (if msg_topic m = '''' \<or> length (msg_topic m) > maxLength \<or> length (msg_deviceId m) > maxLength \<or>
         length (msg_tagName m) > maxLength \<or> quality_index (msg_quality m) > 4 then None
      else (let encodedValue = encodeValue (msg_value m) in
        if length encodedValue > maxLength then None
        else
         (let typeIndex = word_of_nat (value_index (msg_value m)) :: u16;
              q = word_of_nat (quality_index (msg_quality m)) :: u32;
              timestampNanoseconds = msg_timestamp m;
              topicLength = word_of_nat (length (msg_topic m)) :: u32;
              deviceIdLength = word_of_nat (length (msg_deviceId m)) :: u32;
              tagNameLength = word_of_nat (length (msg_tagName m)) :: u32;
              valueLength = word_of_nat (length encodedValue) :: u32;
              o1 = appendPod [] MessageMagic;
              o2 = appendPod o1 MessageVersion;
              o3 = appendPod o2 typeIndex;
              o4 = appendPod o3 q;
              o5 = appendPod o4 timestampNanoseconds;
              o6 = appendPod o5 topicLength;
              o7 = appendPod o6 deviceIdLength;
              o8 = appendPod o7 tagNameLength;
              o9 = appendPod o8 valueLength
          in Some (o9 @ map byte_of_char (msg_topic m) @ map byte_of_char (msg_deviceId m) @
                   map byte_of_char (msg_tagName m) @ encodedValue))))"

record ipc_header =
  ih_offset :: nat
  ih_magic :: u32
  ih_version :: u16
  ih_typeIndex :: u16
  ih_quality :: u32
  ih_timestamp :: u64
  ih_topicLength :: u32
  ih_deviceIdLength :: u32
  ih_tagNameLength :: u32
  ih_valueLength :: u32

text \<open>The nine leading \<open>readPod\<close> calls of \<open>decode\<close>.\<close>

definition readHeader :: "bytes \<Rightarrow> ipc_header option" where
  "readHeader input =
     do { (p1, magic) \<leftarrow> readPod input 0;
          (p2, version) \<leftarrow> readPod input p1;
          (p3, typeIndex) \<leftarrow> readPod input p2;
          (p4, q) \<leftarrow> readPod input p3;
          (p5, timestamp) \<leftarrow> readPod input p4;
          (p6, topicLength) \<leftarrow> readPod input p5;
          (p7, deviceIdLength) \<leftarrow> readPod input p6;
          (p8, tagNameLength) \<leftarrow> readPod input p7;
          (p9, valueLength) \<leftarrow> readPod input p8;
          Some \<lparr>ih_offset = p9, ih_magic = magic, ih_version = version, ih_typeIndex = typeIndex,
                ih_quality = q, ih_timestamp = timestamp, ih_topicLength = topicLength,
                ih_deviceIdLength = deviceIdLength, ih_tagNameLength = tagNameLength,
                ih_valueLength = valueLength\<rparr> }"

definition decode :: "bytes \<Rightarrow> message \<Rightarrow> bool \<times> message" where
  "decode input m =
     (case readHeader input of
        None \<Rightarrow> (False, m)
      | Some h \<Rightarrow>
          if ih_magic h \<noteq> MessageMagic \<or> ih_version h \<noteq> MessageVersion \<or> unat (ih_quality h) > 4
          then (False, m)
          else (case readString input (ih_offset h) (ih_topicLength h) of
            None \<Rightarrow> (False, m)
          | Some (p1, topic) \<Rightarrow>
          (let m1 = m\<lparr>msg_topic := topic\<rparr> in
           case readString input p1 (ih_deviceIdLength h) of
             None \<Rightarrow> (False, m1)
           | Some (p2, deviceId) \<Rightarrow>
           (let m2 = m1\<lparr>msg_deviceId := deviceId\<rparr> in
            case readString input p2 (ih_tagNameLength h) of
              None \<Rightarrow> (False, m2)
            | Some (p3, tagName) \<Rightarrow>
            (let m3 = m2\<lparr>msg_tagName := tagName\<rparr> in
             if msg_topic m3 = '''' \<or> p3 > length input \<or> length input - p3 \<noteq> unat (ih_valueLength h)
             then (False, m3)
             else (case decodeValue (ih_typeIndex h) (drop p3 input) of
                     None \<Rightarrow> (False, m3)
                   | Some v \<Rightarrow>
                       (True, m3\<lparr>msg_value := v, msg_quality := quality_of_index (unat (ih_quality h)),
                                 msg_timestamp := ih_timestamp h\<rparr>)))))))"

subsection \<open>Values\<close>

lemma one_byte_pod: "pod_bytes (w :: 8 word) = [w]"
  using unat_byte_lt [of w] by (simp add: pod_bytes_def)

lemma decodeNumericValue_pod:
  "8 dvd LENGTH('a::len) \<Longrightarrow> decodeNumericValue f (pod_bytes (w :: 'a word)) = Some (f w)"
  by (simp add: decodeNumericValue_def length_pod_bytes pod_value_pod_bytes)

lemma decodeNumericValue_Some:
  "8 dvd LENGTH('a::len) \<Longrightarrow> decodeNumericValue (f :: 'a word \<Rightarrow> tag_value) bs = Some v \<Longrightarrow>
     \<exists>w. v = f w \<and> pod_bytes w = bs"
  by (auto simp: decodeNumericValue_def pod_bytes_pod_value split: if_splits)

lemma unat_type_index: "unat (word_of_nat (value_index v) :: u16) = value_index v"
  by (rule unat_word_of_nat_small) (use value_index_le [of v] in simp)

lemmas decodeNumericValue_SomeD =
  decodeNumericValue_Some [where 'a = 8, simplified] decodeNumericValue_Some [where 'a = 16, simplified]
  decodeNumericValue_Some [where 'a = 32, simplified] decodeNumericValue_Some [where 'a = 64, simplified]

lemma decodeValue_encodeValue: "decodeValue (word_of_nat (value_index v)) (encodeValue v) = Some v"
proof (cases v)
  case (Val_Bool b)
  then show ?thesis
    unfolding decodeValue_def unat_type_index by (simp add: appendPod_def one_byte_pod)
qed (simp_all only: decodeValue_def unat_type_index,
     simp_all add: appendPod_def decodeNumericValue_pod)

lemma decodeValue_canonical:
  assumes "decodeValue t bs = Some v"
  shows "value_index v = unat t \<and> encodeValue v = bs"
proof -
  have byte: "x = 0 \<or> x = 1" if "\<not> 1 < x" for x :: byte
    using that by unat_arith
  show ?thesis
  proof (cases "unat t = 1")
    case True
    with assms show ?thesis
      unfolding decodeValue_def Let_def
      by (auto simp: appendPod_def one_byte_pod dest!: byte split: if_splits list.splits)
  next
    case False
    with assms show ?thesis
      unfolding decodeValue_def Let_def
      by (auto simp: appendPod_def dest!: decodeNumericValue_SomeD split: if_splits)
  qed
qed

subsection \<open>The header\<close>

lemma readPod_at:
  "p \<le> length input \<Longrightarrow> readPod input p =
     (if length input < p + LENGTH('a) div 8 then None
      else Some (p + LENGTH('a) div 8, pod_value (take (LENGTH('a) div 8) (drop p input)) :: 'a::len word))"
  by (auto simp: readPod_def Let_def)

lemma readHeader_eq:
  "readHeader input =
     (if length input < 36 then None
      else Some \<lparr>ih_offset = 36, ih_magic = pod_value (take 4 input),
        ih_version = pod_value (take 2 (drop 4 input)), ih_typeIndex = pod_value (take 2 (drop 6 input)),
        ih_quality = pod_value (take 4 (drop 8 input)), ih_timestamp = pod_value (take 8 (drop 12 input)),
        ih_topicLength = pod_value (take 4 (drop 20 input)),
        ih_deviceIdLength = pod_value (take 4 (drop 24 input)),
        ih_tagNameLength = pod_value (take 4 (drop 28 input)),
        ih_valueLength = pod_value (take 4 (drop 32 input))\<rparr>)"
  by (simp add: readHeader_def readPod_at)

lemma readString_eq:
  "p \<le> length input \<Longrightarrow> readString input p n =
     (if length input < p + unat n then None
      else Some (p + unat n, map char_of_byte (take (unat n) (drop p input))))"
  by (auto simp: readString_def)

subsection \<open>Encoded frames\<close>

definition encodable :: "message \<Rightarrow> bool" where
  "encodable m \<longleftrightarrow> msg_topic m \<noteq> '''' \<and> length (msg_topic m) \<le> maxLength \<and>
     length (msg_deviceId m) \<le> maxLength \<and> length (msg_tagName m) \<le> maxLength \<and>
     length (encodeValue (msg_value m)) \<le> maxLength"

text \<open>The frame as nine fixed fields and a body.\<close>

definition frame_header :: "u16 \<Rightarrow> u32 \<Rightarrow> u64 \<Rightarrow> u32 \<Rightarrow> u32 \<Rightarrow> u32 \<Rightarrow> u32 \<Rightarrow> bytes" where
  "frame_header t q ts l1 l2 l3 l4 =
     pod_bytes MessageMagic @ pod_bytes MessageVersion @ pod_bytes t @ pod_bytes q @ pod_bytes ts @
     pod_bytes l1 @ pod_bytes l2 @ pod_bytes l3 @ pod_bytes l4"

definition frame :: "message \<Rightarrow> bytes" where
  "frame m =
     frame_header (word_of_nat (value_index (msg_value m))) (word_of_nat (quality_index (msg_quality m)))
       (msg_timestamp m) (word_of_nat (length (msg_topic m))) (word_of_nat (length (msg_deviceId m)))
       (word_of_nat (length (msg_tagName m))) (word_of_nat (length (encodeValue (msg_value m)))) @
     map byte_of_char (msg_topic m) @ map byte_of_char (msg_deviceId m) @ map byte_of_char (msg_tagName m) @
     encodeValue (msg_value m)"

lemma encode_eq: "encode m = (if encodable m then Some (frame m) else None)"
  using quality_index_le [of "msg_quality m"]
  by (auto simp: encode_def encodable_def frame_def frame_header_def appendPod_def Let_def)

lemma length_frame_header [simp]: "length (frame_header t q ts l1 l2 l3 l4) = 36"
  by (simp add: frame_header_def)

lemma readHeader_frame:
  "readHeader (frame_header t q ts l1 l2 l3 l4 @ body) =
     Some \<lparr>ih_offset = 36, ih_magic = MessageMagic, ih_version = MessageVersion, ih_typeIndex = t,
       ih_quality = q, ih_timestamp = ts, ih_topicLength = l1, ih_deviceIdLength = l2,
       ih_tagNameLength = l3, ih_valueLength = l4\<rparr>"
  by (simp add: readHeader_eq frame_header_def)

lemma unat_length: "n \<le> maxLength \<Longrightarrow> unat (word_of_nat n :: u32) = n"
  by (rule unat_word_of_nat_small) (simp add: maxLength_def)

lemma unat_quality: "unat (word_of_nat (quality_index q) :: u32) = quality_index q"
  by (rule unat_word_of_nat_small) (use quality_index_le [of q] in simp)

lemma decode_frame:
  assumes "encodable m" shows "decode (frame m) m0 = (True, m)"
proof -
  have len: "unat (word_of_nat (length (msg_topic m)) :: u32) = length (msg_topic m)"
    "unat (word_of_nat (length (msg_deviceId m)) :: u32) = length (msg_deviceId m)"
    "unat (word_of_nat (length (msg_tagName m)) :: u32) = length (msg_tagName m)"
    "unat (word_of_nat (length (encodeValue (msg_value m))) :: u32) = length (encodeValue (msg_value m))"
    using assms by (simp_all add: encodable_def unat_length)
  show ?thesis
    using assms quality_index_le [of "msg_quality m"]
    by (simp add: decode_def frame_def readHeader_frame unat_quality len readString_eq
        decodeValue_encodeValue encodable_def Let_def)
qed

lemma split_header:
  assumes "36 \<le> length bs"
  shows "bs = take 4 bs @ take 2 (drop 4 bs) @ take 2 (drop 6 bs) @ take 4 (drop 8 bs) @ take 8 (drop 12 bs) @
    take 4 (drop 20 bs) @ take 4 (drop 24 bs) @ take 4 (drop 28 bs) @ take 4 (drop 32 bs) @ drop 36 bs"
  using take_drop_step [of 4 0 bs] take_drop_step [of 2 4 bs] take_drop_step [of 2 6 bs]
    take_drop_step [of 4 8 bs] take_drop_step [of 8 12 bs] take_drop_step [of 4 20 bs]
    take_drop_step [of 4 24 bs] take_drop_step [of 4 28 bs] take_drop_step [of 4 32 bs]
  by simp

lemma header_canonical:
  assumes "36 \<le> length bs" and "readHeader bs = Some h"
    and "ih_magic h = MessageMagic" and "ih_version h = MessageVersion"
  shows "bs = frame_header (ih_typeIndex h) (ih_quality h) (ih_timestamp h) (ih_topicLength h)
      (ih_deviceIdLength h) (ih_tagNameLength h) (ih_valueLength h) @ drop 36 bs"
proof -
  have h: "h = \<lparr>ih_offset = 36, ih_magic = pod_value (take 4 bs),
        ih_version = pod_value (take 2 (drop 4 bs)), ih_typeIndex = pod_value (take 2 (drop 6 bs)),
        ih_quality = pod_value (take 4 (drop 8 bs)), ih_timestamp = pod_value (take 8 (drop 12 bs)),
        ih_topicLength = pod_value (take 4 (drop 20 bs)),
        ih_deviceIdLength = pod_value (take 4 (drop 24 bs)),
        ih_tagNameLength = pod_value (take 4 (drop 28 bs)),
        ih_valueLength = pod_value (take 4 (drop 32 bs))\<rparr>"
    using assms(1,2) by (simp add: readHeader_eq)
  have "pod_bytes MessageMagic = take 4 bs" "pod_bytes MessageVersion = take 2 (drop 4 bs)"
    using assms by (simp_all add: h pod_bytes_pod_value_fixed flip: assms(3,4))
  then show ?thesis
    using assms(1) by (subst split_header [OF assms(1)])
      (simp add: h frame_header_def pod_bytes_pod_value_fixed)
qed

subsection \<open>Decoding\<close>

lemma readString_SomeD:
  "readString bs p n = Some (p', s) \<Longrightarrow>
     p' = p + unat n \<and> p' \<le> length bs \<and> length s = unat n \<and> map byte_of_char s = take (unat n) (drop p bs)"
  by (auto simp: readString_def split: if_splits)

lemma decode_TrueD:
  assumes "decode bs m0 = (True, m)"
  obtains h p1 p2 p3 where "readHeader bs = Some h" "ih_magic h = MessageMagic" "ih_version h = MessageVersion"
    "unat (ih_quality h) \<le> 4"
    "readString bs (ih_offset h) (ih_topicLength h) = Some (p1, msg_topic m)"
    "readString bs p1 (ih_deviceIdLength h) = Some (p2, msg_deviceId m)"
    "readString bs p2 (ih_tagNameLength h) = Some (p3, msg_tagName m)"
    "msg_topic m \<noteq> ''''" "p3 \<le> length bs" "length bs - p3 = unat (ih_valueLength h)"
    "decodeValue (ih_typeIndex h) (drop p3 bs) = Some (msg_value m)"
    "msg_quality m = quality_of_index (unat (ih_quality h))" "msg_timestamp m = ih_timestamp h"
  using assms unfolding decode_def Let_def
  by (auto split: option.splits prod.splits if_splits)

lemma word_of_nat_len: "unat (w :: u32) = n \<Longrightarrow> word_of_nat n = w"
  by auto

lemma unat_u32_le: "unat (w :: u32) \<le> maxLength"
  using unsigned_less [where ?'a = nat, of w] by (simp add: maxLength_def)

lemma decode_canonical:
  assumes "decode bs m0 = (True, m)"
  shows "encodable m \<and> bs = frame m"
proof -
  obtain h p1 p2 p3 where h: "readHeader bs = Some h" "ih_magic h = MessageMagic" "ih_version h = MessageVersion"
    and q: "unat (ih_quality h) \<le> 4"
    and s: "readString bs (ih_offset h) (ih_topicLength h) = Some (p1, msg_topic m)"
      "readString bs p1 (ih_deviceIdLength h) = Some (p2, msg_deviceId m)"
      "readString bs p2 (ih_tagNameLength h) = Some (p3, msg_tagName m)"
    and ne: "msg_topic m \<noteq> ''''" and p3: "p3 \<le> length bs" "length bs - p3 = unat (ih_valueLength h)"
    and v: "decodeValue (ih_typeIndex h) (drop p3 bs) = Some (msg_value m)"
    and mq: "msg_quality m = quality_of_index (unat (ih_quality h))" and mt: "msg_timestamp m = ih_timestamp h"
    using assms by (rule decode_TrueD)
  note s' = s [THEN readString_SomeD]
  have len: "36 \<le> length bs" and off: "ih_offset h = 36"
    using h(1) by (auto simp: readHeader_eq split: if_splits)
  have val: "value_index (msg_value m) = unat (ih_typeIndex h)" "encodeValue (msg_value m) = drop p3 bs"
    using decodeValue_canonical [OF v] by simp_all
  have "drop 36 bs = map byte_of_char (msg_topic m) @ map byte_of_char (msg_deviceId m) @
      map byte_of_char (msg_tagName m) @ encodeValue (msg_value m)"
    using s' by (simp add: off val take_drop_step)
  moreover have "frame_header (ih_typeIndex h) (ih_quality h) (ih_timestamp h) (ih_topicLength h)
      (ih_deviceIdLength h) (ih_tagNameLength h) (ih_valueLength h) @ drop 36 bs = bs"
    using header_canonical [OF len h] by simp
  moreover have "word_of_nat (quality_index (msg_quality m)) = ih_quality h"
    using q by (simp add: mq quality_index_of_index)
  ultimately have "bs = frame m"
    using s' p3(2) by (simp add: frame_def val mt)
  moreover have "encodable m"
    using s' p3(2) ne by (simp add: encodable_def val unat_u32_le)
  ultimately show ?thesis by simp
qed

text \<open>
  \<open>decode\<close> never reads the out-parameter, and on failure leaves value, quality and timestamp alone: a caller's
  message can only lose its three texts.
\<close>

lemma decode_failure_partial:
  "decode bs m0 = (False, m) \<Longrightarrow>
     msg_value m = msg_value m0 \<and> msg_quality m = msg_quality m0 \<and> msg_timestamp m = msg_timestamp m0"
  unfolding decode_def Let_def by (auto split: option.splits prod.splits if_splits)

subsection \<open>The codec as an interface\<close>

text \<open>What the shared-memory bridge relies on: a codec whose decoder inverts its encoder.\<close>

locale message_codec =
  fixes enc :: "'m \<Rightarrow> 'b option"
    and dec :: "'b \<Rightarrow> 'm \<Rightarrow> bool \<times> 'm"
  assumes dec_enc: "enc m = Some b \<Longrightarrow> dec b m0 = (True, m)"
    and enc_dec: "dec b m0 = (True, m) \<Longrightarrow> enc m = Some b"
begin

lemma dec_iff: "dec b m0 = (True, m) \<longleftrightarrow> enc m = Some b"
  using dec_enc enc_dec by blast

lemma enc_inj: "enc m = Some b \<Longrightarrow> enc m' = Some b \<Longrightarrow> m = m'"
  using dec_enc by (metis prod.inject)

lemma dec_fresh: "fst (dec b m0) \<Longrightarrow> dec b m0 = dec b m1"
proof -
  assume "fst (dec b m0)"
  then have ok: "dec b m0 = (True, snd (dec b m0))" by (cases "dec b m0") simp
  from dec_enc [OF enc_dec [OF ok], of m1] ok show ?thesis by simp
qed

end

interpretation ipc: message_codec encode decode
  by unfold_locales (auto simp: encode_eq decode_frame dest: decode_canonical split: if_splits)

text \<open>
  C1. Wire format: \<open>decode\<close> accepts a byte string with result \<open>m\<close> exactly when \<open>encode\<close> produces these bytes from \<open>m\<close>.
  So every accepted frame is canonical, nothing is lost in either direction, no trailing byte is accepted, and
  the out-parameter's former content does not matter.
\<close>

theorem ipc_decode_iff_encode: "decode bs m0 = (True, m) \<longleftrightarrow> encode m = Some bs"
  by (rule ipc.dec_iff)

lemma length_frame:
  "length (frame m) = 36 + length (msg_topic m) + length (msg_deviceId m) + length (msg_tagName m) +
     length (encodeValue (msg_value m))"
  by (simp add: frame_def)

text \<open>
  \<open>encode\<close> fails only for an empty topic or a text or value longer than 32 bits can count, and a frame has 36 bytes
  beyond its variable parts.
\<close>

theorem ipc_encode_size:
  "map_option length (encode m) =
     (if msg_topic m \<noteq> '''' \<and> length (msg_topic m) < 2 ^ 32 \<and> length (msg_deviceId m) < 2 ^ 32 \<and>
         length (msg_tagName m) < 2 ^ 32 \<and> length (encodeValue (msg_value m)) < 2 ^ 32
      then Some (36 + length (msg_topic m) + length (msg_deviceId m) + length (msg_tagName m) +
                 length (encodeValue (msg_value m)))
      else None)"
  by (auto simp: encode_eq encodable_def length_frame maxLength_def)

end
