(* ===== verification/Shared_Memory.thy ===== *)
theory Shared_Memory
  imports Prelude
begin

section \<open>The shared-memory buffer\<close>

text \<open>
  \<open>src/shared_memory_buffer.cpp\<close>. A buffer maps a POSIX shared-memory object: a 24-byte header (magic,
  version, capacity, data size) followed by the data. The memory behind the mappings is explicit: \<open>sw_mem\<close> gives
  the bytes of every object, and a mapping is identified with the object it shows, so two buffers (in two
  processes) that map one object see each other's writes. The kernel is not modelled: the results of its calls are
  the argument \<open>os\<close>, and the calls made are recorded in \<open>sw_calls\<close> (the C string \<open>name\<close> ends at its first NUL).
  \<open>size_t\<close> is 64 bits wide, \<open>off_t\<close> signed 64 bits.
\<close>

record shm_results =
  os_shm_open :: int
  os_ftruncate :: bool
  os_fstat :: "int option"
  os_mmap :: "nat option"
  os_msync :: bool
  os_unlink :: bool

datatype shm_call =
    Shm_open string | Shm_ftruncate int u64 | Shm_mmap int u64 | Shm_munmap nat u64 | Shm_close int | Shm_unlink string

record shm_world =
  sw_mem :: "nat \<Rightarrow> bytes"
  sw_calls :: "shm_call list"

record shm_buffer =
  shm_name :: string
  shm_fd :: int
  shm_mapping :: "nat option"
  shm_mappingSize :: u64
  shm_cap :: u64
  shm_ownsName :: bool

type_synonym shm_state = "shm_world \<times> shm_buffer"

definition shm_log :: "shm_call \<Rightarrow> shm_world \<Rightarrow> shm_world" where
  "shm_log c w = w\<lparr>sw_calls := sw_calls w @ [c]\<rparr>"

definition SharedMemoryMagic :: u32 where "SharedMemoryMagic = 0x45444C4B"
definition SharedMemoryVersion :: u32 where "SharedMemoryVersion = 1"

record shm_header =
  sh_magic :: u32
  sh_version :: u32
  sh_capacity :: u64
  sh_dataSize :: u64

abbreviation header_size :: nat where "header_size \<equiv> 24"

definition isValidSharedMemoryName :: "string \<Rightarrow> bool" where
  "isValidSharedMemoryName name \<longleftrightarrow> length name > 1 \<and> hd name = CHR ''/'' \<and> CHR ''/'' \<notin> set (tl name)"

text \<open>The header and the data as the mapped bytes hold them.\<close>

definition headerFrom :: "bytes \<Rightarrow> shm_header" where
  "headerFrom mapping =
     \<lparr>sh_magic = pod_value (take 4 mapping), sh_version = pod_value (take 4 (drop 4 mapping)),
      sh_capacity = pod_value (take 8 (drop 8 mapping)), sh_dataSize = pod_value (take 8 (drop 16 mapping))\<rparr>"

definition dataFrom :: "bytes \<Rightarrow> bytes" where
  "dataFrom mapping = drop header_size mapping"

text \<open>A store of \<open>bs\<close> at an offset of the mapping.\<close>

definition poke :: "nat \<Rightarrow> bytes \<Rightarrow> bytes \<Rightarrow> bytes" where
  "poke offset bs mapping = take offset mapping @ bs @ drop (offset + length bs) mapping"

definition hasValidHeader :: "bytes \<Rightarrow> u64 \<Rightarrow> bool" where
  "hasValidHeader mapping expectedCapacity \<longleftrightarrow>
     (let header = headerFrom mapping in
      sh_magic header = SharedMemoryMagic \<and> sh_version header = SharedMemoryVersion \<and>
      sh_capacity header = expectedCapacity \<and> sh_dataSize header \<le> expectedCapacity)"

definition new_shm :: "string \<Rightarrow> shm_buffer" where
  "new_shm name = \<lparr>shm_name = name, shm_fd = - 1, shm_mapping = None, shm_mappingSize = 0, shm_cap = 0,
     shm_ownsName = False\<rparr>"

definition shm_isOpen :: "shm_buffer \<Rightarrow> bool" where
  "shm_isOpen b \<longleftrightarrow> shm_mapping b \<noteq> None"

definition shm_close :: "shm_state \<Rightarrow> shm_state" where
  "shm_close s =
     (let (w, b) = s;
          w1 = (case shm_mapping b of None \<Rightarrow> w | Some m \<Rightarrow> shm_log (Shm_munmap m (shm_mappingSize b)) w);
          w2 = (if shm_fd b \<ge> 0 then shm_log (Shm_close (shm_fd b)) w1 else w1)
      in (w2, b\<lparr>shm_mapping := None, shm_fd := (if shm_fd b \<ge> 0 then - 1 else shm_fd b),
                shm_mappingSize := 0, shm_cap := 0\<rparr>))"

definition shm_remove :: "shm_results \<Rightarrow> shm_state \<Rightarrow> bool \<times> shm_state" where
  "shm_remove os s =
     (let (w, b) = s; w' = shm_log (Shm_unlink (c_str (shm_name b))) w in
      if os_unlink os then (True, w', b\<lparr>shm_ownsName := False\<rparr>) else (False, w', b))"

definition shm_create :: "shm_results \<Rightarrow> u64 \<Rightarrow> shm_state \<Rightarrow> bool \<times> shm_state" where
  "shm_create os capacity s =
     (let (w, b) = s in
      if shm_isOpen b \<or> \<not> isValidSharedMemoryName (shm_name b) \<or> capacity = 0 then (False, s)
      else if capacity > - 1 - word_of_nat header_size then (False, s)
      else
       (let mappingSize = word_of_nat header_size + capacity in
        if unat mappingSize > 2 ^ 63 - 1 then (False, w, b\<lparr>shm_mappingSize := 0\<rparr>)
        else
         (let fd = os_shm_open os; w1 = shm_log (Shm_open (c_str (shm_name b))) w in
          if fd < 0 then (False, w1, b\<lparr>shm_fd := fd, shm_mappingSize := 0\<rparr>)
          else
           (let b1 = b\<lparr>shm_fd := fd, shm_mappingSize := mappingSize, shm_ownsName := True\<rparr>;
                w2 = shm_log (Shm_ftruncate fd mappingSize) w1 in
            if \<not> os_ftruncate os then (False, snd (shm_remove os (shm_close (w2, b1))))
            else
             (let w3 = shm_log (Shm_mmap fd mappingSize) w2 in
              case os_mmap os of
                None \<Rightarrow> (False, snd (shm_remove os (shm_close (w3, b1\<lparr>shm_mapping := None\<rparr>))))
              | Some m \<Rightarrow>
                 (let b2 = b1\<lparr>shm_mapping := Some m, shm_cap := capacity\<rparr>;
                      memory = poke 16 (pod_bytes (0 :: u64)) (poke 8 (pod_bytes capacity)
                        (poke 4 (pod_bytes SharedMemoryVersion) (poke 0 (pod_bytes SharedMemoryMagic) (sw_mem w m))));
                      w4 = w3\<lparr>sw_mem := (sw_mem w3)(m := memory)\<rparr> in
                  if \<not> os_msync os then (False, snd (shm_remove os (shm_close (w4, b2))))
                  else (True, w4, b2)))))))"

definition shm_open :: "shm_results \<Rightarrow> shm_state \<Rightarrow> bool \<times> shm_state" where
  "shm_open os s =
     (let (w, b) = s in
      if shm_isOpen b \<or> \<not> isValidSharedMemoryName (shm_name b) then (False, s)
      else
       (let fd = os_shm_open os; w1 = shm_log (Shm_open (c_str (shm_name b))) w; b1 = b\<lparr>shm_fd := fd\<rparr> in
        if fd < 0 then (False, w1, b1)
        else
         (case os_fstat os of
            None \<Rightarrow> (False, shm_close (w1, b1))
          | Some st_size \<Rightarrow>
             if st_size < int header_size then (False, shm_close (w1, b1))
             else
              (let mappingSize = word_of_int st_size;
                   b2 = b1\<lparr>shm_mappingSize := mappingSize\<rparr>;
                   w2 = shm_log (Shm_mmap fd mappingSize) w1 in
               case os_mmap os of
                 None \<Rightarrow> (False, shm_close (w2, b2\<lparr>shm_mapping := None\<rparr>))
               | Some m \<Rightarrow>
                  (let b3 = b2\<lparr>shm_mapping := Some m\<rparr>;
                       mappedCapacity = mappingSize - word_of_nat header_size in
                   if \<not> hasValidHeader (sw_mem w2 m) mappedCapacity then (False, shm_close (w2, b3))
                   else (True, w2, b3\<lparr>shm_cap := mappedCapacity\<rparr>))))))"

text \<open>The data pointer of \<open>write\<close>: \<open>None\<close> is \<open>nullptr\<close>.\<close>

definition shm_write :: "shm_results \<Rightarrow> bytes option \<Rightarrow> u64 \<Rightarrow> shm_state \<Rightarrow> bool \<times> shm_state" where
  "shm_write os data sz s =
     (let (w, b) = s in
      case shm_mapping b of
        None \<Rightarrow> (False, s)
      | Some m \<Rightarrow>
          if sz > shm_cap b \<or> (sz > 0 \<and> data = None) then (False, s)
          else
           (let m1 = (case data of
                        Some bs \<Rightarrow> if sz > 0 then poke header_size (take (unat sz) bs) (sw_mem w m) else sw_mem w m
                      | None \<Rightarrow> sw_mem w m);
                w' = w\<lparr>sw_mem := (sw_mem w)(m := poke 16 (pod_bytes sz) m1)\<rparr>
            in (os_msync os, w', b)))"

definition shm_read :: "shm_state \<Rightarrow> bytes option" where
  "shm_read s =
     (let (w, b) = s in
      case shm_mapping b of
        None \<Rightarrow> None
      | Some m \<Rightarrow>
          if \<not> hasValidHeader (sw_mem w m) (shm_cap b) then None
          else (let dataSize = unat (sh_dataSize (headerFrom (sw_mem w m)))
                in Some (take dataSize (dataFrom (sw_mem w m)))))"

definition shm_capacity :: "shm_buffer \<Rightarrow> u64" where
  "shm_capacity b = (if shm_isOpen b then shm_cap b else 0)"

definition shm_size :: "shm_state \<Rightarrow> u64" where
  "shm_size s =
     (let (w, b) = s in
      case shm_mapping b of
        None \<Rightarrow> 0
      | Some m \<Rightarrow>
          if \<not> hasValidHeader (sw_mem w m) (shm_cap b) then 0
          else (let header = headerFrom (sw_mem w m)
                in if sh_dataSize header \<le> shm_cap b then sh_dataSize header else 0))"

definition shm_destroy :: "shm_results \<Rightarrow> shm_state \<Rightarrow> shm_state" where
  "shm_destroy os s =
     (let s' = shm_close s in if shm_ownsName (snd s') then snd (shm_remove os s') else s')"

subsection \<open>Stores into the mapping\<close>

lemma length_poke [simp]: "offset + length bs \<le> length m \<Longrightarrow> length (poke offset bs m) = length m"
  by (simp add: poke_def)

lemma poke_same: "q \<le> length m \<Longrightarrow> take (length bs) (drop q (poke q bs m)) = bs"
  by (simp add: poke_def)

lemma poke_before: "p + n \<le> q \<Longrightarrow> q \<le> length m \<Longrightarrow> take n (drop p (poke q bs m)) = take n (drop p m)"
  by (simp add: poke_def drop_take min_absorb1)

lemma poke_after: "q \<le> length m \<Longrightarrow> q + length bs \<le> p \<Longrightarrow> drop p (poke q bs m) = drop p m"
  by (simp add: poke_def)

lemma headerFrom_poke_data:
  "header_size \<le> length m \<Longrightarrow> headerFrom (poke header_size bs m) = headerFrom m"
  using poke_before [of 0 4 header_size m bs]
  by (simp add: headerFrom_def poke_before)

lemma headerFrom_poke_size:
  assumes "header_size \<le> length m"
  shows "headerFrom (poke 16 (pod_bytes (n :: u64)) m) = (headerFrom m)\<lparr>sh_dataSize := n\<rparr>"
  using assms poke_before [of 0 4 16 m "pod_bytes n"] poke_same [of 16 m "pod_bytes n"]
  by (simp add: headerFrom_def poke_before)

lemma dataFrom_poke_size:
  "header_size \<le> length m \<Longrightarrow> dataFrom (poke 16 (pod_bytes (n :: u64)) m) = dataFrom m"
  by (simp add: dataFrom_def poke_after)

lemma dataFrom_poke_data:
  "header_size \<le> length m \<Longrightarrow> take (length bs) (dataFrom (poke header_size bs m)) = bs"
  by (simp add: dataFrom_def poke_same)

text \<open>The header that \<open>create\<close> writes.\<close>

definition init_header :: "u64 \<Rightarrow> bytes \<Rightarrow> bytes" where
  "init_header capacity m = poke 16 (pod_bytes (0 :: u64)) (poke 8 (pod_bytes capacity)
     (poke 4 (pod_bytes SharedMemoryVersion) (poke 0 (pod_bytes SharedMemoryMagic) m)))"

lemma init_header_eq:
  "header_size \<le> length m \<Longrightarrow> init_header capacity m =
     pod_bytes SharedMemoryMagic @ pod_bytes SharedMemoryVersion @ pod_bytes capacity @ pod_bytes (0 :: u64) @
     drop header_size m"
  by (simp add: init_header_def poke_def)

lemma hasValidHeader_init:
  "header_size \<le> length m \<Longrightarrow> hasValidHeader (init_header capacity m) capacity"
  by (simp add: init_header_eq hasValidHeader_def headerFrom_def)

lemma length_init_header: "header_size \<le> length m \<Longrightarrow> length (init_header capacity m) = length m"
  by (simp add: init_header_eq)

subsection \<open>Invariant of a buffer\<close>

definition shm_wf :: "shm_state \<Rightarrow> bool" where
  "shm_wf s \<longleftrightarrow>
     (let (w, b) = s in
      case shm_mapping b of
        None \<Rightarrow> shm_fd b < 0 \<and> shm_mappingSize b = 0 \<and> shm_cap b = 0
      | Some m \<Rightarrow> shm_fd b \<ge> 0 \<and> isValidSharedMemoryName (shm_name b) \<and>
          unat (shm_mappingSize b) = header_size + unat (shm_cap b) \<and>
          length (sw_mem w m) = unat (shm_mappingSize b))"

text \<open>What the code relies on of the kernel: a successful \<open>mmap\<close> shows an object of the given size.\<close>

definition mmap_whole :: "shm_results \<Rightarrow> shm_world \<Rightarrow> nat \<Rightarrow> bool" where
  "mmap_whole os w n \<longleftrightarrow> (case os_mmap os of None \<Rightarrow> True | Some m \<Rightarrow> length (sw_mem w m) = n)"

lemma shm_log_mem [simp]: "sw_mem (shm_log c w) = sw_mem w"
  by (simp add: shm_log_def)

lemma shm_close_fields:
  "shm_mapping (snd (shm_close s)) = None" "shm_fd (snd (shm_close s)) < 0"
  "shm_mappingSize (snd (shm_close s)) = 0" "shm_cap (snd (shm_close s)) = 0"
  "shm_name (snd (shm_close s)) = shm_name (snd s)" "shm_ownsName (snd (shm_close s)) = shm_ownsName (snd s)"
  "sw_mem (fst (shm_close s)) = sw_mem (fst s)"
  by (auto simp: shm_close_def Let_def case_prod_beta split: option.splits)

lemma shm_remove_fields:
  "shm_mapping (snd (snd (shm_remove os s))) = shm_mapping (snd s)"
  "shm_fd (snd (snd (shm_remove os s))) = shm_fd (snd s)"
  "shm_mappingSize (snd (snd (shm_remove os s))) = shm_mappingSize (snd s)"
  "shm_cap (snd (snd (shm_remove os s))) = shm_cap (snd s)"
  "shm_name (snd (snd (shm_remove os s))) = shm_name (snd s)"
  "shm_ownsName (snd (snd (shm_remove os s))) = (shm_ownsName (snd s) \<and> \<not> os_unlink os)"
  "sw_mem (fst (snd (shm_remove os s))) = sw_mem (fst s)"
  "fst (shm_remove os s) = os_unlink os"
  by (auto simp: shm_remove_def Let_def case_prod_beta)

lemmas shm_fields = shm_close_fields shm_remove_fields

lemma shm_wf_alt:
  "shm_wf s \<longleftrightarrow>
     (case shm_mapping (snd s) of
        None \<Rightarrow> shm_fd (snd s) < 0 \<and> shm_mappingSize (snd s) = 0 \<and> shm_cap (snd s) = 0
      | Some m \<Rightarrow> shm_fd (snd s) \<ge> 0 \<and> isValidSharedMemoryName (shm_name (snd s)) \<and>
          unat (shm_mappingSize (snd s)) = header_size + unat (shm_cap (snd s)) \<and>
          length (sw_mem (fst s) m) = unat (shm_mappingSize (snd s)))"
  by (simp add: shm_wf_def case_prod_beta)

lemma shm_wf_close: "shm_wf (shm_close s)"
  by (simp add: shm_wf_alt shm_fields)

lemma shm_wf_remove: "shm_wf s \<Longrightarrow> shm_wf (snd (shm_remove os s))"
  by (simp add: shm_wf_alt shm_fields split: option.splits)

lemma shm_wf_new: "shm_wf (w, new_shm name)"
  by (simp add: shm_wf_def new_shm_def)

lemma unat_mapping_size:
  "\<not> - 1 - 24 < (c :: u64) \<Longrightarrow> unat (24 + c) = 24 + unat c"
  by unat_arith simp

lemma shm_create_success:
  assumes "fst (shm_create os c (w, b))"
  obtains m calls where "\<not> shm_isOpen b" "isValidSharedMemoryName (shm_name b)" "os_shm_open os \<ge> 0"
    "c \<noteq> 0" "unat (24 + c) = 24 + unat c" "os_mmap os = Some m"
    "snd (shm_create os c (w, b)) =
       (w\<lparr>sw_calls := calls, sw_mem := (sw_mem w)(m := init_header c (sw_mem w m))\<rparr>,
        b\<lparr>shm_fd := os_shm_open os, shm_mappingSize := 24 + c, shm_ownsName := True,
          shm_mapping := Some m, shm_cap := c\<rparr>)"
proof -
  have g: "\<not> shm_isOpen b" "isValidSharedMemoryName (shm_name b)" "c \<noteq> 0" "\<not> - 1 - 24 < c"
    "\<not> unat (24 + c) > 2 ^ 63 - 1" "\<not> os_shm_open os < 0" "os_ftruncate os" "os_msync os"
    using assms unfolding shm_create_def Let_def
    by (simp_all split: if_splits option.splits)
  obtain m where m: "os_mmap os = Some m"
    using assms g unfolding shm_create_def Let_def by (simp split: option.splits)
  have "snd (shm_create os c (w, b)) =
      (w\<lparr>sw_calls := sw_calls w @ [Shm_open (c_str (shm_name b))] @ [Shm_ftruncate (os_shm_open os) (24 + c)] @
           [Shm_mmap (os_shm_open os) (24 + c)],
         sw_mem := (sw_mem w)(m := init_header c (sw_mem w m))\<rparr>,
       b\<lparr>shm_fd := os_shm_open os, shm_mappingSize := 24 + c, shm_ownsName := True,
          shm_mapping := Some m, shm_cap := c\<rparr>)"
    using g m by (simp add: shm_create_def shm_log_def init_header_def Let_def)
  then show thesis
    using that g m unat_mapping_size by simp
qed

text \<open>The three exits \<open>close(); remove(); return false;\<close> of \<open>create\<close>, and the one of \<open>open\<close>.\<close>

lemma shm_remove_calls:
  "sw_calls (fst (snd (shm_remove os s))) = sw_calls (fst s) @ [Shm_unlink (c_str (shm_name (snd s)))]"
  by (simp add: shm_remove_def shm_log_def case_prod_beta Let_def)

lemma shm_close_calls:
  "shm_fd b \<ge> 0 \<Longrightarrow> sw_calls (fst (shm_close (w, b))) =
      sw_calls w @ (case shm_mapping b of None \<Rightarrow> [] | Some m \<Rightarrow> [Shm_munmap m (shm_mappingSize b)]) @
      [Shm_close (shm_fd b)]"
  by (simp add: shm_close_def shm_log_def split: option.splits)

lemmas shm_calls = shm_remove_calls shm_close_calls

lemma shm_create_closed:
  assumes "shm_wf (w, b)" and "\<not> shm_isOpen b" and "\<not> fst (shm_create os c (w, b))"
  shows "\<not> shm_isOpen (snd (snd (shm_create os c (w, b)))) \<and> shm_wf (snd (shm_create os c (w, b)))"
  using assms unfolding shm_create_def Let_def
  by (simp add: shm_wf_alt shm_isOpen_def shm_fields split: if_splits option.splits)

lemma shm_create_calls:
  assumes "\<not> fst (shm_create os c (w, b))"
  shows "\<exists>xs. sw_calls (fst (snd (shm_create os c (w, b)))) = sw_calls w @ xs \<and>
    (xs = [] \<or> os_shm_open os < 0 \<and> xs = [Shm_open (c_str (shm_name b))] \<or>
     (\<exists>ys. xs = Shm_open (c_str (shm_name b)) # ys @ [Shm_close (os_shm_open os), Shm_unlink (c_str (shm_name b))]))"
  using assms unfolding shm_create_def Let_def
  by (auto simp: shm_calls shm_fields shm_log_def split: if_splits option.splits)

lemma shm_create_wf:
  assumes "shm_wf (w, b)" and "mmap_whole os w (header_size + unat c)"
  shows "shm_wf (snd (shm_create os c (w, b)))"
proof (cases "fst (shm_create os c (w, b))")
  case True
  from shm_create_success [OF this] obtain m calls where
    v: "isValidSharedMemoryName (shm_name b)" "os_shm_open os \<ge> 0" "unat (24 + c) = 24 + unat c" "os_mmap os = Some m"
    and e: "snd (shm_create os c (w, b)) =
       (w\<lparr>sw_calls := calls, sw_mem := (sw_mem w)(m := init_header c (sw_mem w m))\<rparr>,
        b\<lparr>shm_fd := os_shm_open os, shm_mappingSize := 24 + c, shm_ownsName := True,
          shm_mapping := Some m, shm_cap := c\<rparr>)"
    by metis
  then show ?thesis using assms(2) by (simp add: shm_wf_alt e mmap_whole_def length_init_header)
next
  case False
  show ?thesis
  proof (cases "shm_isOpen b")
    case True
    then show ?thesis using assms(1) by (simp add: shm_create_def)
  next
    case closed: False
    then show ?thesis using shm_create_closed [OF assms(1) _ False] by simp
  qed
qed

lemma unat_word_of_size: "24 \<le> n \<Longrightarrow> n < 2 ^ 63 \<Longrightarrow> unat (word_of_int n - 24 :: u64) = nat n - 24"
proof -
  assume n: "24 \<le> n" "n < 2 ^ 63"
  then have "(word_of_int n - 24 :: u64) = word_of_nat (nat n - 24)"
    by (simp add: of_nat_diff nat_le_iff)
  moreover have "unat (word_of_nat (nat n - 24) :: u64) = nat n - 24"
    by (rule unat_word_of_nat_small) (use n in simp)
  ultimately show ?thesis by simp
qed

lemma shm_open_success:
  assumes "fst (shm_open os (w, b))"
  obtains m n calls where "\<not> shm_isOpen b" "isValidSharedMemoryName (shm_name b)" "os_shm_open os \<ge> 0"
    "os_fstat os = Some n" "24 \<le> n" "os_mmap os = Some m" "hasValidHeader (sw_mem w m) (word_of_int n - 24)"
    "snd (shm_open os (w, b)) =
       (w\<lparr>sw_calls := calls\<rparr>,
        b\<lparr>shm_fd := os_shm_open os, shm_mappingSize := word_of_int n, shm_mapping := Some m,
          shm_cap := word_of_int n - 24\<rparr>)"
proof -
  have g: "\<not> shm_isOpen b" "isValidSharedMemoryName (shm_name b)" "\<not> os_shm_open os < 0"
    using assms unfolding shm_open_def Let_def by (simp_all split: if_splits)
  obtain n where n: "os_fstat os = Some n" "\<not> n < 24"
    using assms g unfolding shm_open_def Let_def by (simp split: option.splits if_splits)
  obtain m where m: "os_mmap os = Some m" "hasValidHeader (sw_mem w m) (word_of_int n - 24)"
    using assms g n unfolding shm_open_def Let_def by (simp split: option.splits if_splits)
  have "snd (shm_open os (w, b)) =
      (w\<lparr>sw_calls := sw_calls w @ [Shm_open (c_str (shm_name b))] @ [Shm_mmap (os_shm_open os) (word_of_int n)]\<rparr>,
       b\<lparr>shm_fd := os_shm_open os, shm_mappingSize := word_of_int n, shm_mapping := Some m,
         shm_cap := word_of_int n - 24\<rparr>)"
    using g n m by (simp add: shm_open_def shm_log_def Let_def)
  then show thesis using that g n m by simp
qed

lemma shm_open_closed:
  assumes "shm_wf (w, b)" and "\<not> shm_isOpen b" and "\<not> fst (shm_open os (w, b))"
  shows "\<not> shm_isOpen (snd (snd (shm_open os (w, b)))) \<and> shm_wf (snd (shm_open os (w, b))) \<and>
    sw_mem (fst (snd (shm_open os (w, b)))) = sw_mem w"
  using assms unfolding shm_open_def Let_def
  by (auto simp: shm_wf_alt shm_isOpen_def shm_fields split: if_splits option.splits)

lemma shm_open_calls:
  assumes "\<not> fst (shm_open os (w, b))"
  shows "\<exists>xs. sw_calls (fst (snd (shm_open os (w, b)))) = sw_calls w @ xs \<and>
    (xs = [] \<or> os_shm_open os < 0 \<and> xs = [Shm_open (c_str (shm_name b))] \<or>
     (\<exists>ys. xs = Shm_open (c_str (shm_name b)) # ys @ [Shm_close (os_shm_open os)]))"
  using assms unfolding shm_open_def Let_def
  by (auto simp: shm_calls shm_fields shm_log_def split: if_splits option.splits)

lemma shm_open_wf:
  assumes wf: "shm_wf (w, b)" and n: "os_fstat os = Some n" "n < 2 ^ 63" and m: "mmap_whole os w (nat n)"
  shows "shm_wf (snd (shm_open os (w, b)))"
proof (cases "fst (shm_open os (w, b))")
  case True
  from shm_open_success [OF this] obtain m' n' calls where
    v: "isValidSharedMemoryName (shm_name b)" "os_shm_open os \<ge> 0" "os_fstat os = Some n'" "24 \<le> n'" "os_mmap os = Some m'"
    and e: "snd (shm_open os (w, b)) =
       (w\<lparr>sw_calls := calls\<rparr>,
        b\<lparr>shm_fd := os_shm_open os, shm_mappingSize := word_of_int n', shm_mapping := Some m',
          shm_cap := word_of_int n' - 24\<rparr>)"
    by metis
  have "unat (word_of_int n' :: u64) = nat n'"
    using unat_word_of_nat_small [of "nat n'", where ?'a = 64] v n by simp
  then show ?thesis
    using v n m by (simp add: shm_wf_alt e mmap_whole_def unat_word_of_size)
next
  case False
  show ?thesis
  proof (cases "shm_isOpen b")
    case True
    then show ?thesis using wf by (simp add: shm_open_def)
  next
    case closed: False
    then show ?thesis using shm_open_closed [OF wf _ False] by simp
  qed
qed

subsection \<open>Writing and reading\<close>

text \<open>The bytes of an object once \<open>write\<close> has stored \<open>bs\<close>.\<close>

definition stored :: "bytes \<Rightarrow> bytes \<Rightarrow> bytes" where
  "stored bs m = poke 16 (pod_bytes (word_of_nat (length bs) :: u64)) (poke header_size bs m)"

lemma shm_write_refused:
  "\<not> shm_isOpen b \<or> shm_cap b < n \<or> n > 0 \<and> data = None \<Longrightarrow> shm_write os data n (w, b) = (False, w, b)"
  by (auto simp: shm_write_def shm_isOpen_def split: option.splits)

lemma poke_Nil [simp]: "poke q [] m = m"
  by (simp add: poke_def)

lemma shm_write_eq:
  assumes "shm_mapping b = Some m" and "length bs \<le> unat (shm_cap b)"
  shows "shm_write os (Some bs) (word_of_nat (length bs)) (w, b) =
    (os_msync os, w\<lparr>sw_mem := (sw_mem w)(m := stored bs (sw_mem w m))\<rparr>, b)"
proof -
  have "length bs < 2 ^ 64"
    using assms(2) unsigned_less [where ?'a = nat, of "shm_cap b"] by simp
  then have n: "unat (word_of_nat (length bs) :: u64) = length bs" by (simp add: unat_word_of_nat_small)
  then show ?thesis
    using assms by (auto simp: shm_write_def stored_def Let_def word_less_nat_alt)
qed

lemma stored_props:
  assumes "header_size + length bs \<le> length m" and "length bs < 2 ^ 64"
  shows "length (stored bs m) = length m"
    and "headerFrom (stored bs m) = (headerFrom m)\<lparr>sh_dataSize := word_of_nat (length bs)\<rparr>"
    and "take (length bs) (dataFrom (stored bs m)) = bs"
    and "unat (sh_dataSize (headerFrom (stored bs m))) = length bs"
proof -
  show *: "headerFrom (stored bs m) = (headerFrom m)\<lparr>sh_dataSize := word_of_nat (length bs)\<rparr>"
    using assms by (simp add: stored_def headerFrom_poke_size headerFrom_poke_data)
  show "length (stored bs m) = length m"
    using assms by (simp add: stored_def)
  show "take (length bs) (dataFrom (stored bs m)) = bs"
    using assms by (simp add: stored_def dataFrom_poke_size dataFrom_poke_data)
  show "unat (sh_dataSize (headerFrom (stored bs m))) = length bs"
    using assms(2) by (simp add: * unat_word_of_nat_small)
qed

lemma hasValidHeader_stored:
  assumes "header_size + length bs \<le> length m" and "length bs \<le> unat c"
    and "hasValidHeader m c"
  shows "hasValidHeader (stored bs m) c"
proof -
  have b: "length bs < 2 ^ 64" using assms(2) unsigned_less [where ?'a = nat, of c] by simp
  note p = stored_props [OF assms(1) b]
  have "sh_dataSize (headerFrom (stored bs m)) \<le> c"
    using p(4) assms(2) by (simp add: word_le_nat_alt)
  then show ?thesis using assms(3) by (simp add: hasValidHeader_def p(2) Let_def)
qed

lemma shm_read_stored:
  assumes "shm_mapping b = Some m" and "sw_mem w m = stored bs old" and "hasValidHeader old (shm_cap b)"
    and "header_size + length bs \<le> length old" and "length bs \<le> unat (shm_cap b)"
  shows "shm_read (w, b) = Some bs"
proof -
  have b: "length bs < 2 ^ 64" using assms(5) unsigned_less [where ?'a = nat, of "shm_cap b"] by simp
  show ?thesis
    using assms(1,2) hasValidHeader_stored [OF assms(4,5,3)] stored_props(3,4) [OF assms(4) b]
    by (simp add: shm_read_def)
qed

lemma shm_read_bounds:
  assumes "shm_wf (w, b)" and "shm_read (w, b) = Some bs"
  shows "unat (shm_size (w, b)) = length bs \<and> length bs \<le> unat (shm_cap b) \<and>
    header_size + length bs \<le> unat (shm_mappingSize b)"
proof -
  obtain m where m: "shm_mapping b = Some m" "hasValidHeader (sw_mem w m) (shm_cap b)"
    "bs = take (unat (sh_dataSize (headerFrom (sw_mem w m)))) (dataFrom (sw_mem w m))"
    using assms(2) by (auto simp: shm_read_def Let_def split: option.splits if_splits)
  have le: "sh_dataSize (headerFrom (sw_mem w m)) \<le> shm_cap b"
    using m(2) by (simp add: hasValidHeader_def Let_def)
  then have "unat (sh_dataSize (headerFrom (sw_mem w m))) \<le> unat (shm_cap b)"
    by (simp add: word_le_nat_alt)
  with assms(1) m le show ?thesis
    by (simp add: shm_wf_alt shm_size_def Let_def dataFrom_def)
qed

subsection \<open>One object, two processes\<close>

text \<open>Two buffers that map the same object: the writer \<open>a\<close> and the reader \<open>b\<close>.\<close>

definition shm_shared :: "shm_world \<Rightarrow> shm_buffer \<Rightarrow> shm_buffer \<Rightarrow> bool" where
  "shm_shared w a b \<longleftrightarrow> shm_wf (w, a) \<and> shm_wf (w, b) \<and> shm_cap a = shm_cap b \<and> shm_mapping a = shm_mapping b \<and>
     (case shm_mapping a of None \<Rightarrow> False | Some m \<Rightarrow> hasValidHeader (sw_mem w m) (shm_cap a))"

lemma shm_sharedD:
  assumes "shm_shared w a b"
  obtains m where "shm_mapping a = Some m" "shm_mapping b = Some m" "hasValidHeader (sw_mem w m) (shm_cap a)"
    "length (sw_mem w m) = header_size + unat (shm_cap a)"
  using assms by (auto simp: shm_shared_def shm_wf_alt split: option.splits)

lemma shm_shared_write:
  assumes sh: "shm_shared w a b" and len: "length bs \<le> unat (shm_cap a)"
    and wr: "shm_write os (Some bs) (word_of_nat (length bs)) (w, a) = (r, w', a')"
  shows "r = os_msync os \<and> a' = a \<and> shm_shared w' a b \<and> shm_read (w', b) = Some bs"
proof -
  obtain m where m: "shm_mapping a = Some m" "shm_mapping b = Some m" "hasValidHeader (sw_mem w m) (shm_cap a)"
    "length (sw_mem w m) = header_size + unat (shm_cap a)"
    using sh by (rule shm_sharedD)
  have cap: "shm_cap b = shm_cap a" using sh by (simp add: shm_shared_def)
  have fit: "header_size + length bs \<le> length (sw_mem w m)" using len m(4) by simp
  have w': "w' = w\<lparr>sw_mem := (sw_mem w)(m := stored bs (sw_mem w m))\<rparr>" "r = os_msync os" "a' = a"
    using wr shm_write_eq [OF m(1) len] by auto
  have b64: "length bs < 2 ^ 64" using len unsigned_less [where ?'a = nat, of "shm_cap a"] by simp
  have "shm_read (w', b) = Some bs"
    using shm_read_stored [of b m w' bs "sw_mem w m"] m cap fit len by (simp add: w')
  moreover have "shm_shared w' a b"
    using sh m stored_props(1) [OF fit b64] hasValidHeader_stored [OF fit len m(3)]
    by (simp add: shm_shared_def shm_wf_alt w')
  ultimately show ?thesis using w' by simp
qed

text \<open>
  C12. What one process writes, every process that maps the object reads back, byte for byte, for every size up to the
  capacity; the buffers stay consistent, and a write that is too large or has no data changes nothing.
\<close>

theorem shm_write_then_read:
  assumes "shm_shared w a b" and "shm_write os (Some bs) (word_of_nat (length bs)) (w, a) = (r, w', a')"
    and "length bs < 2 ^ 64"
  shows "if length bs \<le> unat (shm_cap a)
         then r = os_msync os \<and> shm_read (w', b) = Some bs \<and> unat (shm_size (w', b)) = length bs \<and> shm_shared w' a' b
         else \<not> r \<and> w' = w \<and> a' = a"
proof (cases "length bs \<le> unat (shm_cap a)")
  case True
  note s = shm_shared_write [OF assms(1) True assms(2)]
  then have "shm_shared w' a b" "shm_read (w', b) = Some bs" by simp_all
  moreover have "unat (shm_size (w', b)) = length bs"
    using calculation shm_read_bounds [of w' b bs] by (simp add: shm_shared_def)
  ultimately show ?thesis using s True by simp
next
  case False
  then have "shm_cap a < word_of_nat (length bs)"
    using assms(3) by (simp add: word_less_nat_alt unat_word_of_nat_small)
  then show ?thesis using False assms(2) by (simp add: shm_write_refused)
qed

text \<open>
  The single-slot channel that the message bridge is built on: a successful \<open>put\<close> is what the next \<open>get\<close> returns.
\<close>

locale byte_slot =
  fixes put :: "bytes \<Rightarrow> 's \<Rightarrow> bool \<times> 's" and get :: "'s \<Rightarrow> bytes option" and invar :: "'s \<Rightarrow> bool"
  assumes put_get: "invar s \<Longrightarrow> length bs < 2 ^ 64 \<Longrightarrow> put bs s = (True, s') \<Longrightarrow> get s' = Some bs"
    and put_invar: "invar s \<Longrightarrow> length bs < 2 ^ 64 \<Longrightarrow> invar (snd (put bs s))"
begin

lemma last_put_wins:
  "invar s \<Longrightarrow> length as < 2 ^ 64 \<Longrightarrow> length bs < 2 ^ 64 \<Longrightarrow>
     put bs (snd (put as s)) = (True, s') \<Longrightarrow> get s' = Some bs"
  using put_get put_invar by blast

end

definition slot_put :: "shm_results \<Rightarrow> bytes \<Rightarrow> shm_world \<times> shm_buffer \<times> shm_buffer \<Rightarrow>
    bool \<times> shm_world \<times> shm_buffer \<times> shm_buffer" where
  "slot_put os bs s =
     (let (w, a, b) = s; (r, w', a') = shm_write os (Some bs) (word_of_nat (length bs)) (w, a) in (r, w', a', b))"

interpretation slot: byte_slot "slot_put os" "\<lambda>(w, a, b). shm_read (w, b)" "\<lambda>(w, a, b). shm_shared w a b"
proof unfold_locales
  fix s s' :: "shm_world \<times> shm_buffer \<times> shm_buffer" and bs :: bytes
  assume sh: "(case s of (w, a, b) \<Rightarrow> shm_shared w a b)" and len: "length bs < 2 ^ 64"
  obtain w a b where s: "s = (w, a, b)" by (metis prod_cases3)
  obtain r w' a' where wr: "shm_write os (Some bs) (word_of_nat (length bs)) (w, a) = (r, w', a')"
    by (metis prod_cases3)
  have *: "if length bs \<le> unat (shm_cap a)
         then r = os_msync os \<and> shm_read (w', b) = Some bs \<and> shm_shared w' a' b
         else \<not> r \<and> w' = w \<and> a' = a"
    using sh len wr shm_shared_write [OF _ _ wr]
    by (auto simp: s word_less_nat_alt unat_word_of_nat_small shm_write_refused split: if_splits)
  show "case snd (slot_put os bs s) of (w, a, b) \<Rightarrow> shm_shared w a b"
    using * sh by (simp add: s slot_put_def wr split: if_splits)
  show "slot_put os bs s = (True, s') \<Longrightarrow> (case s' of (w, a, b) \<Rightarrow> shm_read (w, b)) = Some bs"
    using * by (auto simp: s slot_put_def wr split: if_splits)
qed

text \<open>An empty object of capacity \<open>c\<close>, already mapped by the two sides.\<close>

definition demo_world :: "u64 \<Rightarrow> shm_world" where
  "demo_world c = \<lparr>sw_mem = (\<lambda>m. init_header c (replicate (header_size + unat c) 0)), sw_calls = []\<rparr>"

definition demo_buffer :: "u64 \<Rightarrow> shm_buffer" where
  "demo_buffer c = \<lparr>shm_name = ''/m'', shm_fd = 5, shm_mapping = Some 0, shm_mappingSize = 24 + c, shm_cap = c,
     shm_ownsName = False\<rparr>"

definition demo_os :: shm_results where
  "demo_os = \<lparr>os_shm_open = 5, os_ftruncate = True, os_fstat = Some 26, os_mmap = Some 0, os_msync = True,
     os_unlink = True\<rparr>"

lemma demo_shared:
  "\<not> - 1 - 24 < c \<Longrightarrow> shm_shared (demo_world c) (demo_buffer c) (demo_buffer c)"
  by (simp add: shm_shared_def shm_wf_alt demo_world_def demo_buffer_def isValidSharedMemoryName_def
      hasValidHeader_init length_init_header unat_mapping_size)

lemma demo_shared_2: "shm_shared (demo_world 2) (demo_buffer 2) (demo_buffer 2)"
  by (rule demo_shared) simp

theorem shm_write_then_read_witness:
  "let (r, w', a') = shm_write demo_os (Some [7, 8]) 2 (demo_world 2, demo_buffer 2)
   in r \<and> shm_read (w', demo_buffer 2) = Some [7, 8] \<and> shm_shared w' a' (demo_buffer 2)"
proof -
  obtain r w' a' where w: "shm_write demo_os (Some [7, 8]) 2 (demo_world 2, demo_buffer 2) = (r, w', a')"
    by (metis prod_cases3)
  then have "shm_write demo_os (Some [7, 8]) (word_of_nat (length [7 :: byte, 8])) (demo_world 2, demo_buffer 2) = (r, w', a')"
    by simp
  from shm_write_then_read [OF demo_shared_2 this] show ?thesis
    by (simp add: w) (simp add: demo_buffer_def demo_os_def)
qed

text \<open>
  \<open>create\<close> in one process and \<open>open\<close> in another give two views of one object: when the kernel maps the
  object just created, \<open>open\<close> accepts its header, both sides agree on the capacity and the slot is empty.
\<close>

theorem shm_create_then_open:
  assumes "shm_wf (w, a0)" and "shm_create os c (w, a0) = (True, w1, a)" and "mmap_whole os w (header_size + unat c)"
    and "shm_wf (w1, b0)" and "\<not> shm_isOpen b0" and "isValidSharedMemoryName (shm_name b0)"
    and "os_shm_open os' \<ge> 0" and "os_fstat os' = Some (int (header_size + unat c))" and "os_mmap os' = os_mmap os"
  shows "\<exists>w2 b. shm_open os' (w1, b0) = (True, w2, b) \<and> shm_shared w2 a b \<and> shm_capacity b = c \<and>
    shm_read (w2, b) = Some []"
proof -
  have "fst (shm_create os c (w, a0))" using assms(2) by simp
  from shm_create_success [OF this] obtain m calls where
    v: "isValidSharedMemoryName (shm_name a0)" "os_shm_open os \<ge> 0" "unat (24 + c) = 24 + unat c" "os_mmap os = Some m"
    and e: "(w1, a) =
       (w\<lparr>sw_calls := calls, sw_mem := (sw_mem w)(m := init_header c (sw_mem w m))\<rparr>,
        a0\<lparr>shm_fd := os_shm_open os, shm_mappingSize := 24 + c, shm_ownsName := True,
          shm_mapping := Some m, shm_cap := c\<rparr>)"
    using assms(2) by (metis snd_conv)
  have len: "length (sw_mem w m) = 24 + unat c" using assms(3) v(4) by (simp add: mmap_whole_def)
  have hdr: "hasValidHeader (init_header c (sw_mem w m)) c" using len by (simp add: hasValidHeader_init)
  let ?w2 = "shm_log (Shm_mmap (os_shm_open os') (24 + c)) (shm_log (Shm_open (c_str (shm_name b0))) w1)"
  let ?b = "b0\<lparr>shm_fd := os_shm_open os', shm_mappingSize := 24 + c, shm_mapping := Some m, shm_cap := c\<rparr>"
  have op: "shm_open os' (w1, b0) = (True, ?w2, ?b)"
    using assms(5-9) v e hdr by (simp add: shm_open_def Let_def)
  have "shm_shared ?w2 a ?b"
    using e v hdr len assms(6,7) by (simp add: shm_shared_def shm_wf_alt length_init_header)
  moreover have "shm_read (?w2, ?b) = Some []"
    using e hdr len by (simp add: shm_read_def) (simp add: init_header_eq headerFrom_def)
  ultimately show ?thesis using op by (auto simp: shm_capacity_def shm_isOpen_def)
qed

theorem shm_create_then_open_witness:
  "let w = (demo_world 2)\<lparr>sw_mem := \<lambda>_. replicate 26 0\<rparr>; (r, w1, a) = shm_create demo_os 2 (w, new_shm ''/m'')
   in r \<and> (\<exists>w2 b. shm_open demo_os (w1, new_shm ''/m'') = (True, w2, b) \<and> shm_shared w2 a b \<and>
     shm_capacity b = 2 \<and> shm_read (w2, b) = Some [])"
proof -
  let ?w = "(demo_world 2)\<lparr>sw_mem := \<lambda>_. replicate 26 0\<rparr>"
  obtain r w1 a where c: "shm_create demo_os 2 (?w, new_shm ''/m'') = (r, w1, a)" by (metis prod_cases3)
  have r: "r = True"
    using c by (simp add: shm_create_def Let_def demo_os_def new_shm_def shm_isOpen_def isValidSharedMemoryName_def)
  have k: "mmap_whole demo_os ?w (header_size + unat (2 :: u64))" by (simp add: mmap_whole_def demo_os_def)
  note t = shm_create_then_open [OF shm_wf_new c [unfolded r] k shm_wf_new, of "''/m''" demo_os]
  show ?thesis
    using t by (simp add: c r) (simp add: demo_os_def new_shm_def shm_isOpen_def isValidSharedMemoryName_def)
qed

text \<open>
  Whatever another process has put into the mapped memory, \<open>read\<close> and \<open>size\<close> agree, never report more than the
  capacity and never touch a byte outside the mapping.
\<close>

theorem shm_read_in_bounds:
  assumes "shm_wf (w, b)"
  shows "case shm_read (w, b) of
      None \<Rightarrow> shm_size (w, b) = 0
    | Some bs \<Rightarrow> length bs = unat (shm_size (w, b)) \<and> length bs \<le> unat (shm_capacity b) \<and>
        header_size + length bs \<le> unat (shm_mappingSize b)"
proof (cases "shm_read (w, b)")
  case None
  then show ?thesis by (auto simp: shm_read_def shm_size_def Let_def split: option.splits if_splits)
next
  case (Some bs)
  then have "shm_isOpen b" by (auto simp: shm_read_def shm_isOpen_def split: option.splits)
  then show ?thesis using Some shm_read_bounds [OF assms Some] by (simp add: shm_capacity_def)
qed

theorem shm_read_in_bounds_witness:
  "shm_read (demo_world 2, demo_buffer 2) = Some [] \<and> shm_size (demo_world 2, demo_buffer 2) = 0"
proof -
  have r: "shm_read (demo_world 2, demo_buffer 2) = Some []"
    using hasValidHeader_init [of "replicate 26 0" 2]
    by (simp add: shm_read_def demo_world_def demo_buffer_def) (simp add: init_header_eq headerFrom_def)
  have "shm_wf (demo_world 2, demo_buffer 2)" using demo_shared_2 by (simp add: shm_shared_def)
  from shm_read_in_bounds [OF this] show ?thesis by (simp add: r unat_eq_zero)
qed

text \<open>
  C32. A \<open>create\<close> that fails leaves the buffer closed and no resource behind: once the kernel handed out a
  descriptor, the last calls close it and unlink the name.
\<close>

theorem shm_create_failure_clean:
  assumes "shm_wf (w, b)" and "\<not> shm_isOpen b" and "shm_create os c (w, b) = (False, w', b')"
  shows "\<not> shm_isOpen b' \<and> shm_wf (w', b') \<and>
    (\<exists>xs. sw_calls w' = sw_calls w @ xs \<and>
      (xs = [] \<or> os_shm_open os < 0 \<and> xs = [Shm_open (c_str (shm_name b))] \<or>
       (\<exists>ys. xs = Shm_open (c_str (shm_name b)) # ys @ [Shm_close (os_shm_open os), Shm_unlink (c_str (shm_name b))])))"
  using shm_create_closed [OF assms(1,2), of os c] shm_create_calls [of os c w b] assms(3) by simp

theorem shm_create_failure_clean_witness:
  "let (r, w', b') = shm_create (demo_os\<lparr>os_mmap := None\<rparr>) 2 (demo_world 2, new_shm ''/m'')
   in \<not> r \<and> \<not> shm_isOpen b' \<and> shm_wf (w', b')"
proof -
  obtain r w' b' where c: "shm_create (demo_os\<lparr>os_mmap := None\<rparr>) 2 (demo_world 2, new_shm ''/m'') = (r, w', b')"
    by (metis prod_cases3)
  have r: "r = False"
    using c by (simp add: shm_create_def Let_def demo_os_def new_shm_def shm_isOpen_def isValidSharedMemoryName_def)
  have "\<not> shm_isOpen (new_shm ''/m'')" by (simp add: new_shm_def shm_isOpen_def)
  from shm_create_failure_clean [OF shm_wf_new this c [unfolded r]] show ?thesis by (simp add: c r)
qed

end
