(* ===== verification/Event_Loop.thy ===== *)
theory Event_Loop
  imports Prelude
begin

section \<open>Event loop and channels\<close>

text \<open>
  \<open>src/channel.cpp\<close> and \<open>src/event_loop.cpp\<close>. A channel is a descriptor with its event mask and
  callbacks. The event loop keeps the table \<open>channels_\<close> beside the kernel's interest list, and \<open>run\<close> hands each reported
  event to the callback its mask selects. A callback is run by an argument that may change the loop and its own world,
  since callbacks add and remove channels while a batch of events is processed. The kernel keeps one entry per
  descriptor (\<open>EEXIST\<close>, \<open>ENOENT\<close>) and may refuse a call for other reasons, which is the argument \<open>permitted\<close>.
\<close>

subsection \<open>Channel\<close>

record 'cb channel =
  ch_fd :: int
  ch_events :: u32
  ch_revents :: u32
  ch_readCallback :: "'cb option"
  ch_writeCallback :: "'cb option"
  ch_errorCallback :: "'cb option"

definition new_channel :: "int \<Rightarrow> 'cb channel" where
  "new_channel fd = \<lparr>ch_fd = fd, ch_events = 0, ch_revents = 0, ch_readCallback = None, ch_writeCallback = None,
     ch_errorCallback = None\<rparr>"

definition setEvents :: "u32 \<Rightarrow> 'cb channel \<Rightarrow> 'cb channel" where
  "setEvents events c = c\<lparr>ch_events := events\<rparr>"

definition setRevents :: "u32 \<Rightarrow> 'cb channel \<Rightarrow> 'cb channel" where
  "setRevents revents c = c\<lparr>ch_revents := revents\<rparr>"

definition setReadCallback :: "'cb \<Rightarrow> 'cb channel \<Rightarrow> 'cb channel" where
  "setReadCallback callback c = c\<lparr>ch_readCallback := Some callback\<rparr>"

definition setWriteCallback :: "'cb \<Rightarrow> 'cb channel \<Rightarrow> 'cb channel" where
  "setWriteCallback callback c = c\<lparr>ch_writeCallback := Some callback\<rparr>"

definition setErrorCallback :: "'cb \<Rightarrow> 'cb channel \<Rightarrow> 'cb channel" where
  "setErrorCallback callback c = c\<lparr>ch_errorCallback := Some callback\<rparr>"

definition EPOLLIN :: u32 where "EPOLLIN = 0x1"
definition EPOLLOUT :: u32 where "EPOLLOUT = 0x4"
definition EPOLLERR :: u32 where "EPOLLERR = 0x8"
definition EPOLLHUP :: u32 where "EPOLLHUP = 0x10"
definition EPOLLRDHUP :: u32 where "EPOLLRDHUP = 0x2000"

unbundle bit_operations_syntax

text \<open>The callback that \<open>handleEvent\<close> runs.\<close>

definition handleEvent :: "'cb channel \<Rightarrow> 'cb option" where
  "handleEvent c =
     (if ch_revents c AND (EPOLLERR OR EPOLLHUP) \<noteq> 0 then ch_errorCallback c
      else if ch_revents c AND (EPOLLIN OR EPOLLRDHUP) \<noteq> 0 then ch_readCallback c
      else if ch_revents c AND EPOLLOUT \<noteq> 0 then ch_writeCallback c
      else None)"

subsection \<open>Event loop\<close>

record 'cb event_loop =
  el_running :: bool
  el_channels :: "(int, 'cb channel) umap"
  el_interest :: "(int, u32) umap"

definition new_event_loop :: "'cb event_loop" where
  "new_event_loop = \<lparr>el_running = False, el_channels = [], el_interest = []\<rparr>"

definition addChannel :: "bool \<Rightarrow> 'cb channel \<Rightarrow> 'cb event_loop \<Rightarrow> bool \<times> 'cb event_loop" where
  "addChannel permitted channel l =
     (let fd = ch_fd channel in
      if \<not> permitted \<or> um_find (el_interest l) fd \<noteq> None then (False, l)
      else (True, l\<lparr>el_interest := um_set fd (ch_events channel) (el_interest l),
                    el_channels := um_set fd channel (el_channels l)\<rparr>))"

definition removeChannel :: "bool \<Rightarrow> 'cb channel \<Rightarrow> 'cb event_loop \<Rightarrow> bool \<times> 'cb event_loop" where
  "removeChannel permitted channel l =
     (let fd = ch_fd channel in
      if \<not> permitted \<or> um_find (el_interest l) fd = None then (False, l)
      else (True, l\<lparr>el_interest := um_erase fd (el_interest l), el_channels := um_erase fd (el_channels l)\<rparr>))"

text \<open>Closing a descriptor takes it off the kernel's interest list; the table of the loop does not notice.\<close>

definition close_fd :: "int \<Rightarrow> 'cb event_loop \<Rightarrow> 'cb event_loop" where
  "close_fd fd l = l\<lparr>el_interest := um_erase fd (el_interest l)\<rparr>"

text \<open>\<open>run\<close>: the events of one \<open>epoll_wait\<close>, then the loop over what \<open>epoll_wait\<close> returns.\<close>

fun dispatch :: "('cb \<Rightarrow> 'cb event_loop \<times> 'w \<Rightarrow> 'cb event_loop \<times> 'w) \<Rightarrow> (int \<times> u32) list \<Rightarrow>
    'cb event_loop \<times> 'w \<Rightarrow> 'cb event_loop \<times> 'w" where
  "dispatch run [] s = s"
| "dispatch run ((fd, revents) # events) (l, w) =
     (case um_find (el_channels l) fd of
        None \<Rightarrow> dispatch run events (l, w)
      | Some channel \<Rightarrow>
          (let c = setRevents revents channel;
               l1 = l\<lparr>el_channels := um_set fd c (el_channels l)\<rparr>
           in dispatch run events (case handleEvent c of None \<Rightarrow> (l1, w) | Some cb \<Rightarrow> run cb (l1, w))))"

fun run_loop :: "('cb \<Rightarrow> 'cb event_loop \<times> 'w \<Rightarrow> 'cb event_loop \<times> 'w) \<Rightarrow> (int \<times> u32) list sys_result list \<Rightarrow>
    'cb event_loop \<times> 'w \<Rightarrow> ('cb event_loop \<times> 'w) option" where
  "run_loop run [] (l, w) = (if el_running l then None else Some (l, w))"
| "run_loop run (r # rs) (l, w) =
     (if \<not> el_running l then Some (l, w)
      else case r of
        Sys_ok events \<Rightarrow> run_loop run rs (dispatch run events (l, w))
      | Sys_EINTR \<Rightarrow> run_loop run rs (l, w)
      | _ \<Rightarrow> Some (l\<lparr>el_running := False\<rparr>, w))"

definition loop_run :: "('cb \<Rightarrow> 'cb event_loop \<times> 'w \<Rightarrow> 'cb event_loop \<times> 'w) \<Rightarrow> (int \<times> u32) list sys_result list \<Rightarrow>
    'cb event_loop \<times> 'w \<Rightarrow> ('cb event_loop \<times> 'w) option" where
  "loop_run run results s = run_loop run results ((fst s)\<lparr>el_running := True\<rparr>, snd s)"

definition loop_stop :: "'cb event_loop \<Rightarrow> 'cb event_loop" where
  "loop_stop l = l\<lparr>el_running := False\<rparr>"

subsection \<open>The table follows the kernel\<close>

definition loop_inv :: "'cb event_loop \<Rightarrow> bool" where
  "loop_inv l \<longleftrightarrow> (\<forall>fd. um_find (el_interest l) fd = map_option ch_events (um_find (el_channels l) fd)) \<and>
     (\<forall>fd c. um_find (el_channels l) fd = Some c \<longrightarrow> ch_fd c = fd)"

lemma loop_inv_new: "loop_inv new_event_loop"
  by (simp add: loop_inv_def new_event_loop_def)

lemma loop_inv_addChannel:
  "loop_inv l \<Longrightarrow> addChannel permitted c l = (ok, l') \<Longrightarrow> loop_inv l' \<and>
     (if ok then um_find (el_channels l') (ch_fd c) = Some c \<and> um_find (el_channels l) (ch_fd c) = None else l' = l)"
  by (auto simp: loop_inv_def addChannel_def edgelink_simps Let_def split: if_splits)

lemma loop_inv_removeChannel:
  "loop_inv l \<Longrightarrow> removeChannel permitted c l = (ok, l') \<Longrightarrow> loop_inv l' \<and>
     (if ok then um_find (el_channels l') (ch_fd c) = None else l' = l)"
  by (auto simp: loop_inv_def removeChannel_def edgelink_simps Let_def split: if_splits)

lemma loop_inv_close: "loop_inv l \<Longrightarrow> um_find (el_channels l) fd = None \<Longrightarrow> loop_inv (close_fd fd l)"
  by (auto simp: loop_inv_def close_fd_def edgelink_simps)

text \<open>What an operation does to the table and to the interest list.\<close>

lemma addChannel_find:
  "addChannel permitted c l = (ok, l') \<Longrightarrow>
     (ok \<longleftrightarrow> permitted \<and> um_find (el_interest l) (ch_fd c) = None) \<and>
     um_find (el_interest l') x = (if ok \<and> x = ch_fd c then Some (ch_events c) else um_find (el_interest l) x)"
  by (auto simp: addChannel_def edgelink_simps Let_def split: if_splits)

lemma removeChannel_find:
  "removeChannel permitted c l = (ok, l') \<Longrightarrow>
     (ok \<longleftrightarrow> permitted \<and> um_find (el_interest l) (ch_fd c) \<noteq> None) \<and>
     um_find (el_interest l') x = (if ok \<and> x = ch_fd c then None else um_find (el_interest l) x)"
  by (auto simp: removeChannel_def edgelink_simps Let_def split: if_splits)

lemma close_fd_find: "um_find (el_interest (close_fd fd l)) x = (if x = fd then None else um_find (el_interest l) x)"
  by (simp add: close_fd_def edgelink_simps)

lemma loop_inv_revents:
  "loop_inv l \<Longrightarrow> um_find (el_channels l) fd = Some c \<Longrightarrow>
     loop_inv (l\<lparr>el_channels := um_set fd (setRevents r c) (el_channels l)\<rparr>)"
  by (auto simp: loop_inv_def setRevents_def edgelink_simps)

lemma loop_inv_dispatch:
  "loop_inv (fst s) \<Longrightarrow> (\<And>cb l w. loop_inv l \<Longrightarrow> loop_inv (fst (run cb (l, w)))) \<Longrightarrow> loop_inv (fst (dispatch run events s))"
proof (induction run events s rule: dispatch.induct)
  case (2 run fd revents events l w)
  show ?case
  proof (cases "um_find (el_channels l) fd")
    case None
    then show ?thesis using 2 by simp
  next
    case (Some c)
    let ?l1 = "l\<lparr>el_channels := um_set fd (setRevents revents c) (el_channels l)\<rparr>"
    have "loop_inv ?l1" using "2.prems"(1) loop_inv_revents [OF _ Some] by simp
    then have "loop_inv (fst (case handleEvent (setRevents revents c) of None \<Rightarrow> (?l1, w) | Some cb \<Rightarrow> run cb (?l1, w)))"
      by (simp add: "2.prems"(2) split: option.splits)
    then show ?thesis using "2.IH"(2) [OF Some refl refl] "2.prems"(2) Some by (simp add: Let_def)
  qed
qed simp

lemma loop_inv_run_loop:
  assumes run: "\<And>cb l w. loop_inv l \<Longrightarrow> loop_inv (fst (run cb (l, w)))"
  shows "loop_inv l \<Longrightarrow> run_loop run results (l, w) = Some s' \<Longrightarrow> loop_inv (fst s') \<and> \<not> el_running (fst s')"
proof (induction results arbitrary: l w)
  case Nil
  then show ?case by (auto split: if_splits)
next
  case (Cons r rs)
  obtain l1 w1 where d: "(case r of Sys_ok events \<Rightarrow> dispatch run events (l, w) | _ \<Rightarrow> (l, w)) = (l1, w1)"
    by (metis surj_pair)
  have "loop_inv l1"
    using d Cons.prems(1) loop_inv_dispatch [of "(l, w)" run, OF _ run] by (cases r) (auto, metis fst_conv)
  then show ?case
    using Cons.IH [of l1 w1] Cons.prems d
    by (cases r; cases "el_running l") (auto simp: loop_inv_def)
qed


text \<open>A callback that replaces the mask of descriptor 5, and one that stops the loop.\<close>

fun demo_run :: "nat \<Rightarrow> nat event_loop \<times> unit \<Rightarrow> nat event_loop \<times> unit" where
  "demo_run 0 (l, w) = (loop_stop l, w)"
| "demo_run (Suc n) (l, w) =
     (snd (addChannel True (setReadCallback 0 (setEvents EPOLLIN (new_channel 5)))
       (snd (removeChannel True (new_channel 5) l))), w)"

lemma demo_run_inv: "loop_inv l \<Longrightarrow> loop_inv (fst (demo_run cb (l, w)))"
proof (cases cb)
  case 0
  assume "loop_inv l"
  then show ?thesis using 0 by (simp add: loop_stop_def loop_inv_def)
next
  case (Suc n)
  assume "loop_inv l"
  then show ?thesis using Suc loop_inv_addChannel loop_inv_removeChannel by (metis demo_run.simps(2) fst_conv prod.collapse)
qed

definition demo_loop :: "nat event_loop" where
  "demo_loop = snd (addChannel True (setReadCallback 1 (setEvents EPOLLOUT (new_channel 5))) new_event_loop)"


end
