(* ===== verification/Ipc_Bridge.thy ===== *)
theory Ipc_Bridge
  imports Ipc_Codec Shared_Memory Event_Loop
begin

section \<open>Cross-process messages: eventfd notifier and shared-memory bridge\<close>

text \<open>
  \<open>src/eventfd_notifier.cpp\<close> and \<open>src/shared_memory_message_bridge.cpp\<close>. A sender encodes a message, writes it to
  the shared slot and notifies; the receiver's bridge reads the slot, decodes and publishes on the local bus. The
  results of \<open>read\<close> and \<open>write\<close> on the eventfd are lists consumed by the retry loops.
\<close>

subsection \<open>The notifier\<close>

record 'cb notifier =
  nt_eventFd :: int
  nt_callback :: "'cb option"

datatype notifier_error = Nt_NoLoop | Nt_NoEventFd | Nt_ChannelRefused

text \<open>
  Constructor: the result (or the exception), the loop and the descriptors it closed on the way out. \<open>onRead\<close> is the
  callback that runs \<open>handleRead\<close>, \<open>onError\<close> the one that logs; \<open>permitted\<close> says whether \<open>epoll_ctl\<close> succeeds.
\<close>

definition notifier_channel :: "'c \<Rightarrow> 'c \<Rightarrow> int \<Rightarrow> 'c channel" where
  "notifier_channel onRead onError eventFd =
     setErrorCallback onError (setReadCallback onRead (setEvents EPOLLIN (new_channel eventFd)))"

definition new_notifier :: "'c \<Rightarrow> 'c \<Rightarrow> int \<Rightarrow> bool \<Rightarrow> 'c event_loop option \<Rightarrow>
    (notifier_error + 'cb notifier) \<times> 'c event_loop option \<times> int list" where
  "new_notifier onRead onError eventFd permitted loop =
     (case loop of
        None \<Rightarrow> (Inl Nt_NoLoop, None, if eventFd \<ge> 0 then [eventFd] else [])
      | Some l \<Rightarrow>
          if eventFd < 0 then (Inl Nt_NoEventFd, loop, [])
          else (let (added, l') = addChannel permitted (notifier_channel onRead onError eventFd) l in
            if \<not> added then (Inl Nt_ChannelRefused, Some (close_fd eventFd l'), [eventFd])
            else (Inr \<lparr>nt_eventFd = eventFd, nt_callback = None\<rparr>, Some l', [])))"

definition destroy_notifier :: "bool \<Rightarrow> 'cb notifier \<Rightarrow> 'c event_loop \<Rightarrow> 'cb notifier \<times> 'c event_loop \<times> int list" where
  "destroy_notifier permitted n l =
     (if nt_eventFd n \<ge> 0
      then (n\<lparr>nt_eventFd := - 1\<rparr>,
            close_fd (nt_eventFd n) (snd (removeChannel permitted (new_channel (nt_eventFd n)) l)), [nt_eventFd n])
      else (n, l, []))"

definition setCallback :: "'cb option \<Rightarrow> 'cb notifier \<Rightarrow> 'cb notifier" where
  "setCallback callback n = n\<lparr>nt_callback := callback\<rparr>"

text \<open>\<open>Sys_ok ()\<close> is a write of all eight bytes; a short write is \<open>Sys_error\<close>.\<close>

definition notify :: "unit sys_result list \<Rightarrow> u64 \<Rightarrow> 'cb notifier \<Rightarrow> bool option" where
  "notify results count n =
     (if nt_eventFd n < 0 \<or> count = 0 \<or> count = - 1 then Some False
      else (case retry_eintr results of
              None \<Rightarrow> None
            | Some (r, _) \<Rightarrow> Some (r = Sys_ok ())))"

text \<open>\<open>Sys_ok count\<close> is a read of eight bytes. The callback's exceptions are caught.\<close>

definition handleRead :: "('cb \<Rightarrow> u64 \<Rightarrow> 'w \<Rightarrow> 'w) \<Rightarrow> u64 sys_result list \<Rightarrow> 'cb notifier \<Rightarrow> 'w \<Rightarrow> 'w option" where
  "handleRead run results n w =
     (case retry_eintr results of
        None \<Rightarrow> None
      | Some (Sys_ok count, _) \<Rightarrow>
          Some (case nt_callback n of None \<Rightarrow> w | Some callback \<Rightarrow> run callback count w)
      | Some (_, _) \<Rightarrow> Some w)"

subsection \<open>The bridge\<close>

record bridge =
  br_running :: bool
  br_forwardedMessageCount :: u64
  br_failedMessageCount :: u64

definition new_bridge :: bridge where
  "new_bridge = \<lparr>br_running = False, br_forwardedMessageCount = 0, br_failedMessageCount = 0\<rparr>"

text \<open>The notifier's callback: the bridge's \<open>handleNotification\<close>, or some other one.\<close>

datatype notification_callback = Bridge_handleNotification | Other_callback nat

definition bridge_start :: "shm_buffer \<Rightarrow> notification_callback notifier \<times> bridge \<Rightarrow>
    bool \<times> notification_callback notifier \<times> bridge" where
  "bridge_start buffer s =
     (let (n, br) = s in
      if br_running br then (True, s)
      else if \<not> shm_isOpen buffer \<or> nt_eventFd n < 0 then (False, s)
      else (True, setCallback (Some Bridge_handleNotification) n, br\<lparr>br_running := True\<rparr>))"

definition bridge_stop :: "notification_callback notifier \<times> bridge \<Rightarrow> notification_callback notifier \<times> bridge" where
  "bridge_stop s =
     (let (n, br) = s in
      if \<not> br_running br then s else (setCallback None n, br\<lparr>br_running := False\<rparr>))"

definition send :: "shm_results \<Rightarrow> unit sys_result list \<Rightarrow> message \<Rightarrow> 'cb notifier \<Rightarrow> shm_state \<Rightarrow>
    (bool \<times> shm_state) option" where
  "send os results m n s =
     (case encode m of
        None \<Rightarrow> Some (False, s)
      | Some encodedMessage \<Rightarrow>
          (let (written, s') = shm_write os (Some encodedMessage) (word_of_nat (length encodedMessage)) s in
           if written then map_option (\<lambda>r. (r, s')) (notify results 1 n) else Some (False, s')))"

definition handleNotification ::
  "('cb \<Rightarrow> message \<Rightarrow> 'w \<times> 'cb bus \<Rightarrow> bool \<times> 'w \<times> 'cb bus) \<Rightarrow> shm_state \<Rightarrow> u64 \<Rightarrow>
     bridge \<times> 'w \<times> 'cb bus \<Rightarrow> bridge \<times> 'w \<times> 'cb bus" where
  "handleNotification run buffer count s =
     (let (br, wb) = s in
      if count = 0 then s
      else (case shm_read buffer of
              None \<Rightarrow> (br\<lparr>br_failedMessageCount := br_failedMessageCount br + 1\<rparr>, wb)
            | Some encodedMessage \<Rightarrow>
                (case decode encodedMessage default_message of
                   (False, _) \<Rightarrow> (br\<lparr>br_failedMessageCount := br_failedMessageCount br + 1\<rparr>, wb)
                 | (True, message) \<Rightarrow>
                     (br\<lparr>br_forwardedMessageCount := br_forwardedMessageCount br + 1\<rparr>, snd (publish run message wb)))))"

definition forwardedMessageCount :: "bridge \<Rightarrow> u64" where
  "forwardedMessageCount br = br_forwardedMessageCount br"

definition failedMessageCount :: "bridge \<Rightarrow> u64" where
  "failedMessageCount br = br_failedMessageCount br"

subsection \<open>Codec and slot together\<close>

locale ipc_link = codec: message_codec enc dec + slot: byte_slot put get invar
  for enc :: "'m \<Rightarrow> bytes option" and dec :: "bytes \<Rightarrow> 'm \<Rightarrow> bool \<times> 'm"
    and put :: "bytes \<Rightarrow> 's \<Rightarrow> bool \<times> 's" and get :: "'s \<Rightarrow> bytes option" and invar :: "'s \<Rightarrow> bool"
begin

lemma link_delivers:
  "invar s \<Longrightarrow> enc m = Some bs \<Longrightarrow> length bs < 2 ^ 64 \<Longrightarrow> put bs s = (True, s') \<Longrightarrow>
     \<exists>bs'. get s' = Some bs' \<and> dec bs' m0 = (True, m)"
  using slot.put_get codec.dec_enc by blast

lemma link_overwrites:
  "invar s \<Longrightarrow> enc m = Some bs \<Longrightarrow> length bs < 2 ^ 64 \<Longrightarrow> enc m' = Some bs' \<Longrightarrow> length bs' < 2 ^ 64 \<Longrightarrow>
     put bs' (snd (put bs s)) = (True, s') \<Longrightarrow> \<exists>b. get s' = Some b \<and> dec b m0 = (True, m')"
  using link_delivers slot.put_invar by blast

end

interpretation link: ipc_link encode decode "slot_put os" "\<lambda>(w, a, b). shm_read (w, b)" "\<lambda>(w, a, b). shm_shared w a b"
  by unfold_locales

lemma length_encode: "encode m = Some bs \<Longrightarrow> length bs < 2 ^ 64"
  by (auto simp: encode_eq length_frame encodable_def maxLength_def split: if_splits)

lemma send_True:
  assumes "send os rs m n (w, a) = Some (True, w', a')"
  obtains bs where "encode m = Some bs" "slot_put os bs (w, a, b) = (True, w', a', b)"
  using assms
  by (auto simp: send_def slot_put_def Let_def split: option.splits prod.splits if_splits)

lemma send_read:
  assumes "shm_shared w a b" and "send os rs m n (w, a) = Some (True, w', a')"
  shows "\<exists>bs. shm_read (w', b) = Some bs \<and> decode bs m0 = (True, m)"
proof -
  obtain bs where bs: "encode m = Some bs" "slot_put os bs (w, a, b) = (True, w', a', b)"
    using assms(2) by (rule send_True)
  have "\<exists>bs'. (case (w', a', b) of (w, a, b) \<Rightarrow> shm_read (w, b)) = Some bs' \<and> decode bs' m0 = (True, m)"
    by (rule link.link_delivers [OF _ bs(1) length_encode [OF bs(1)] bs(2)]) (use assms(1) in simp)
  then show ?thesis by simp
qed

lemma handleNotification_read:
  "shm_read buffer = Some bs \<Longrightarrow> decode bs default_message = (True, m) \<Longrightarrow> count \<noteq> 0 \<Longrightarrow>
     handleNotification run buffer count (br, wb) =
       (br\<lparr>br_forwardedMessageCount := br_forwardedMessageCount br + 1\<rparr>, snd (publish run m wb))"
  by (simp add: handleNotification_def)

text \<open>
  C7. End to end: once \<open>send\<close> has returned true in one process, the next notification in the other makes its bridge
  publish exactly that message on its bus, whatever the accumulated eventfd count, and counts one forwarded
  message and no failure.
\<close>

theorem bridge_delivers:
  assumes "shm_shared w a b" and "send os rs m n (w, a) = Some (True, w', a')" and "count \<noteq> 0"
  shows "handleNotification run (w', b) count (br, wb) =
    (br\<lparr>br_forwardedMessageCount := br_forwardedMessageCount br + 1\<rparr>, snd (publish run m wb))"
  using send_read [OF assms(1,2)] handleNotification_read assms(3) by blast

theorem bridge_delivers_witness:
  "let m = default_message\<lparr>msg_topic := ''t''\<rparr>;
       n = \<lparr>nt_eventFd = 3, nt_callback = None\<rparr> :: unit notifier;
       bus = \<lparr>bus_nextSubscriptionId = 2, bus_subscribers = [(''t'', [(1, ())])], bus_subscriptionTopics = [(1, ''t'')]\<rparr>
   in \<exists>w' a'. send demo_os [Sys_EINTR, Sys_ok ()] m n (demo_world 64, demo_buffer 64) = Some (True, w', a') \<and>
      handleNotification (\<lambda>cb m (w, b). (True, w @ [m], b)) (w', demo_buffer 64) 3 (new_bridge, [], bus) =
        (new_bridge\<lparr>br_forwardedMessageCount := 1\<rparr>, [m], bus)"
proof -
  let ?m = "default_message\<lparr>msg_topic := ''t''\<rparr>" and ?n = "\<lparr>nt_eventFd = 3, nt_callback = None\<rparr> :: unit notifier"
  let ?bus = "\<lparr>bus_nextSubscriptionId = 2, bus_subscribers = [(''t'', [(1, ())])], bus_subscriptionTopics = [(1, ''t'')]\<rparr>"
  have sh: "shm_shared (demo_world 64) (demo_buffer 64) (demo_buffer 64)" by (rule demo_shared) simp
  have e: "encode ?m = Some (frame ?m)" and l: "length (frame ?m) = 37"
    by (simp_all add: encode_eq encodable_def length_frame default_message_def maxLength_def)
  obtain m0 where m0: "shm_mapping (demo_buffer 64) = Some m0" by (simp add: demo_buffer_def)
  have "length (frame ?m) \<le> unat (shm_cap (demo_buffer 64))" by (simp add: l demo_buffer_def)
  note w = shm_write_eq [OF m0 this, of demo_os "demo_world 64"]
  have nt: "notify [Sys_EINTR, Sys_ok ()] 1 ?n = Some True" by (simp add: notify_def)
  obtain w' a' where s: "send demo_os [Sys_EINTR, Sys_ok ()] ?m ?n (demo_world 64, demo_buffer 64) = Some (True, w', a')"
    by (simp add: send_def e w) (simp add: demo_os_def nt)
  note t = bridge_delivers [OF sh s, of 3 "\<lambda>cb m (w, b). (True, w @ [m], b)" new_bridge "([], ?bus)"]
  show ?thesis
    using s t by (simp add: publish_def new_bridge_def default_message_def Let_def)
qed

text \<open>Every notification with a non-zero count is accounted for exactly once.\<close>

lemma handleNotification_accounts:
  assumes "handleNotification run buf count (br, wb) = (br', wb')"
  shows "forwardedMessageCount br' + failedMessageCount br' =
      forwardedMessageCount br + failedMessageCount br + (if count = 0 then 0 else 1)"
    and "forwardedMessageCount br' = forwardedMessageCount br \<Longrightarrow> wb' = wb"
  using assms
  by (auto simp: handleNotification_def forwardedMessageCount_def failedMessageCount_def
      split: if_splits option.splits prod.splits bool.splits)

text \<open>A run of the receiver: one buffer content and eventfd count per notification.\<close>

fun bridge_run :: "('cb \<Rightarrow> message \<Rightarrow> 'w \<times> 'cb bus \<Rightarrow> bool \<times> 'w \<times> 'cb bus) \<Rightarrow> (shm_state \<times> u64) list \<Rightarrow>
    bridge \<times> 'w \<times> 'cb bus \<Rightarrow> bridge \<times> 'w \<times> 'cb bus" where
  "bridge_run run [] s = s"
| "bridge_run run ((buffer, count) # ns) s = bridge_run run ns (handleNotification run buffer count s)"

text \<open>
  Over any run of notifications, with any content of the shared memory, the two counters together grow by the
  number of notifications with a non-zero count (modulo \<open>2\<^sup>6\<^sup>4\<close>): no message is counted twice or forgotten.
\<close>

theorem bridge_accounts_every_notification:
  assumes "bridge_run run ns (br, wb) = (br', wb')"
  shows "forwardedMessageCount br' + failedMessageCount br' =
    forwardedMessageCount br + failedMessageCount br + word_of_nat (length (filter (\<lambda>n. snd n \<noteq> 0) ns))"
  using assms
proof (induction ns arbitrary: br wb)
  case (Cons n ns)
  obtain buf count where n: "n = (buf, count)" by fastforce
  obtain br1 wb1 where h: "handleNotification run buf count (br, wb) = (br1, wb1)" by (metis surj_pair)
  have "bridge_run run ns (br1, wb1) = (br', wb')" using Cons.prems by (simp add: n h)
  from Cons.IH [OF this] handleNotification_accounts(1) [OF h] show ?case by (simp add: n)
qed simp

theorem bridge_accounts_every_notification_witness:
  "let (br', _) = bridge_run (\<lambda>cb m s. (True, s)) [((demo_world 2, demo_buffer 2), 4), ((demo_world 2, demo_buffer 2), 0)]
     (new_bridge, (), empty_bus :: unit bus)
   in forwardedMessageCount br' + failedMessageCount br' = 1"
proof -
  let ?ns = "[((demo_world 2, demo_buffer 2), 4 :: u64), ((demo_world 2, demo_buffer 2), 0)]"
  obtain br' wb' where r: "bridge_run (\<lambda>cb m s. (True, s)) ?ns (new_bridge, (), empty_bus :: unit bus) = (br', wb')"
    by (metis surj_pair)
  from bridge_accounts_every_notification [OF r] show ?thesis
    by (simp only: r) (simp add: forwardedMessageCount_def failedMessageCount_def new_bridge_def)
qed

text \<open>\<open>notify\<close> returns as soon as the kernel answers with something else than \<open>EINTR\<close>.\<close>

lemma notify_returns:
  "\<exists>r \<in> set rs. r \<noteq> Sys_EINTR \<Longrightarrow> \<exists>b. notify rs count n = Some b"
  using retry_eintr_total [of rs] by (auto simp: notify_def)

lemma notify_True:
  "notify rs count n = Some True \<longleftrightarrow>
     nt_eventFd n \<ge> 0 \<and> count \<noteq> 0 \<and> count \<noteq> - 1 \<and> (\<exists>k rest. rs = replicate k Sys_EINTR @ Sys_ok () # rest)"
proof -
  have "(\<exists>r rest. retry_eintr rs = Some (r, rest) \<and> r = Sys_ok ()) \<longleftrightarrow>
      (\<exists>k rest. rs = replicate k Sys_EINTR @ Sys_ok () # rest)"
    by (auto simp: retry_eintr_Some)
  then show ?thesis by (auto simp: notify_def split: option.splits)
qed

text \<open>After \<open>stop\<close> the notifier never enters the bridge again.\<close>

lemma handleRead_stopped:
  assumes "bridge_stop (n, br) = (n', br')" and "br_running br" and "retry_eintr rs \<noteq> None"
  shows "handleRead run rs n' w = Some w"
  using assms by (auto simp: bridge_stop_def setCallback_def handleRead_def split: option.splits sys_result.splits)

end
