(* ===== verification/Shm_Races.thy ===== *)
theory Shm_Races
  imports Ipc_Bridge
begin

section \<open>Reads and writes of the shared memory at the same time\<close>

text \<open>
  \<open>read\<close> and \<open>write\<close> of \<open>src/shared_memory_buffer.cpp\<close> take no lock, so a reader in one process can overlap with writers in
  others. Here both are sequences of single accesses to the mapping: \<open>read\<close> checks the header, loads the data size a second
  time and copies byte by byte; \<open>write\<close> copies byte by byte and then stores the size. \<open>Shared_Memory\<close> has the two without
  interruption; the lemmas \<open>read_alone_shm_read\<close> and \<open>write_alone_stored\<close> say that the steps agree with it.
\<close>

subsection \<open>The accesses\<close>

datatype read_pc = Rd_check | Rd_load | Rd_copy nat bytes | Rd_done "bytes option"

text \<open>\<open>None\<close> is an access outside the mapping.\<close>

definition read_step :: "u64 \<Rightarrow> bytes \<Rightarrow> read_pc \<Rightarrow> read_pc option" where
  "read_step capacity mapping pc =
     (case pc of
        Rd_check \<Rightarrow> Some (if hasValidHeader mapping capacity then Rd_load else Rd_done None)
      | Rd_load \<Rightarrow>
          (let dataSize = unat (sh_dataSize (headerFrom mapping))
           in Some (if dataSize > 0 then Rd_copy dataSize [] else Rd_done (Some [])))
      | Rd_copy dataSize output \<Rightarrow>
          (let i = header_size + length output; output' = output @ [mapping ! i]
           in if length mapping \<le> i then None
              else Some (if length output' = dataSize then Rd_done (Some output') else Rd_copy dataSize output'))
      | Rd_done r \<Rightarrow> Some (Rd_done r))"

datatype write_pc = Wr_begin bytes | Wr_copy bytes nat | Wr_size bytes | Wr_done bool

definition write_step :: "u64 \<Rightarrow> bytes \<Rightarrow> write_pc \<Rightarrow> bytes \<times> write_pc" where
  "write_step capacity mapping pc =
     (case pc of
        Wr_begin data \<Rightarrow>
          (mapping, if length data > unat capacity then Wr_done False
                    else if data = [] then Wr_size data else Wr_copy data 0)
      | Wr_copy data k \<Rightarrow>
          (poke (header_size + k) [data ! k] mapping, if Suc k = length data then Wr_size data else Wr_copy data (Suc k))
      | Wr_size data \<Rightarrow> (poke 16 (pod_bytes (word_of_nat (length data) :: u64)) mapping, Wr_done True)
      | Wr_done r \<Rightarrow> (mapping, Wr_done r))"

subsection \<open>Without interruption\<close>

fun read_alone :: "nat \<Rightarrow> u64 \<Rightarrow> bytes \<Rightarrow> read_pc \<Rightarrow> read_pc option" where
  "read_alone 0 capacity mapping pc = Some pc"
| "read_alone (Suc n) capacity mapping pc = Option.bind (read_step capacity mapping pc) (read_alone n capacity mapping)"

lemma read_alone_copy:
  assumes "header_size + n \<le> length mapping" and "length out + Suc k = n" and "out = take (length out) (dataFrom mapping)"
  shows "read_alone (Suc k) capacity mapping (Rd_copy n out) = Some (Rd_done (Some (take n (dataFrom mapping))))"
  using assms(2,3)
proof (induction k arbitrary: out)
  case (0 out)
  have "length out < length (dataFrom mapping)" using assms(1) 0(1) by (simp add: dataFrom_def)
  then have "out @ [mapping ! (24 + length out)] = take n (dataFrom mapping)"
    using 0 assms(1) take_Suc_conv_app_nth [of "length out" "dataFrom mapping"] by (simp add: dataFrom_def)
  moreover have "n \<le> length (dataFrom mapping)" using assms(1) by (simp add: dataFrom_def)
  ultimately show ?case using 0(1) assms(1) by (simp add: read_step_def Let_def min_absorb2)
next
  case (Suc k out)
  let ?next = "out @ [mapping ! (24 + length out)]"
  have "length out < length (dataFrom mapping)" using assms(1) Suc.prems(1) by (simp add: dataFrom_def)
  then have "?next = take (length ?next) (dataFrom mapping)"
    using Suc.prems assms(1) take_Suc_conv_app_nth [of "length out" "dataFrom mapping"] by (simp add: dataFrom_def)
  with Suc.IH [of ?next] Suc.prems(1)
  have "read_alone (Suc k) capacity mapping (Rd_copy n ?next) = Some (Rd_done (Some (take n (dataFrom mapping))))" by simp
  moreover have "read_step capacity mapping (Rd_copy n out) = Some (Rd_copy n ?next)"
    using Suc.prems(1) assms(1) by (simp add: read_step_def Let_def)
  ultimately show ?case unfolding read_alone.simps(2) [of "Suc k"] by simp
qed

lemma read_alone_shm_read:
  assumes "shm_mapping b = Some m" and "length (sw_mem w m) = header_size + unat (shm_cap b)"
  shows "\<exists>n. read_alone n (shm_cap b) (sw_mem w m) Rd_check = Some (Rd_done (shm_read (w, b)))"
proof (cases "hasValidHeader (sw_mem w m) (shm_cap b)")
  case False
  then show ?thesis using assms(1) by (intro exI [of _ "Suc 0"]) (simp add: shm_read_def read_step_def)
next
  case True
  let ?n = "unat (sh_dataSize (headerFrom (sw_mem w m)))"
  have le: "header_size + ?n \<le> length (sw_mem w m)"
    using True assms(2) by (simp add: hasValidHeader_def Let_def word_le_nat_alt)
  have r: "shm_read (w, b) = Some (take ?n (dataFrom (sw_mem w m)))" using True assms(1) by (simp add: shm_read_def Let_def)
  show ?thesis
  proof (cases ?n)
    case 0
    then show ?thesis using True r by (intro exI [of _ "Suc (Suc 0)"]) (simp add: read_step_def Let_def)
  next
    case (Suc k)
    then have "read_alone (Suc k) (shm_cap b) (sw_mem w m) (Rd_copy ?n []) = Some (Rd_done (shm_read (w, b)))"
      using read_alone_copy [OF le, of "[]" k] r by simp
    then show ?thesis using True Suc
      by (intro exI [of _ "Suc (Suc (Suc k))"]) (simp add: read_step_def Let_def del: read_alone.simps(2) add: read_alone.simps(2) [of "Suc (Suc k)"] read_alone.simps(2) [of "Suc k"])
  qed
qed

fun write_alone :: "nat \<Rightarrow> u64 \<Rightarrow> bytes \<times> write_pc \<Rightarrow> bytes \<times> write_pc" where
  "write_alone 0 capacity s = s"
| "write_alone (Suc n) capacity s = write_alone n capacity (write_step capacity (fst s) (snd s))"

lemma poke_next:
  assumes "k < length data" and "header_size + length data \<le> length mapping"
  shows "poke (header_size + k) [data ! k] (poke header_size (take k data) mapping) = poke header_size (take (Suc k) data) mapping"
  using assms by (simp add: poke_def take_Suc_conv_app_nth min_absorb1 min_absorb2)

lemma write_alone_copy:
  assumes "header_size + length data \<le> length mapping" and "k + Suc n = length data"
  shows "write_alone (Suc n) capacity (poke header_size (take k data) mapping, Wr_copy data k) =
    (poke header_size data mapping, Wr_size data)"
  using assms(2)
proof (induction n arbitrary: k)
  case 0
  then show ?case using assms(1) poke_next [of k data mapping] by (simp add: write_step_def)
next
  case (Suc n)
  then have "k < length data" "Suc k \<noteq> length data" "Suc k + Suc n = length data" by simp_all
  with Suc.IH [of "Suc k"] show ?case using assms(1) poke_next [of k data mapping] by (simp add: write_step_def)
qed

lemma write_alone_stored:
  assumes "length data \<le> unat capacity" and "length mapping = header_size + unat capacity"
  shows "\<exists>n. write_alone n capacity (mapping, Wr_begin data) = (stored data mapping, Wr_done True)"
proof (cases data)
  case Nil
  then show ?thesis by (intro exI [of _ "Suc (Suc 0)"]) (simp add: write_step_def stored_def)
next
  case (Cons x xs)
  let ?n = "length xs"
  have more: "write_alone (m + k) capacity s = write_alone k capacity (write_alone m capacity s)" for m k s
    by (induction m arbitrary: s) auto
  have "write_alone (Suc ?n) capacity (mapping, Wr_copy data 0) = (poke header_size data mapping, Wr_size data)"
    using write_alone_copy [of data mapping 0 ?n capacity] assms Cons by simp
  then have "write_alone (Suc ?n + 1) capacity (mapping, Wr_copy data 0) = (stored data mapping, Wr_done True)"
    unfolding more by (simp add: write_step_def stored_def)
  then have "write_alone (1 + (Suc ?n + 1)) capacity (mapping, Wr_begin data) = (stored data mapping, Wr_done True)"
    unfolding more using assms(1) Cons by (simp add: write_step_def)
  then show ?thesis ..
qed

subsection \<open>Interleavings\<close>

record shm_race =
  rc_mapping :: bytes
  rc_reader :: read_pc
  rc_writers :: "write_pc list"

inductive race_step :: "u64 \<Rightarrow> shm_race \<Rightarrow> shm_race \<Rightarrow> bool" for capacity where
  race_reader: "read_step capacity (rc_mapping w) (rc_reader w) = Some pc \<Longrightarrow> race_step capacity w (w\<lparr>rc_reader := pc\<rparr>)"
| race_read: "rc_reader w = Rd_done r \<Longrightarrow> race_step capacity w (w\<lparr>rc_reader := Rd_check\<rparr>)"
| race_writer: "i < length (rc_writers w) \<Longrightarrow> write_step capacity (rc_mapping w) (rc_writers w ! i) = (mapping, pc) \<Longrightarrow>
     race_step capacity w (w\<lparr>rc_mapping := mapping, rc_writers := (rc_writers w)[i := pc]\<rparr>)"
| race_write: "race_step capacity w (w\<lparr>rc_writers := rc_writers w @ [Wr_begin data]\<rparr>)"

inductive race_reach :: "u64 \<Rightarrow> shm_race \<Rightarrow> shm_race \<Rightarrow> bool" for capacity w0 where
  race_init: "race_reach capacity w0 w0"
| race_next: "race_reach capacity w0 w \<Longrightarrow> race_step capacity w w' \<Longrightarrow> race_reach capacity w0 w'"

fun read_ok :: "u64 \<Rightarrow> read_pc \<Rightarrow> bool" where
  "read_ok capacity (Rd_copy dataSize out) \<longleftrightarrow> length out < dataSize \<and> dataSize \<le> unat capacity"
| "read_ok capacity (Rd_done r) \<longleftrightarrow> (case r of None \<Rightarrow> False | Some out \<Rightarrow> length out \<le> unat capacity)"
| "read_ok capacity _ \<longleftrightarrow> True"

fun write_ok :: "u64 \<Rightarrow> write_pc \<Rightarrow> bool" where
  "write_ok capacity (Wr_copy data k) \<longleftrightarrow> k < length data \<and> length data \<le> unat capacity"
| "write_ok capacity (Wr_size data) \<longleftrightarrow> length data \<le> unat capacity"
| "write_ok capacity _ \<longleftrightarrow> True"

definition mapping_ok :: "u64 \<Rightarrow> bytes \<Rightarrow> bool" where
  "mapping_ok capacity mapping \<longleftrightarrow> length mapping = header_size + unat capacity \<and> hasValidHeader mapping capacity"

definition race_inv :: "u64 \<Rightarrow> shm_race \<Rightarrow> bool" where
  "race_inv capacity w \<longleftrightarrow> mapping_ok capacity (rc_mapping w) \<and> read_ok capacity (rc_reader w) \<and>
     list_all (write_ok capacity) (rc_writers w)"

lemma headerFrom_poke_beyond:
  "header_size \<le> q \<Longrightarrow> q \<le> length m \<Longrightarrow> headerFrom (poke q bs m) = headerFrom m"
  using poke_before [of 0 4 q m bs] by (simp add: headerFrom_def poke_before)

lemma write_step_ok:
  assumes "mapping_ok capacity mapping" and "write_ok capacity pc" and "write_step capacity mapping pc = (mapping', pc')"
  shows "mapping_ok capacity mapping' \<and> write_ok capacity pc'"
proof (cases pc)
  case (Wr_begin data)
  then show ?thesis using assms by (auto simp: write_step_def)
next
  case (Wr_copy data k)
  then have "k < length data" "length data \<le> unat capacity" using assms(2) by simp_all
  then show ?thesis using Wr_copy assms
    by (auto simp: write_step_def mapping_ok_def hasValidHeader_def headerFrom_poke_beyond)
next
  case (Wr_size data)
  have le: "length data \<le> unat capacity" using Wr_size assms(2) by simp
  then have "unat (word_of_nat (length data) :: u64) = length data"
    by (intro unat_word_of_nat_small) (use unsigned_less [where ?'a = nat, of capacity] in simp)
  then have "(word_of_nat (length data) :: u64) \<le> capacity" using le by (simp add: word_le_nat_alt)
  then show ?thesis using Wr_size assms
    by (auto simp: write_step_def mapping_ok_def hasValidHeader_def headerFrom_poke_size Let_def)
next
  case (Wr_done r)
  then show ?thesis using assms by (auto simp: write_step_def)
qed

text \<open>How many steps a read still takes.\<close>

fun read_work :: "u64 \<Rightarrow> read_pc \<Rightarrow> nat" where
  "read_work capacity Rd_check = unat capacity + 2"
| "read_work capacity Rd_load = unat capacity + 1"
| "read_work capacity (Rd_copy dataSize out) = dataSize - length out"
| "read_work capacity (Rd_done r) = 0"

lemma read_step_ok:
  assumes "mapping_ok capacity mapping" and "read_ok capacity pc"
  shows "\<exists>pc'. read_step capacity mapping pc = Some pc' \<and> read_ok capacity pc' \<and>
    (0 < read_work capacity pc \<longrightarrow> read_work capacity pc' < read_work capacity pc)"
proof (cases pc)
  case Rd_check
  then show ?thesis using assms(1) by (simp add: read_step_def mapping_ok_def)
next
  case Rd_load
  have "unat (sh_dataSize (headerFrom mapping)) \<le> unat capacity"
    using assms(1) by (simp add: mapping_ok_def hasValidHeader_def Let_def word_le_nat_alt)
  then show ?thesis using Rd_load by (simp add: read_step_def Let_def)
next
  case (Rd_copy dataSize out)
  then show ?thesis using assms by (auto simp: read_step_def mapping_ok_def Let_def)
next
  case (Rd_done r)
  then show ?thesis using assms(2) by (simp add: read_step_def)
qed

lemma race_inv_step: "race_step capacity w w' \<Longrightarrow> race_inv capacity w \<Longrightarrow> race_inv capacity w'"
proof (induction rule: race_step.induct)
  case (race_reader w pc)
  then show ?case using read_step_ok [of capacity "rc_mapping w" "rc_reader w"] by (auto simp: race_inv_def)
next
  case (race_writer i w mapping pc)
  then have "mapping_ok capacity mapping \<and> write_ok capacity pc"
    by (intro write_step_ok [OF _ _ race_writer.hyps(2)]) (simp_all add: race_inv_def list_all_length)
  then show ?case using race_writer by (auto simp: race_inv_def list_all_length nth_list_update)
qed (auto simp: race_inv_def)

lemma race_inv_reach: "race_reach capacity w0 w \<Longrightarrow> race_inv capacity w0 \<Longrightarrow> race_inv capacity w"
  by (induction rule: race_reach.induct) (auto intro: race_inv_step)

text \<open>
  C31. While any number of calls of \<open>write\<close> run at the same time, in every interleaving of single accesses, \<open>read\<close> never
  touches a byte outside the mapping, succeeds with at most \<open>capacity\<close> bytes, and ends after at most \<open>capacity + 2\<close> of its
  own steps, whatever the writers do.
\<close>

theorem shm_concurrent_read_safe:
  assumes "mapping_ok capacity mapping"
    and "race_reach capacity \<lparr>rc_mapping = mapping, rc_reader = Rd_check, rc_writers = []\<rparr> w"
  shows "(\<exists>pc. read_step capacity (rc_mapping w) (rc_reader w) = Some pc \<and>
      (0 < read_work capacity (rc_reader w) \<longrightarrow> read_work capacity pc < read_work capacity (rc_reader w))) \<and>
    (case rc_reader w of Rd_done r \<Rightarrow> \<exists>bs. r = Some bs \<and> length bs \<le> unat capacity | _ \<Rightarrow> True)"
proof -
  have "race_inv capacity \<lparr>rc_mapping = mapping, rc_reader = Rd_check, rc_writers = []\<rparr>"
    using assms(1) by (simp add: race_inv_def)
  from race_inv_reach [OF assms(2) this] have "mapping_ok capacity (rc_mapping w)" "read_ok capacity (rc_reader w)"
    by (simp_all add: race_inv_def)
  then show ?thesis using read_step_ok [of capacity "rc_mapping w" "rc_reader w"]
    by (cases "rc_reader w") (auto split: option.splits)
qed

subsection \<open>What can go wrong\<close>

text \<open>A writer that is not interrupted.\<close>

lemma race_write_alone:
  assumes "race_reach capacity w0 w" and "i < length (rc_writers w)" and "rc_writers w ! i = pc"
    and "write_alone n capacity (rc_mapping w, pc) = (mapping, pc')"
  shows "race_reach capacity w0 (w\<lparr>rc_mapping := mapping, rc_writers := (rc_writers w)[i := pc']\<rparr>)"
  using assms
proof (induction n arbitrary: w pc)
  case 0
  then show ?case by (auto simp: list_update_same_conv)
next
  case (Suc n)
  obtain m1 pc1 where s: "write_step capacity (rc_mapping w) pc = (m1, pc1)" by fastforce
  let ?w = "w\<lparr>rc_mapping := m1, rc_writers := (rc_writers w)[i := pc1]\<rparr>"
  have "race_reach capacity w0 ?w"
    using race_next [OF Suc.prems(1) race_writer [of i w]] Suc.prems(2,3) s by simp
  from Suc.IH [OF this] Suc.prems(2,4) s show ?case by simp
qed

definition race_start :: shm_race where
  "race_start = \<lparr>rc_mapping = init_header 2 (replicate 26 0), rc_reader = Rd_check, rc_writers = []\<rparr>"

lemma race_start_ok: "mapping_ok 2 (rc_mapping race_start)"
  using hasValidHeader_init [of "replicate 26 0" 2] by (simp add: mapping_ok_def race_start_def length_init_header)

text \<open>
  A read can return bytes that no \<open>write\<close> stored: one writer has stored \<open>[1, 2]\<close> and another copies \<open>[3, 4]\<close> while the
  reader is between its two bytes.
\<close>

lemma torn_read: "\<exists>w. race_reach 2 race_start w \<and> rc_reader w = Rd_done (Some [1, 4]) \<and> rc_writers w = [Wr_done True, Wr_size [3, 4]]"
proof -
  let ?m = "rc_mapping race_start" and ?w = "\<lambda>m pc ws. \<lparr>rc_mapping = m, rc_reader = pc, rc_writers = ws\<rparr>"
  let ?m1 = "stored [1, 2] ?m"
  have ok: "length ?m = 26" "hasValidHeader ?m 2" using race_start_ok by (simp_all add: mapping_ok_def)
  have p: "length ?m1 = 26" "take (Suc (Suc 0)) (dataFrom ?m1) = [1, 2]" "unat (sh_dataSize (headerFrom ?m1)) = 2" "hasValidHeader ?m1 2"
    using stored_props [of "[1, 2]" ?m] hasValidHeader_stored [of "[1, 2]" ?m 2] ok by simp_all
  have b1: "?m1 ! 24 = 1"
    using arg_cong [OF p(2), of "\<lambda>xs. xs ! 0"] p(1) by (simp add: dataFrom_def)
  have b2: "poke 24 [3, 4] ?m1 ! 25 = 4" using p(1) by (simp add: poke_def nth_append)
  have "race_reach 2 race_start (?w ?m Rd_check [Wr_begin [1, 2]])"
    using race_next [OF race_init race_write, of 2 race_start "[1, 2]"] by (simp add: race_start_def)
  moreover obtain n where "write_alone n 2 (?m, Wr_begin [1, 2]) = (?m1, Wr_done True)"
    using write_alone_stored [of "[1, 2]" 2 ?m] ok by auto
  ultimately have "race_reach 2 race_start (?w ?m1 Rd_check [Wr_done True])"
    using race_write_alone [of 2 race_start "?w ?m Rd_check [Wr_begin [1, 2]]" 0 _ n ?m1 "Wr_done True"] by simp
  from race_next [OF this race_reader, of Rd_load] have "race_reach 2 race_start (?w ?m1 Rd_load [Wr_done True])"
    using p(4) by (simp add: read_step_def)
  from race_next [OF this race_reader, of "Rd_copy 2 []"] have "race_reach 2 race_start (?w ?m1 (Rd_copy 2 []) [Wr_done True])"
    using p(3) by (simp add: read_step_def Let_def)
  from race_next [OF this race_reader, of "Rd_copy 2 [1]"] have "race_reach 2 race_start (?w ?m1 (Rd_copy 2 [1]) [Wr_done True])"
    using p(1) b1 by (simp add: read_step_def Let_def)
  from race_next [OF this race_write, of "[3, 4]"]
  have "race_reach 2 race_start (?w ?m1 (Rd_copy 2 [1]) [Wr_done True, Wr_begin [3, 4]])" by simp
  moreover have "write_alone 3 2 (?m1, Wr_begin [3, 4]) = (poke 24 [3, 4] ?m1, Wr_size [3, 4])"
    using write_alone_copy [of "[3, 4]" ?m1 0 1 2] p(1) by (simp add: numeral_3_eq_3 write_step_def)
  ultimately have "race_reach 2 race_start (?w (poke 24 [3, 4] ?m1) (Rd_copy 2 [1]) [Wr_done True, Wr_size [3, 4]])"
    using race_write_alone [of 2 race_start "?w ?m1 (Rd_copy 2 [1]) [Wr_done True, Wr_begin [3, 4]]" 1 "Wr_begin [3, 4]" 3] by simp
  from race_next [OF this race_reader, of "Rd_done (Some [1, 4])"] show ?thesis
    using p(1) b2 by (auto simp: read_step_def Let_def)
qed

theorem shm_concurrent_read_safe_witness:
  "\<exists>w. race_reach 2 race_start w \<and> rc_reader w = Rd_done (Some [1, 4]) \<and>
    (\<exists>bs. Some [1, 4] = Some bs \<and> length bs \<le> 2) \<and> (\<exists>pc. read_step 2 (rc_mapping w) (rc_reader w) = Some pc)"
proof -
  obtain w where w: "race_reach 2 race_start w" "rc_reader w = Rd_done (Some [1, 4])" using torn_read by blast
  from shm_concurrent_read_safe [OF race_start_ok, of w] w show ?thesis
    by (auto simp: race_start_def)
qed

text \<open>
  Two messages of the same size differ in the bytes of their value. The bridge accepts the mixture of their frames as a
  message, which nobody sent.
\<close>

definition torn_message :: "u16 \<Rightarrow> message" where
  "torn_message v = default_message\<lparr>msg_topic := ''t'', msg_value := Val_UInt16 v\<rparr>"

lemma torn_message_accepted:
  "encode (torn_message 0x0102) = Some a \<Longrightarrow> encode (torn_message 0x0304) = Some b \<Longrightarrow>
   length a = length b \<and> decode (take 38 a @ drop 38 b) m0 = (True, torn_message 0x0302)"
proof -
  have e: "encodable (torn_message v)" for v
    by (simp add: encodable_def torn_message_def default_message_def maxLength_def appendPod_def)
  obtain h where h: "length h = 37" "\<And>v. frame (torn_message v) = h @ pod_bytes v"
    by (rule that [of "take 37 (frame (torn_message 0))"])
      (simp_all add: frame_def torn_message_def default_message_def appendPod_def)
  have "take 1 (pod_bytes (0x0102 :: u16)) @ drop 1 (pod_bytes (0x0304 :: u16)) = pod_bytes (0x0302 :: u16)"
    by code_simp
  then have "take 38 (h @ pod_bytes (0x0102 :: u16)) @ drop 38 (h @ pod_bytes (0x0304 :: u16)) = frame (torn_message 0x0302)"
    using h by simp
  then show "encode (torn_message 0x0102) = Some a \<Longrightarrow> encode (torn_message 0x0304) = Some b \<Longrightarrow>
      length a = length b \<and> decode (take 38 a @ drop 38 b) m0 = (True, torn_message 0x0302)"
    using e h(2) decode_frame [OF e, of "0x0302" m0] by (auto simp: encode_eq)
qed

text \<open>
  The header is checked before the size is loaded again. A process that stores a larger size in between makes \<open>read\<close> copy
  bytes outside the mapping.
\<close>

lemma read_alone_overrun:
  assumes "length mapping = header_size + unat capacity" and "unat capacity < n" and "length out + k = unat capacity"
  shows "read_alone (Suc k) capacity mapping (Rd_copy n out) = None"
  using assms(3)
proof (induction k arbitrary: out)
  case 0
  then show ?case using assms(1) by (simp add: read_step_def)
next
  case (Suc k)
  let ?next = "out @ [mapping ! (24 + length out)]"
  have "read_alone (Suc k) capacity mapping (Rd_copy n ?next) = None" using Suc by simp
  moreover have "read_step capacity mapping (Rd_copy n out) = Some (Rd_copy n ?next)"
    using Suc.prems assms(1,2) by (simp add: read_step_def Let_def)
  ultimately show ?case unfolding read_alone.simps(2) [of "Suc k"] by simp
qed

lemma size_changed_after_check:
  assumes "mapping_ok capacity mapping" and "capacity < n"
  shows "read_step capacity mapping Rd_check = Some Rd_load \<and>
    (\<exists>k. read_alone k capacity (poke 16 (pod_bytes n) mapping) Rd_load = None)"
proof -
  let ?m = "poke 16 (pod_bytes n) mapping"
  have l: "length ?m = header_size + unat capacity" using assms(1) by (simp add: mapping_ok_def)
  have lt: "unat capacity < unat n" using assms(2) by (simp add: word_less_nat_alt)
  have "sh_dataSize (headerFrom ?m) = n" using assms(1) by (simp add: mapping_ok_def headerFrom_poke_size)
  then have "read_step capacity ?m Rd_load = Some (Rd_copy (unat n) [])" using lt by (simp add: read_step_def Let_def)
  then have "read_alone (Suc (Suc (unat capacity))) capacity ?m Rd_load = None"
    using read_alone_overrun [OF l lt, of "[]" "unat capacity"] by (simp only: read_alone.simps(2) bind.bind_lunit) simp
  moreover have "read_step capacity mapping Rd_check = Some Rd_load" using assms(1) by (simp add: read_step_def mapping_ok_def)
  ultimately show ?thesis by blast
qed

end
