(* ===== verification/Std_Text.thy ===== *)
theory Std_Text
  imports Prelude
begin

section \<open>Text conversions of the C++ library\<close>

text \<open>
  The character tests and integer conversions the program uses, in the C locale: \<open>std::isspace\<close>,
  \<open>std::to_string\<close> of integers, and \<open>std::stoi\<close>/\<open>stol\<close>/\<open>stoll\<close>/\<open>stoul\<close>/\<open>stoull\<close> in base 10 (optional white space and
  sign, at least one digit, the rest is ignored; no digit or a value out of range throws, here \<open>None\<close>; a negative
  argument of the unsigned ones wraps). \<open>long\<close> has 64 bits. The main lemma is that parsing inverts printing.
\<close>

definition isspace :: "char \<Rightarrow> bool" where
  "isspace c \<longleftrightarrow> (let n = of_char c :: nat in n = 32 \<or> 9 \<le> n \<and> n \<le> 13)"

definition isdigit :: "char \<Rightarrow> bool" where
  "isdigit c \<longleftrightarrow> (let n = of_char c :: nat in 48 \<le> n \<and> n \<le> 57)"

definition digit_char :: "nat \<Rightarrow> char" where
  "digit_char d = char_of (48 + d)"

fun dec_digits :: "nat \<Rightarrow> string" where
  "dec_digits n = (if n < 10 then [digit_char n] else dec_digits (n div 10) @ [digit_char (n mod 10)])"

declare dec_digits.simps [simp del]

definition to_string :: "int \<Rightarrow> string" where
  "to_string i = (if i < 0 then CHR ''-'' # dec_digits (nat (- i)) else dec_digits (nat i))"

definition digits_value :: "string \<Rightarrow> nat" where
  "digits_value s = foldl (\<lambda>acc c. 10 * acc + (of_char c - 48)) 0 s"

text \<open>The number \<open>strtol\<close> reads: \<open>None\<close> when there is no digit.\<close>

definition scan_int :: "string \<Rightarrow> int option" where
  "scan_int s =
     (let s1 = dropWhile isspace s;
          (neg, s2) = (case s1 of
             [] \<Rightarrow> (False, s1)
           | c # cs \<Rightarrow> if c = CHR ''-'' then (True, cs) else if c = CHR ''+'' then (False, cs) else (False, s1));
          ds = takeWhile isdigit s2
      in if ds = [] then None else Some (if neg then - int (digits_value ds) else int (digits_value ds)))"

text \<open>What follows the digits: the end of the text exactly when the whole of it was a number.\<close>

definition scan_rest :: "string \<Rightarrow> string" where
  "scan_rest s =
     (let s1 = dropWhile isspace s;
          s2 = (case s1 of [] \<Rightarrow> s1 | c # cs \<Rightarrow> if c = CHR ''-'' \<or> c = CHR ''+'' then cs else s1)
      in dropWhile isdigit s2)"

definition stoi :: "string \<Rightarrow> int option" where
  "stoi s = (case scan_int s of None \<Rightarrow> None | Some i \<Rightarrow> if - (2 ^ 31) \<le> i \<and> i < 2 ^ 31 then Some i else None)"

definition stoll :: "string \<Rightarrow> int option" where
  "stoll s = (case scan_int s of None \<Rightarrow> None | Some i \<Rightarrow> if - (2 ^ 63) \<le> i \<and> i < 2 ^ 63 then Some i else None)"

definition stoull :: "string \<Rightarrow> int option" where
  "stoull s = (case scan_int s of None \<Rightarrow> None | Some i \<Rightarrow> if \<bar>i\<bar> < 2 ^ 64 then Some (i mod 2 ^ 64) else None)"

subsection \<open>Parsing inverts printing\<close>

lemma of_digit_char: "d < 10 \<Longrightarrow> (of_char (digit_char d) :: nat) = 48 + d"
  by (simp add: digit_char_def)

lemma isdigit_digit_char: "d < 10 \<Longrightarrow> isdigit (digit_char d)"
  by (simp add: isdigit_def of_digit_char Let_def)

lemma dec_digits_isdigit: "\<forall>c \<in> set (dec_digits n). isdigit c"
proof (induction n rule: dec_digits.induct)
  case (1 n)
  show ?case
  proof (cases "n < 10")
    case True
    then show ?thesis by (subst dec_digits.simps) (simp add: isdigit_digit_char)
  next
    case False
    then show ?thesis using 1 by (subst dec_digits.simps) (auto simp: isdigit_digit_char)
  qed
qed

lemma dec_digits_ne: "dec_digits n \<noteq> []"
  by (subst dec_digits.simps) simp

lemma digits_value_snoc: "digits_value (s @ [c]) = 10 * digits_value s + (of_char c - 48)"
  by (simp add: digits_value_def)

lemma digits_value_dec: "digits_value (dec_digits n) = n"
proof (induction n rule: dec_digits.induct)
  case (1 n)
  show ?case
  proof (cases "n < 10")
    case True
    then show ?thesis by (subst dec_digits.simps) (simp add: digits_value_def of_digit_char)
  next
    case False
    then show ?thesis using 1
      by (subst dec_digits.simps) (simp add: digits_value_snoc of_digit_char)
  qed
qed

lemma digit_not_special: "isdigit c \<Longrightarrow> \<not> isspace c \<and> c \<noteq> CHR ''-'' \<and> c \<noteq> CHR ''+''"
  by (auto simp: isdigit_def isspace_def Let_def)

lemma dec_digits_Cons: "\<exists>c cs. dec_digits n = c # cs \<and> isdigit c"
  using dec_digits_ne [of n] dec_digits_isdigit [of n] by (cases "dec_digits n") auto

lemma takeWhile_dec: "takeWhile isdigit (dec_digits n) = dec_digits n"
  using dec_digits_isdigit [of n] by (metis takeWhile_eq_all_conv)

lemma scan_to_string: "scan_int (to_string i) = Some i"
proof (cases "i < 0")
  case True
  moreover have "\<not> isspace CHR ''-''" by (simp add: isspace_def)
  ultimately show ?thesis
    by (simp add: scan_int_def to_string_def takeWhile_dec dec_digits_ne digits_value_dec)
next
  case False
  obtain c cs where c: "dec_digits (nat i) = c # cs" "isdigit c" using dec_digits_Cons by blast
  have "\<forall>x \<in> set cs. isdigit x" using dec_digits_isdigit [of "nat i"] by (simp add: c(1))
  then have t: "takeWhile isdigit cs = cs" by (metis takeWhile_eq_all_conv)
  have v: "digits_value (c # cs) = nat i" using digits_value_dec [of "nat i"] by (simp only: c)
  show ?thesis
    using False digit_not_special [OF c(2)] unfolding scan_int_def to_string_def
    by (simp add: c(1)) (simp add: c(2) t v)
qed

lemma scan_rest_shorter: "scan_int s \<noteq> None \<Longrightarrow> length (scan_rest s) < length s"
proof -
  assume n: "scan_int s \<noteq> None"
  let ?t = "dropWhile isspace s"
  have t: "length ?t \<le> length s" by (rule length_dropWhile_le)
  have d: "length (dropWhile isdigit u) < length u" if "takeWhile isdigit u \<noteq> []" for u
    using that by (cases u) (auto simp: le_imp_less_Suc length_dropWhile_le split: if_splits)
  show ?thesis
  proof (cases ?t)
    case Nil
    show ?thesis using n unfolding scan_int_def Nil by simp
  next
    case (Cons c cs)
    then have "length (scan_rest s) < length ?t"
      using n d [of cs] d [of "c # cs"] by (auto simp: scan_int_def scan_rest_def Let_def split: if_splits)
    then show ?thesis using t by simp
  qed
qed

text \<open>A printed natural number is read up to the first character that is no digit.\<close>

lemma scan_dec_digits:
  assumes "case r of [] \<Rightarrow> True | c # _ \<Rightarrow> \<not> isdigit c"
  shows "scan_int (dec_digits n @ r) = Some (int n)" and "scan_rest (dec_digits n @ r) = r"
proof -
  obtain c cs where c: "dec_digits n = c # cs" "isdigit c" using dec_digits_Cons by blast
  have t: "takeWhile isdigit (dec_digits n @ r) = dec_digits n" "dropWhile isdigit (dec_digits n @ r) = r"
    using dec_digits_isdigit [of n] assms by (cases r; simp add: takeWhile_append2 dropWhile_append2)+
  have s: "dropWhile isspace (dec_digits n @ r) = dec_digits n @ r" using digit_not_special [OF c(2)] by (simp add: c(1))
  show "scan_int (dec_digits n @ r) = Some (int n)"
    using t(1) digit_not_special [OF c(2)] digits_value_dec [of n]
    by (simp add: scan_int_def s Let_def c(1))
  show "scan_rest (dec_digits n @ r) = r"
    using t(2) digit_not_special [OF c(2)] by (simp add: scan_rest_def s Let_def c(1))
qed

lemma scan_skip_space:
  "isspace c \<Longrightarrow> scan_int (c # s) = scan_int s" "isspace c \<Longrightarrow> scan_rest (c # s) = scan_rest s"
  by (simp_all add: scan_int_def scan_rest_def)

lemma to_string_no_nul: "CHR 0x00 \<notin> set (to_string i)"
proof -
  have "CHR 0x00 \<notin> set (dec_digits n)" for n
    using dec_digits_isdigit [of n] by (auto simp: isdigit_def)
  then show ?thesis by (simp add: to_string_def)
qed

lemma c_str_to_string [simp]: "c_str (to_string i) = to_string i"
  by (rule c_str_id) (rule to_string_no_nul)

text \<open>Each typed conversion inverts \<open>to_string\<close> on the values of its type.\<close>

lemma stoi_to_string: "- (2 ^ 31) \<le> i \<Longrightarrow> i < 2 ^ 31 \<Longrightarrow> stoi (to_string i) = Some i"
  by (simp add: stoi_def scan_to_string)

lemma stoll_to_string: "- (2 ^ 63) \<le> i \<Longrightarrow> i < 2 ^ 63 \<Longrightarrow> stoll (to_string i) = Some i"
  by (simp add: stoll_def scan_to_string)

lemma stoull_to_string: "0 \<le> i \<Longrightarrow> i < 2 ^ 64 \<Longrightarrow> stoull (to_string i) = Some i"
  by (simp add: stoull_def scan_to_string)

subsection \<open>Lines\<close>

text \<open>\<open>std::getline\<close>, and the lines a \<open>getline\<close> loop sees.\<close>

definition first_line :: "string \<Rightarrow> string option" where
  "first_line s = (if s = [] then None else Some (takeWhile (\<lambda>c. c \<noteq> CHR ''\<newline>'') s))"

function getlines :: "string \<Rightarrow> string list" where
  "getlines [] = []"
| "getlines (c # s) = (let l = takeWhile (\<lambda>c. c \<noteq> CHR ''\<newline>'') (c # s) in l # getlines (drop (Suc (length l)) (c # s)))"
  by pat_completeness auto
termination by (relation "measure length") (auto simp: Let_def)

lemma getlines_append: "CHR ''\<newline>'' \<notin> set l \<Longrightarrow> getlines (l @ CHR ''\<newline>'' # r) = l # getlines r"
proof -
  assume n: "CHR ''\<newline>'' \<notin> set l"
  then have t: "takeWhile (\<lambda>c. c \<noteq> CHR ''\<newline>'') (l @ CHR ''\<newline>'' # r) = l" by (subst takeWhile_tail) (auto simp: takeWhile_eq_all_conv)
  obtain c s where cs: "l @ CHR ''\<newline>'' # r = c # s" by (cases l) auto
  have "getlines (l @ CHR ''\<newline>'' # r) = takeWhile (\<lambda>c. c \<noteq> CHR ''\<newline>'') (c # s) # getlines (drop (Suc (length (takeWhile (\<lambda>c. c \<noteq> CHR ''\<newline>'') (c # s)))) (c # s))"
    unfolding cs by (simp only: getlines.simps Let_def)
  then show ?thesis unfolding cs [symmetric] t by simp
qed

end
