(* ===== verification/Storage_Service.thy ===== *)
theory Storage_Service
  imports Std_Text Message_Bus
begin

section \<open>The SQLite storage service\<close>

text \<open>
  \<open>src/storage_service.cpp\<close>: history of messages and the outbox of MQTT messages that wait for a connection. SQLite is
  not part of the repository: it is the argument \<open>api\<close>, whose functions say what preparing and stepping a statement does
  to the database \<open>'db\<close>; the SQL texts are the ones of the source. What the service relies on is the predicate
  \<open>sqlite_ok\<close> below (documented behaviour of these six statements), with a concrete in-memory instance at the end. The text
  form of \<open>float\<close> and \<open>double\<close> belongs to the C++ library's locale-independent formatting and is the argument \<open>fl\<close>. The
  mutex makes every operation atomic.
\<close>

unbundle bit_operations_syntax

subsection \<open>Values as text\<close>

record float_text =
  ft_print_float :: "u32 \<Rightarrow> string"
  ft_print_double :: "u64 \<Rightarrow> string"
  ft_stof :: "string \<Rightarrow> u32 option"
  ft_stod :: "string \<Rightarrow> u64 option"

fun value_text :: "float_text \<Rightarrow> tag_value \<Rightarrow> string" where
  "value_text fl Val_Monostate = ''''"
| "value_text fl (Val_Bool b) = (if b then ''1'' else ''0'')"
| "value_text fl (Val_Int8 w) = to_string (sint w)"
| "value_text fl (Val_Int16 w) = to_string (sint w)"
| "value_text fl (Val_Int32 w) = to_string (sint w)"
| "value_text fl (Val_Int64 w) = to_string (sint w)"
| "value_text fl (Val_UInt8 w) = to_string (uint w)"
| "value_text fl (Val_UInt16 w) = to_string (uint w)"
| "value_text fl (Val_UInt32 w) = to_string (uint w)"
| "value_text fl (Val_UInt64 w) = to_string (uint w)"
| "value_text fl (Val_Float w) = ft_print_float fl w"
| "value_text fl (Val_Double w) = ft_print_double fl w"
| "value_text fl (Val_String s) = s"

definition serializeTagValue :: "float_text \<Rightarrow> tag_value \<Rightarrow> int \<times> string" where
  "serializeTagValue fl v = (int (value_index v), value_text fl v)"

text \<open>\<open>None\<close> is the result false, for a bad type, a bad text or an exception of a conversion.\<close>

definition deserializeTagValue :: "float_text \<Rightarrow> int \<Rightarrow> string \<Rightarrow> tag_value option" where
  "deserializeTagValue fl type str =
     (if type = 0 then Some Val_Monostate
      else if type = 1 then (if str = ''0'' \<or> str = ''1'' then Some (Val_Bool (str = ''1'')) else None)
      else if type = 2 then map_option (\<lambda>i. Val_Int8 (word_of_int i)) (stoi str)
      else if type = 3 then map_option (\<lambda>i. Val_Int16 (word_of_int i)) (stoi str)
      else if type = 4 then map_option (\<lambda>i. Val_Int32 (word_of_int i)) (stoll str)
      else if type = 5 then map_option (\<lambda>i. Val_Int64 (word_of_int i)) (stoll str)
      else if type = 6 then map_option (\<lambda>i. Val_UInt8 (word_of_int i)) (stoull str)
      else if type = 7 then map_option (\<lambda>i. Val_UInt16 (word_of_int i)) (stoull str)
      else if type = 8 then map_option (\<lambda>i. Val_UInt32 (word_of_int i)) (stoull str)
      else if type = 9 then map_option (\<lambda>i. Val_UInt64 (word_of_int i)) (stoull str)
      else if type = 10 then map_option Val_Float (ft_stof fl str)
      else if type = 11 then map_option Val_Double (ft_stod fl str)
      else if type = 12 then Some (Val_String str)
      else None)"

text \<open>Nanoseconds to milliseconds (\<open>duration_cast\<close> truncates) and back.\<close>

definition timestampToMilliseconds :: "wall_time \<Rightarrow> int" where
  "timestampToMilliseconds t = cpp_div (sint t) ns_per_ms"

definition millisecondsToTimestamp :: "int \<Rightarrow> wall_time" where
  "millisecondsToTimestamp ms = word_of_int (ms * ns_per_ms)"

definition isValidQuality :: "int \<Rightarrow> bool" where
  "isValidQuality q \<longleftrightarrow> 0 \<le> q \<and> q \<le> 4"

subsection \<open>SQLite\<close>

datatype sq_value = Sq_text string | Sq_int int | Sq_null

text \<open>
  \<open>sq_step sql params db\<close> is one execution of a statement without result rows: whether it ended with
  \<open>SQLITE_DONE\<close>, \<open>sqlite3_changes\<close>, the new database. \<open>sq_rows\<close> gives the rows that successive steps return and whether
  the last step returned \<open>SQLITE_DONE\<close>.
\<close>

record 'db sqlite_api =
  sq_open :: "string \<Rightarrow> 'db \<Rightarrow> bool \<times> 'db"
  sq_exec :: "string \<Rightarrow> 'db \<Rightarrow> bool \<times> 'db"
  sq_prepare :: "string \<Rightarrow> 'db \<Rightarrow> bool"
  sq_step :: "string \<Rightarrow> sq_value list \<Rightarrow> 'db \<Rightarrow> bool \<times> int \<times> 'db"
  sq_rows :: "string \<Rightarrow> sq_value list \<Rightarrow> 'db \<Rightarrow> sq_value list list \<times> bool"
  sq_column_int :: "sq_value \<Rightarrow> int"
  sq_column_int64 :: "sq_value \<Rightarrow> int"
  sq_column_text :: "sq_value \<Rightarrow> string option"

definition InsertMessageSql :: string where
  "InsertMessageSql = ''INSERT INTO tag_messages(topic, device_id, tag_name, value_type, value_text, quality, timestamp_ms) VALUES(?, ?, ?, ?, ?, ?, ?);''"

definition SelectMessagesSql :: string where
  "SelectMessagesSql = ''SELECT id, topic, device_id, tag_name, value_type, value_text, quality, timestamp_ms FROM tag_messages ORDER BY id ASC;''"

definition SelectMessagesLimitSql :: string where
  "SelectMessagesLimitSql = ''SELECT id, topic, device_id, tag_name, value_type, value_text, quality, timestamp_ms FROM tag_messages ORDER BY id ASC LIMIT ?;''"

definition CountMessagesSql :: string where
  "CountMessagesSql = ''SELECT COUNT(*) FROM tag_messages;''"

definition InsertOutboxSql :: string where
  "InsertOutboxSql = ''INSERT INTO mqtt_outbox(topic, payload, retain, created_at_ms) VALUES(?, ?, ?, ?);''"

definition SelectOutboxSql :: string where
  "SelectOutboxSql = ''SELECT id, topic, payload, retain, created_at_ms FROM mqtt_outbox ORDER BY id ASC;''"

definition SelectOutboxLimitSql :: string where
  "SelectOutboxLimitSql = ''SELECT id, topic, payload, retain, created_at_ms FROM mqtt_outbox ORDER BY id ASC LIMIT ?;''"

definition DeleteOutboxSql :: string where
  "DeleteOutboxSql = ''DELETE FROM mqtt_outbox WHERE id = ?;''"

definition CountOutboxSql :: string where
  "CountOutboxSql = ''SELECT COUNT(*) FROM mqtt_outbox;''"

text \<open>\<open>sqlite3_bind_text\<close> with length -1 of a C string.\<close>

definition bind_text :: "string \<Rightarrow> sq_value" where
  "bind_text s = Sq_text (c_str s)"

text \<open>A column past the end of a row reads as \<open>NULL\<close>.\<close>

definition column :: "sq_value list \<Rightarrow> nat \<Rightarrow> sq_value" where
  "column row i = (if i < length row then row ! i else Sq_null)"

definition readTextColumn :: "'db sqlite_api \<Rightarrow> sq_value list \<Rightarrow> nat \<Rightarrow> string" where
  "readTextColumn api row i = (case sq_column_text api (column row i) of None \<Rightarrow> '''' | Some t \<Rightarrow> c_str t)"

subsection \<open>The service\<close>

record storage =
  st_databasePath :: string
  st_open :: bool
  st_attached :: bool
  st_subscriptionId :: subscription_id

type_synonym 'db store = "storage \<times> 'db"

definition new_storage :: "string \<Rightarrow> storage" where
  "new_storage path = \<lparr>st_databasePath = path, st_open = False, st_attached = False, st_subscriptionId = 0\<rparr>"

definition executeSqlLocked :: "'db sqlite_api \<Rightarrow> string \<Rightarrow> 'db \<Rightarrow> bool \<times> 'db" where
  "executeSqlLocked api sql db = sq_exec api sql db"

fun execute_all :: "'db sqlite_api \<Rightarrow> string list \<Rightarrow> 'db \<Rightarrow> bool \<times> 'db" where
  "execute_all api [] db = (True, db)"
| "execute_all api (sql # sqls) db =
     (let (ok, db') = executeSqlLocked api sql db in if ok then execute_all api sqls db' else (False, db'))"

definition InitializeSql :: "string list" where
  "InitializeSql =
      [''PRAGMA journal_mode=WAL;'',
       ''PRAGMA synchronous=NORMAL;'',
       ''CREATE TABLE IF NOT EXISTS tag_messages(id INTEGER PRIMARY KEY AUTOINCREMENT,topic TEXT NOT NULL,device_id TEXT NOT NULL,tag_name TEXT NOT NULL,value_type INTEGER NOT NULL,value_text TEXT NOT NULL,quality INTEGER NOT NULL,timestamp_ms INTEGER NOT NULL);'',
       ''CREATE INDEX IF NOT EXISTS idx_tag_messages_timestamp ON tag_messages(timestamp_ms);'',
       ''CREATE TABLE IF NOT EXISTS mqtt_outbox(id INTEGER PRIMARY KEY AUTOINCREMENT,topic TEXT NOT NULL,payload TEXT NOT NULL,retain INTEGER NOT NULL DEFAULT 0 CHECK(retain IN (0, 1)),created_at_ms INTEGER NOT NULL);'']"

definition initializeDatabaseLocked :: "'db sqlite_api \<Rightarrow> 'db \<Rightarrow> bool \<times> 'db" where
  "initializeDatabaseLocked api db = execute_all api InitializeSql db"

text \<open>
  The file-system calls on the parent directory. \<open>std::filesystem::is_directory\<close> with an error code calls \<open>stat\<close>, and
  the error code is set whenever that fails, also when nothing exists under the path (\<open>ENOENT\<close>). The results: the parent
  path is empty; the first \<open>stat\<close>; the error code of \<open>create_directories\<close>; the second \<open>is_directory\<close>.
\<close>

datatype stat_result = Stat_directory | Stat_other | Stat_errno nat

record fs_results =
  fs_parent_empty :: bool
  fs_stat :: stat_result
  fs_create :: "nat option"
  fs_is_directory_after :: bool

definition is_directory :: "stat_result \<Rightarrow> bool \<times> nat option" where
  "is_directory r = (case r of Stat_directory \<Rightarrow> (True, None) | Stat_other \<Rightarrow> (False, None) | Stat_errno e \<Rightarrow> (False, Some e))"

definition parent_ready :: "fs_results \<Rightarrow> bool" where
  "parent_ready fs \<longleftrightarrow> fs_parent_empty fs \<or>
     (let (directoryExists, directoryError) = is_directory (fs_stat fs);
          directoryError' = (if directoryError = None \<and> \<not> directoryExists then fs_create fs else directoryError)
      in \<not> (directoryError' \<noteq> None \<or> \<not> fs_is_directory_after fs))"

definition storage_open :: "'db sqlite_api \<Rightarrow> fs_results \<Rightarrow> 'db store \<Rightarrow> bool \<times> 'db store" where
  "storage_open api fs s =
     (let (st, db) = s in
      if st_open st then (True, s)
      else if st_databasePath st = '''' then (False, s)
      else if \<not> parent_ready fs then (False, s)
      else (let (opened, db1) = sq_open api (c_str (st_databasePath st)) db in
        if \<not> opened then (False, st, db1)
        else (let (ready, db2) = initializeDatabaseLocked api db1 in
          if \<not> ready then (False, st, db2) else (True, st\<lparr>st_open := True\<rparr>, db2))))"

text \<open>The directory is never created: where it is missing, opening fails and touches nothing, whatever \<open>create_directories\<close> does.\<close>

lemma missing_directory_not_created:
  assumes "\<not> st_open (fst s)" and "\<not> fs_parent_empty fs" and "fs_stat fs = Stat_errno e"
  shows "storage_open api fs s = (False, s)"
  using assms by (cases s) (simp add: storage_open_def parent_ready_def is_directory_def)

definition storage_close :: "'db store \<Rightarrow> 'db store" where
  "storage_close s = (let (st, db) = s in if st_open st then (st\<lparr>st_open := False\<rparr>, db) else s)"

definition storage_isOpen :: "'db store \<Rightarrow> bool" where
  "storage_isOpen s = st_open (fst s)"

definition storeMessage :: "'db sqlite_api \<Rightarrow> float_text \<Rightarrow> message \<Rightarrow> 'db store \<Rightarrow> bool \<times> 'db store" where
  "storeMessage api fl m s =
     (let (st, db) = s in
      if \<not> st_open st then (False, s)
      else if \<not> sq_prepare api InsertMessageSql db then (False, s)
      else (let (type, str) = serializeTagValue fl (msg_value m);
                (finished, _, db') = sq_step api InsertMessageSql
                  [bind_text (msg_topic m), bind_text (msg_deviceId m), bind_text (msg_tagName m), Sq_int type,
                   bind_text str, Sq_int (int (quality_index (msg_quality m))),
                   Sq_int (timestampToMilliseconds (msg_timestamp m))] db
            in (finished, st, db')))"

text \<open>The body of the row loop: \<open>None\<close> skips the row.\<close>

definition message_of_row :: "'db sqlite_api \<Rightarrow> float_text \<Rightarrow> sq_value list \<Rightarrow> (int \<times> message) option" where
  "message_of_row api fl row =
     (let qualityValue = sq_column_int api (column row 6) in
      if \<not> isValidQuality qualityValue then None
      else (case deserializeTagValue fl (sq_column_int api (column row 4)) (readTextColumn api row 5) of
        None \<Rightarrow> None
      | Some value \<Rightarrow>
          Some (sq_column_int64 api (column row 0),
            \<lparr>msg_topic = readTextColumn api row 1, msg_deviceId = readTextColumn api row 2,
             msg_tagName = readTextColumn api row 3, msg_value = value,
             msg_quality = quality_of_index (nat qualityValue),
             msg_timestamp = millisecondsToTimestamp (sq_column_int64 api (column row 7))\<rparr>)))"

definition loadMessages :: "'db sqlite_api \<Rightarrow> float_text \<Rightarrow> u64 \<Rightarrow> 'db store \<Rightarrow> (int \<times> message) list" where
  "loadMessages api fl limit s =
     (let (st, db) = s in
      if \<not> st_open st then []
      else (let querySql = (if limit = 0 then SelectMessagesSql else SelectMessagesLimitSql) in
        if \<not> sq_prepare api querySql db then []
        else (let (rows, finished) = sq_rows api querySql (if limit > 0 then [Sq_int (sint limit)] else []) db in
          if \<not> finished then [] else List.map_filter (message_of_row api fl) rows)))"

definition count_of :: "'db sqlite_api \<Rightarrow> string \<Rightarrow> 'db store \<Rightarrow> int" where
  "count_of api sql s =
     (let (st, db) = s in
      if \<not> st_open st then 0
      else if \<not> sq_prepare api sql db then 0
      else (case fst (sq_rows api sql [] db) of [] \<Rightarrow> 0 | row # _ \<Rightarrow> sq_column_int64 api (column row 0)))"

definition messageCount :: "'db sqlite_api \<Rightarrow> 'db store \<Rightarrow> int" where
  "messageCount api s = count_of api CountMessagesSql s"

record pending_mqtt =
  pq_id :: int
  pq_topic :: string
  pq_payload :: string
  pq_retain :: bool
  pq_createdAtMs :: int

definition enqueueMqttMessage :: "'db sqlite_api \<Rightarrow> wall_time \<Rightarrow> string \<Rightarrow> string \<Rightarrow> bool \<Rightarrow> 'db store \<Rightarrow>
    bool \<times> 'db store" where
  "enqueueMqttMessage api now topic payload retain s =
     (let (st, db) = s in
      if \<not> st_open st \<or> topic = '''' then (False, s)
      else if \<not> sq_prepare api InsertOutboxSql db then (False, s)
      else (let (finished, _, db') = sq_step api InsertOutboxSql
                  [bind_text topic, bind_text payload, Sq_int (if retain then 1 else 0),
                   Sq_int (timestampToMilliseconds now)] db
            in (finished, st, db')))"

definition pending_of_row :: "'db sqlite_api \<Rightarrow> sq_value list \<Rightarrow> pending_mqtt" where
  "pending_of_row api row =
     \<lparr>pq_id = sq_column_int64 api (column row 0), pq_topic = readTextColumn api row 1,
      pq_payload = readTextColumn api row 2, pq_retain = (sq_column_int api (column row 3) \<noteq> 0),
      pq_createdAtMs = sq_column_int64 api (column row 4)\<rparr>"

definition loadPendingMqttMessages :: "'db sqlite_api \<Rightarrow> u64 \<Rightarrow> 'db store \<Rightarrow> pending_mqtt list" where
  "loadPendingMqttMessages api limit s =
     (let (st, db) = s in
      if \<not> st_open st then []
      else (let querySql = (if limit = 0 then SelectOutboxSql else SelectOutboxLimitSql) in
        if \<not> sq_prepare api querySql db then []
        else (let (rows, finished) = sq_rows api querySql (if limit > 0 then [Sq_int (sint limit)] else []) db in
          if \<not> finished then [] else map (pending_of_row api) rows)))"

definition removePendingMqttMessage :: "'db sqlite_api \<Rightarrow> int \<Rightarrow> 'db store \<Rightarrow> bool \<times> 'db store" where
  "removePendingMqttMessage api messageId s =
     (let (st, db) = s in
      if \<not> st_open st \<or> messageId \<le> 0 then (False, s)
      else if \<not> sq_prepare api DeleteOutboxSql db then (False, s)
      else (let (finished, changes, db') = sq_step api DeleteOutboxSql [Sq_int messageId] db
            in (finished \<and> changes = 1, st, db')))"

definition pendingMqttMessageCount :: "'db sqlite_api \<Rightarrow> 'db store \<Rightarrow> int" where
  "pendingMqttMessageCount api s = count_of api CountOutboxSql s"

definition journalMode :: "'db sqlite_api \<Rightarrow> 'db store \<Rightarrow> string" where
  "journalMode api s =
     (let (st, db) = s; sql = ''PRAGMA journal_mode;'' in
      if \<not> st_open st then ''''
      else if \<not> sq_prepare api sql db then ''''
      else (case fst (sq_rows api sql [] db) of [] \<Rightarrow> '''' | row # _ \<Rightarrow> readTextColumn api row 0))"

text \<open>
  Attaching to the bus the service was given; the callback is a value \<open>cb\<close> of the bus that stands for
  \<open>storeMessage\<close>. One bus is used in the program, so the pointer is a flag.
\<close>

definition detachMessageBus :: "storage \<times> 'cb bus \<Rightarrow> storage \<times> 'cb bus" where
  "detachMessageBus s =
     (let (st, b) = s;
          b' = (if st_attached st \<and> st_subscriptionId st \<noteq> InvalidSubscriptionId
                then snd (unsubscribe (st_subscriptionId st) b) else b)
      in (st\<lparr>st_attached := False, st_subscriptionId := InvalidSubscriptionId\<rparr>, b'))"

definition attachMessageBus :: "'cb \<Rightarrow> string \<Rightarrow> storage \<times> 'cb bus \<Rightarrow> bool \<times> storage \<times> 'cb bus" where
  "attachMessageBus cb sourceTopic s =
     (let (st, b) = detachMessageBus s in
      if \<not> st_open st then (False, st, b)
      else (let (subscriptionId, b') = subscribe sourceTopic (Some cb) b in
        if subscriptionId = InvalidSubscriptionId then (False, st, b')
        else (True, st\<lparr>st_attached := True, st_subscriptionId := subscriptionId\<rparr>, b')))"

text \<open>The destructor.\<close>

definition storage_destroy :: "'db store \<times> 'cb bus \<Rightarrow> 'db store \<times> 'cb bus" where
  "storage_destroy s =
     (let (store, b) = s; (st, b') = detachMessageBus (fst store, b) in (storage_close (st, snd store), b'))"

subsection \<open>What the service relies on of SQLite\<close>

definition new_row_id :: "int \<Rightarrow> (int \<times> 'r) list \<Rightarrow> bool" where
  "new_row_id i rows \<longleftrightarrow> 0 < i \<and> i < 2 ^ 63 \<and> (\<forall>r \<in> set rows. fst r < i)"

definition row_of :: "int \<times> sq_value list \<Rightarrow> sq_value list" where
  "row_of r = Sq_int (fst r) # snd r"

definition sqlite_columns_ok :: "'db sqlite_api \<Rightarrow> bool" where
  "sqlite_columns_ok api \<longleftrightarrow>
     (\<forall>i. - (2 ^ 31) \<le> i \<and> i < 2 ^ 31 \<longrightarrow> sq_column_int api (Sq_int i) = i) \<and>
     (\<forall>i. - (2 ^ 63) \<le> i \<and> i < 2 ^ 63 \<longrightarrow> sq_column_int64 api (Sq_int i) = i) \<and>
     (\<forall>t. sq_column_text api (Sq_text t) = Some t)"

text \<open>
  \<open>AUTOINCREMENT\<close> gives every new row a larger id, so a table is a list in id order. An insertion that is not
  done changes nothing; a query that runs to its end returns the rows in id order, at most \<open>n\<close> of them with \<open>LIMIT n\<close>, and all of
  them when \<open>n\<close> is negative, as the cast of a large \<open>std::size_t\<close> is.
\<close>

definition sqlite_table_ok :: "'db sqlite_api \<Rightarrow> string \<Rightarrow> nat \<Rightarrow> string \<Rightarrow> string \<Rightarrow> string \<Rightarrow>
    ('db \<Rightarrow> (int \<times> sq_value list) list) \<Rightarrow> bool" where
  "sqlite_table_ok api ins width sel sel_limit cnt table \<longleftrightarrow>
     (\<forall>ps db. length ps = width \<longrightarrow>
        (case sq_step api ins ps db of (finished, _, db') \<Rightarrow>
           if finished then \<exists>i. new_row_id i (table db) \<and> table db' = table db @ [(i, ps)] else table db' = table db)) \<and>
     (\<forall>db. case sq_rows api sel [] db of (rows, finished) \<Rightarrow> finished \<longrightarrow> rows = map row_of (table db)) \<and>
     (\<forall>n db. n \<noteq> 0 \<longrightarrow> (case sq_rows api sel_limit [Sq_int n] db of (rows, finished) \<Rightarrow>
        finished \<longrightarrow> rows = map row_of (if n < 0 then table db else take (nat n) (table db)))) \<and>
     (\<forall>db. case fst (sq_rows api cnt [] db) of [] \<Rightarrow> True | row # _ \<Rightarrow> row = [Sq_int (int (length (table db)))])"

definition sqlite_history_ok :: "'db sqlite_api \<Rightarrow> ('db \<Rightarrow> (int \<times> sq_value list) list) \<Rightarrow> bool" where
  "sqlite_history_ok api table \<longleftrightarrow> sqlite_columns_ok api \<and>
     sqlite_table_ok api InsertMessageSql 7 SelectMessagesSql SelectMessagesLimitSql CountMessagesSql table"

definition sqlite_outbox_ok :: "'db sqlite_api \<Rightarrow> ('db \<Rightarrow> (int \<times> sq_value list) list) \<Rightarrow> bool" where
  "sqlite_outbox_ok api table \<longleftrightarrow> sqlite_columns_ok api \<and>
     sqlite_table_ok api InsertOutboxSql 4 SelectOutboxSql SelectOutboxLimitSql CountOutboxSql table \<and>
     (\<forall>i db. case sq_step api DeleteOutboxSql [Sq_int i] db of (finished, n, db') \<Rightarrow>
        if finished then table db' = filter (\<lambda>r. fst r \<noteq> i) (table db) \<and>
          n = int (length (filter (\<lambda>r. fst r = i) (table db)))
        else table db' = table db)"

subsection \<open>Values survive the text form\<close>

lemma sint_word_bounds: "- (2 ^ (LENGTH('a::len) - 1)) \<le> sint (w :: 'a word) \<and> sint w < 2 ^ (LENGTH('a) - 1)"
  using sint_greater_eq [of w] sint_less [of w] by simp

text \<open>
  The floating-point texts can be read back for the value in question (the purpose of \<open>max_digits10\<close>; \<open>stof\<close> and \<open>stod\<close>
  throw on subnormal numbers, and NaN loses its payload, so this is not a law for all patterns).
\<close>

fun text_reads_back :: "float_text \<Rightarrow> tag_value \<Rightarrow> bool" where
  "text_reads_back fl (Val_Float w) \<longleftrightarrow> ft_stof fl (ft_print_float fl w) = Some w \<and> CHR 0x00 \<notin> set (ft_print_float fl w)"
| "text_reads_back fl (Val_Double w) \<longleftrightarrow> ft_stod fl (ft_print_double fl w) = Some w \<and> CHR 0x00 \<notin> set (ft_print_double fl w)"
| "text_reads_back fl (Val_String s) \<longleftrightarrow> CHR 0x00 \<notin> set s"
| "text_reads_back fl _ \<longleftrightarrow> True"

lemma stoi_sint8: "stoi (to_string (sint (w :: 8 word))) = Some (sint w)"
  using sint_word_bounds [of w] by (intro stoi_to_string) simp_all

lemma stoi_sint16: "stoi (to_string (sint (w :: 16 word))) = Some (sint w)"
  using sint_word_bounds [of w] by (intro stoi_to_string) simp_all

lemma stoll_sint32: "stoll (to_string (sint (w :: 32 word))) = Some (sint w)"
  using sint_word_bounds [of w] by (intro stoll_to_string) simp_all

lemma stoll_sint64: "stoll (to_string (sint (w :: 64 word))) = Some (sint w)"
  using sint_word_bounds [of w] by (intro stoll_to_string) simp_all

lemma stoull_uint:
  "LENGTH('a::len) \<le> 64 \<Longrightarrow> stoull (to_string (uint (w :: 'a word))) = Some (uint w)"
proof (rule stoull_to_string)
  assume "LENGTH('a) \<le> 64"
  then have "(2 :: int) ^ LENGTH('a) \<le> 2 ^ 64" by (rule power_increasing) simp
  then show "uint w < 2 ^ 64" using uint_lt2p [of w] by linarith
qed simp

lemma c_str_value_text: "text_reads_back fl v \<Longrightarrow> c_str (value_text fl v) = value_text fl v"
  by (cases v) (simp_all add: c_str_id)

lemma deserialize_value_text:
  "text_reads_back fl v \<Longrightarrow> deserializeTagValue fl (int (value_index v)) (value_text fl v) = Some v"
  by (cases v) (simp_all add: deserializeTagValue_def stoi_sint8 stoi_sint16 stoll_sint32 stoll_sint64 stoull_uint)

text \<open>
  Every tag value can be read back from its type number and text: integers of every width and sign, booleans,
  strings and, where the C++ library prints and reads it back, floating point. Texts without NUL also survive being
  bound as C strings.
\<close>

theorem tag_value_text_roundtrip:
  assumes "text_reads_back fl v" and "serializeTagValue fl v = (type, str)"
  shows "deserializeTagValue fl type (c_str str) = Some v"
  using assms deserialize_value_text [of fl v] c_str_value_text [of fl v]
  by (auto simp: serializeTagValue_def)

text \<open>Instance of the text conversions for witnesses: hexadecimal-free, by the integer conversions.\<close>

definition demo_fl :: float_text where
  "demo_fl = \<lparr>ft_print_float = (\<lambda>w. to_string (uint w)), ft_print_double = (\<lambda>w. to_string (uint w)),
     ft_stof = (\<lambda>s. map_option word_of_int (stoull s)), ft_stod = (\<lambda>s. map_option word_of_int (stoull s))\<rparr>"

theorem tag_value_text_roundtrip_witness:
  "serializeTagValue demo_fl (Val_Int8 (- 5)) = (2, ''-5'') \<and> deserializeTagValue demo_fl 2 (c_str ''-5'') = Some (Val_Int8 (- 5))"
proof -
  have s: "serializeTagValue demo_fl (Val_Int8 (- 5)) = (2, ''-5'')"
    by code_simp
  with tag_value_text_roundtrip [OF _ s] show ?thesis by simp
qed

subsection \<open>The outbox is a first-in first-out queue\<close>

text \<open>Rows as \<open>enqueueMqttMessage\<close> writes them, with increasing positive ids.\<close>

fun outbox_row_ok :: "int \<times> sq_value list \<Rightarrow> bool" where
  "outbox_row_ok (i, [Sq_text t, Sq_text p, Sq_int r, Sq_int c]) \<longleftrightarrow>
     0 < i \<and> i < 2 ^ 63 \<and> (r = 0 \<or> r = 1) \<and> - (2 ^ 63) \<le> c \<and> c < 2 ^ 63"
| "outbox_row_ok _ \<longleftrightarrow> False"

definition outbox_wf :: "(int \<times> sq_value list) list \<Rightarrow> bool" where
  "outbox_wf rows \<longleftrightarrow> sorted_wrt (<) (map fst rows) \<and> list_all outbox_row_ok rows"

definition store_inv :: "'db sqlite_api \<Rightarrow> ('db \<Rightarrow> (int \<times> sq_value list) list) \<Rightarrow> 'db store \<Rightarrow> bool" where
  "store_inv api table s \<longleftrightarrow> sqlite_outbox_ok api table \<and> st_open (fst s) \<and> outbox_wf (table (snd s))"

definition store_queue :: "'db sqlite_api \<Rightarrow> ('db \<Rightarrow> (int \<times> sq_value list) list) \<Rightarrow> 'db store \<Rightarrow> pending_mqtt list" where
  "store_queue api table s = map (\<lambda>r. pending_of_row api (row_of r)) (table (snd s))"

text \<open>
  The interface the MQTT service relies on. \<open>enq\<close> appends, \<open>load\<close> returns a prefix of the queue (or nothing when the
  query fails), \<open>del\<close> removes the entry with an id.
\<close>

locale outbox =
  fixes enq :: "string \<Rightarrow> string \<Rightarrow> bool \<Rightarrow> 's \<Rightarrow> bool \<times> 's"
    and load :: "u64 \<Rightarrow> 's \<Rightarrow> pending_mqtt list"
    and del :: "int \<Rightarrow> 's \<Rightarrow> bool \<times> 's"
    and queue :: "'s \<Rightarrow> pending_mqtt list" and invar :: "'s \<Rightarrow> bool"
  assumes enq_queue: "invar s \<Longrightarrow> enq t p r s = (True, s') \<Longrightarrow>
        \<exists>q. queue s' = queue s @ [q] \<and> pq_topic q = c_str t \<and> pq_payload q = c_str p \<and> pq_retain q = r"
    and enq_refused: "invar s \<Longrightarrow> enq t p r s = (False, s') \<Longrightarrow> queue s' = queue s"
    and enq_invar: "invar s \<Longrightarrow> invar (snd (enq t p r s))"
    and load_prefix: "invar s \<Longrightarrow> load n s = [] \<or> load n s = (if n = 0 then queue s else take (unat n) (queue s))"
    and del_queue: "invar s \<Longrightarrow> del i s = (ok, s') \<Longrightarrow>
        queue s' = queue s \<and> \<not> ok \<or> queue s' = filter (\<lambda>q. pq_id q \<noteq> i) (queue s) \<and> (ok \<longleftrightarrow> i \<in> pq_id ` set (queue s))"
    and del_invar: "invar s \<Longrightarrow> invar (snd (del i s))"
    and ids_distinct: "invar s \<Longrightarrow> distinct (map pq_id (queue s))"
begin

text \<open>Taking the oldest message out keeps the rest in order.\<close>

lemma del_first:
  assumes "invar s" and "load n s = q # qs" and "del (pq_id q) s = (True, s')"
  shows "queue s' = tl (queue s) \<and> hd (queue s) = q"
proof -
  obtain rest where q: "queue s = q # rest"
    using load_prefix [OF assms(1), of n] assms(2) by (cases "queue s") (auto split: if_splits simp: take_Cons')
  have "q \<notin> set rest" "\<And>x. x \<in> set rest \<Longrightarrow> pq_id x \<noteq> pq_id q"
    using ids_distinct [OF assms(1)] q by (auto simp: image_iff)
  then have "filter (\<lambda>x. pq_id x \<noteq> pq_id q) (queue s) = rest" by (simp add: q filter_id_conv)
  with del_queue [OF assms(1,3)] q show ?thesis by auto
qed

lemma enq_last: "invar s \<Longrightarrow> enq t p r s = (True, s') \<Longrightarrow> queue s' \<noteq> [] \<and> pq_topic (last (queue s')) = c_str t"
  using enq_queue by fastforce

end

lemma pending_of_stored:
  assumes "sqlite_columns_ok api" and "outbox_row_ok r"
  shows "pq_id (pending_of_row api (row_of r)) = fst r"
proof -
  obtain i t p q c where "r = (i, [Sq_text t, Sq_text p, Sq_int q, Sq_int c])" "0 < i" "i < 2 ^ 63"
    using assms(2) by (cases r rule: outbox_row_ok.cases) simp_all
  then show ?thesis using assms(1) by (simp add: pending_of_row_def row_of_def column_def sqlite_columns_ok_def)
qed

lemma queue_ids:
  assumes "store_inv api table s"
  shows "map pq_id (store_queue api table s) = map fst (table (snd s))"
proof -
  have "sqlite_columns_ok api" "list_all outbox_row_ok (table (snd s))"
    using assms by (simp_all add: store_inv_def sqlite_outbox_ok_def outbox_wf_def)
  then show ?thesis
    by (auto simp: store_queue_def list_all_iff pending_of_stored)
qed

lemma ms_range: "- (2 ^ 63) \<le> timestampToMilliseconds t \<and> timestampToMilliseconds t < 2 ^ 63"
proof -
  have b: "- (2 ^ 63) \<le> sint t \<and> sint t < 2 ^ 63" using sint_word_bounds [of t] by simp
  have "0 \<le> \<bar>sint t\<bar> div 1000000" by (simp add: pos_imp_zdiv_nonneg_iff)
  moreover have "\<bar>sint t\<bar> div 1000000 \<le> 2 ^ 63 div 1000000"
    using b by (intro zdiv_mono1) auto
  ultimately show ?thesis using b by (auto simp: timestampToMilliseconds_def cpp_div_def Let_def)
qed

lemma outbox_wf_append:
  "outbox_wf rows \<Longrightarrow> new_row_id i rows \<Longrightarrow> outbox_row_ok (i, ps) \<Longrightarrow> outbox_wf (rows @ [(i, ps)])"
  by (auto simp: outbox_wf_def new_row_id_def sorted_wrt_append)

lemma outbox_wf_filter: "outbox_wf rows \<Longrightarrow> outbox_wf (filter P rows)"
proof -
  assume a: "outbox_wf rows"
  then have "sorted_wrt (\<lambda>x y. fst x < fst y) rows" by (simp add: outbox_wf_def sorted_wrt_map)
  then have "sorted_wrt (\<lambda>x y. fst x < fst y) (filter P rows)" by (rule sorted_wrt_filter)
  then show ?thesis using a by (auto simp: outbox_wf_def sorted_wrt_map list_all_iff)
qed

lemma outbox_insert:
  assumes "sqlite_outbox_ok api table" and "length ps = 4" and "sq_step api InsertOutboxSql ps db = (d, n, db')"
  shows "if d then \<exists>i. new_row_id i (table db) \<and> table db' = table db @ [(i, ps)] else table db' = table db"
proof -
  have "sqlite_table_ok api InsertOutboxSql 4 SelectOutboxSql SelectOutboxLimitSql CountOutboxSql table"
    using assms(1) by (simp add: sqlite_outbox_ok_def)
  then show ?thesis using assms(2,3) unfolding sqlite_table_ok_def by (elim conjE allE [of _ ps]) (auto dest: spec [of _ db])
qed

lemma outbox_delete:
  assumes "sqlite_outbox_ok api table" and "sq_step api DeleteOutboxSql [Sq_int i] db = (d, n, db')"
  shows "if d then table db' = filter (\<lambda>r. fst r \<noteq> i) (table db) \<and> n = int (length (filter (\<lambda>r. fst r = i) (table db)))
    else table db' = table db"
proof -
  have "case sq_step api DeleteOutboxSql [Sq_int i] db of (finished, n, db') \<Rightarrow>
        if finished then table db' = filter (\<lambda>r. fst r \<noteq> i) (table db) \<and>
          n = int (length (filter (\<lambda>r. fst r = i) (table db)))
        else table db' = table db"
    using assms(1) by (simp add: sqlite_outbox_ok_def)
  then show ?thesis by (simp add: assms(2))
qed

lemma enqueue_spec:
  assumes inv: "store_inv api table s" and e: "enqueueMqttMessage api now t p r s = (ok, s')"
  shows "store_inv api table s' \<and>
    (if ok then \<exists>q. store_queue api table s' = store_queue api table s @ [q] \<and> pq_topic q = c_str t \<and>
        pq_payload q = c_str p \<and> pq_retain q = r \<and> pq_createdAtMs q = timestampToMilliseconds now
     else store_queue api table s' = store_queue api table s)"
proof -
  obtain st db where s: "s = (st, db)" by fastforce
  have api: "sqlite_outbox_ok api table" and op: "st_open st" and wf: "outbox_wf (table db)"
    using inv by (simp_all add: store_inv_def s)
  have col: "sqlite_columns_ok api" using api by (simp add: sqlite_outbox_ok_def)
  show ?thesis
  proof (cases "t = '''' \<or> \<not> sq_prepare api InsertOutboxSql db")
    case True
    then have "ok = False \<and> s' = s" using e op by (auto simp: enqueueMqttMessage_def s split: if_splits)
    then show ?thesis using inv by simp
  next
    case False
    let ?ps = "[bind_text t, bind_text p, Sq_int (if r then 1 else 0), Sq_int (timestampToMilliseconds now)]"
    obtain d n db' where st: "sq_step api InsertOutboxSql ?ps db = (d, n, db')" by (metis prod_cases3)
    have s': "ok = d" "s' = (st, db')" using e False op st by (auto simp: enqueueMqttMessage_def s)
    note ins = outbox_insert [OF api _ st]
    show ?thesis
    proof (cases d)
      case True
      then obtain i where i: "new_row_id i (table db)" "table db' = table db @ [(i, ?ps)]" using ins by auto
      have row: "outbox_row_ok (i, ?ps)"
        using i(1) ms_range [of now] by (simp add: bind_text_def new_row_id_def)
      have "pending_of_row api (row_of (i, ?ps)) =
          \<lparr>pq_id = i, pq_topic = c_str t, pq_payload = c_str p, pq_retain = r, pq_createdAtMs = timestampToMilliseconds now\<rparr>"
        using col i(1) ms_range [of now]
        by (simp add: pending_of_row_def row_of_def column_def readTextColumn_def bind_text_def sqlite_columns_ok_def
            new_row_id_def)
      then show ?thesis
        using True s' i api op outbox_wf_append [OF wf i(1) row]
        by (simp add: store_inv_def store_queue_def s)
    next
      case False
      then show ?thesis using s' ins api op wf by (simp add: store_inv_def store_queue_def s)
    qed
  qed
qed

text \<open>The cast of the limit to \<open>sqlite3_int64\<close>: it is exact or gives a negative number.\<close>

lemma sint_limit:
  fixes n :: u64
  shows "0 \<le> sint n \<Longrightarrow> nat (sint n) = unat n" and "sint n < 0 \<Longrightarrow> 2 ^ 63 \<le> unat n"
proof -
  have b: "- (2 ^ 63) \<le> sint n" "sint n < 2 ^ 63" using sint_ge [of n] sint_lt [of n] by simp_all
  have "word_of_int (sint n) = n" by simp
  then have u: "uint n = sint n mod 2 ^ 64" using uint_word_of_int [of "sint n", where 'a = 64] by (simp only:) simp
  show "nat (sint n) = unat n" if "0 \<le> sint n"
  proof -
    have "sint n mod 2 ^ 64 = sint n" using that b(2) by (intro mod_pos_pos_trivial) simp_all
    then show ?thesis using u by (simp only: unat_eq_nat_uint)
  qed
  show "2 ^ 63 \<le> unat n" if "sint n < 0"
  proof -
    have "(sint n + 2 ^ 64) mod 2 ^ 64 = sint n + 2 ^ 64" using that b(1) by (intro mod_pos_pos_trivial) simp_all
    then have "uint n = sint n + 2 ^ 64" using u by (simp only: mod_add_self2)
    then have "int (2 ^ 63) \<le> int (unat n)" using b(1) by simp
    then show ?thesis by (simp only: of_nat_le_iff)
  qed
qed

lemma outbox_wf_length: "outbox_wf rows \<Longrightarrow> length rows < 2 ^ 63"
proof -
  assume wf: "outbox_wf rows"
  have "0 < fst r \<and> fst r < 2 ^ 63" if "r \<in> set rows" for r
    using wf that by (cases r rule: outbox_row_ok.cases) (auto simp: outbox_wf_def list_all_iff)
  then have "fst ` set rows \<subseteq> {1..<2 ^ 63}" by force
  then have "card (fst ` set rows) \<le> card {1..<(2 :: int) ^ 63}" by (intro card_mono) simp_all
  moreover have "card (set (map fst rows)) = length (map fst rows)"
    using wf by (intro distinct_card) (simp add: outbox_wf_def strict_sorted_iff)
  ultimately show ?thesis by simp
qed

lemma load_spec:
  assumes inv: "store_inv api table s"
  shows "loadPendingMqttMessages api n s = [] \<or>
    loadPendingMqttMessages api n s = (if n = 0 then store_queue api table s else take (unat n) (store_queue api table s))"
proof -
  obtain st db where s: "s = (st, db)" by fastforce
  have t: "sqlite_table_ok api InsertOutboxSql 4 SelectOutboxSql SelectOutboxLimitSql CountOutboxSql table"
    and wf: "outbox_wf (table db)"
    using inv by (simp_all add: store_inv_def sqlite_outbox_ok_def s)
  show ?thesis
  proof (cases "n = 0")
    case True
    have "case sq_rows api SelectOutboxSql [] db of (rows, finished) \<Rightarrow> finished \<longrightarrow> rows = map row_of (table db)"
      using t by (simp add: sqlite_table_ok_def)
    then show ?thesis using True by (auto simp: loadPendingMqttMessages_def s store_queue_def split: prod.splits)
  next
    case False
    then have z: "sint n \<noteq> 0" "0 < n" using sint_limit(1) [of n] by (auto simp: word_gt_0 unat_eq_0)
    have "\<forall>n db. n \<noteq> 0 \<longrightarrow> (case sq_rows api SelectOutboxLimitSql [Sq_int n] db of (rows, finished) \<Rightarrow>
        finished \<longrightarrow> rows = map row_of (if n < 0 then table db else take (nat n) (table db)))"
      using t unfolding sqlite_table_ok_def by (elim conjE)
    from this [rule_format, OF z(1), of db]
    have "case sq_rows api SelectOutboxLimitSql [Sq_int (sint n)] db of (rows, finished) \<Rightarrow>
        finished \<longrightarrow> rows = map row_of (if sint n < 0 then table db else take (nat (sint n)) (table db))"
      by (auto split: prod.splits)
    moreover have "(if sint n < 0 then table db else take (nat (sint n)) (table db)) = take (unat n) (table db)"
      using sint_limit [of n] outbox_wf_length [OF wf] by auto
    ultimately show ?thesis using z(2)
      by (auto simp: loadPendingMqttMessages_def s store_queue_def take_map split: prod.splits)
  qed
qed

lemma length_filter_key:
  "distinct (map fst rows) \<Longrightarrow> length (filter (\<lambda>r. fst r = k) rows) = (if k \<in> fst ` set rows then 1 else 0)"
proof (induction rows)
  case (Cons r rows)
  then have "fst r \<notin> fst ` set rows" by simp
  then have "filter (\<lambda>x. fst x = fst r) rows = []" by (auto simp: filter_empty_conv image_iff)
  with Cons show ?case by auto
qed simp

lemma remove_spec:
  assumes inv: "store_inv api table s" and e: "removePendingMqttMessage api i s = (ok, s')"
  shows "store_inv api table s' \<and>
    (store_queue api table s' = store_queue api table s \<and> \<not> ok \<or>
     store_queue api table s' = filter (\<lambda>q. pq_id q \<noteq> i) (store_queue api table s) \<and>
       (ok \<longleftrightarrow> i \<in> pq_id ` set (store_queue api table s)))"
proof -
  obtain st db where s: "s = (st, db)" by fastforce
  have api: "sqlite_outbox_ok api table" and op: "st_open st" and wf: "outbox_wf (table db)"
    using inv by (simp_all add: store_inv_def s)
  have col: "sqlite_columns_ok api" using api by (simp add: sqlite_outbox_ok_def)
  show ?thesis
  proof (cases "i \<le> 0 \<or> \<not> sq_prepare api DeleteOutboxSql db")
    case True
    then have "\<not> ok \<and> s' = s" using e op by (auto simp: removePendingMqttMessage_def s split: if_splits)
    then show ?thesis using inv by simp
  next
    case False
    obtain d n db' where st: "sq_step api DeleteOutboxSql [Sq_int i] db = (d, n, db')" by (metis prod_cases3)
    have s': "ok = (d \<and> n = 1)" "s' = (st, db')" using e False op st by (auto simp: removePendingMqttMessage_def s)
    note del = outbox_delete [OF api st]
    show ?thesis
    proof (cases d)
      case True
      have id: "pq_id (pending_of_row api (row_of r)) = fst r" if "r \<in> set (table db)" for r
        using that wf col by (auto simp: outbox_wf_def list_all_iff intro: pending_of_stored)
      have "filter (\<lambda>q. pq_id q \<noteq> i) (store_queue api table s) =
          map (\<lambda>r. pending_of_row api (row_of r)) (filter (\<lambda>r. fst r \<noteq> i) (table db))"
        by (simp add: store_queue_def s filter_map comp_def id cong: filter_cong)
      moreover have "length (filter (\<lambda>r. fst r = i) (table db)) = (if i \<in> fst ` set (table db) then 1 else 0)"
      proof -
        have "distinct (map fst (table db))" using wf by (simp add: outbox_wf_def strict_sorted_iff)
        then show ?thesis by (rule length_filter_key)
      qed
      moreover have "pq_id ` set (store_queue api table s) = fst ` set (table db)"
        using queue_ids [OF inv] by (metis image_set s snd_conv)
      ultimately show ?thesis
        using True del s' api op outbox_wf_filter [OF wf]
        by (simp add: store_inv_def store_queue_def s split: if_splits)
    next
      case False
      then show ?thesis using s' del api op wf by (simp add: store_inv_def store_queue_def s)
    qed
  qed
qed

interpretation ob: outbox "enqueueMqttMessage api now" "loadPendingMqttMessages api" "removePendingMqttMessage api"
  "store_queue api table" "store_inv api table"
proof unfold_locales
  fix s s' :: "'a store" and t p :: string and r ok i n
  assume inv: "store_inv api table s"
  show "enqueueMqttMessage api now t p r s = (True, s') \<Longrightarrow>
      \<exists>q. store_queue api table s' = store_queue api table s @ [q] \<and> pq_topic q = c_str t \<and> pq_payload q = c_str p \<and> pq_retain q = r"
    using enqueue_spec [OF inv, of now t p r True s'] by auto
  show "enqueueMqttMessage api now t p r s = (False, s') \<Longrightarrow> store_queue api table s' = store_queue api table s"
    using enqueue_spec [OF inv, of now t p r False s'] by simp
  show "store_inv api table (snd (enqueueMqttMessage api now t p r s))"
    using enqueue_spec [OF inv] by (metis surj_pair snd_conv)
  show "loadPendingMqttMessages api n s = [] \<or>
      loadPendingMqttMessages api n s = (if n = 0 then store_queue api table s else take (unat n) (store_queue api table s))"
    using inv by (rule load_spec)
  show "removePendingMqttMessage api i s = (ok, s') \<Longrightarrow>
      store_queue api table s' = store_queue api table s \<and> \<not> ok \<or>
      store_queue api table s' = filter (\<lambda>q. pq_id q \<noteq> i) (store_queue api table s) \<and>
        (ok \<longleftrightarrow> i \<in> pq_id ` set (store_queue api table s))"
    using remove_spec [OF inv, of i ok s'] by simp
  show "store_inv api table (snd (removePendingMqttMessage api i s))"
    using remove_spec [OF inv] by (metis surj_pair snd_conv)
  show "distinct (map pq_id (store_queue api table s))"
    using inv queue_ids [OF inv] by (simp add: store_inv_def outbox_wf_def strict_sorted_iff)
qed

subsection \<open>An in-memory instance\<close>

type_synonym mem_db = "(int \<times> sq_value list) list \<times> (int \<times> sq_value list) list"

definition next_id :: "(int \<times> sq_value list) list \<Rightarrow> int" where
  "next_id rows = foldr (\<lambda>r. max (fst r)) rows 0 + 1"

lemma next_id_greater: "0 < next_id rows \<and> (\<forall>r \<in> set rows. fst r < next_id rows)"
  unfolding next_id_def by (induction rows) auto

definition mem_api :: "mem_db sqlite_api" where
  "mem_api =
     \<lparr>sq_open = (\<lambda>path db. (True, db)), sq_exec = (\<lambda>sql db. (True, db)), sq_prepare = (\<lambda>sql db. True),
      sq_step = (\<lambda>sql ps (ms, os).
        if sql = InsertMessageSql then
          (if next_id ms < 2 ^ 63 then (True, 1, ms @ [(next_id ms, ps)], os) else (False, 0, ms, os))
        else if sql = InsertOutboxSql then
          (if next_id os < 2 ^ 63 then (True, 1, ms, os @ [(next_id os, ps)]) else (False, 0, ms, os))
        else if sql = DeleteOutboxSql then
          (case ps of [Sq_int i] \<Rightarrow>
             (True, int (length (filter (\<lambda>r. fst r = i) os)), ms, filter (\<lambda>r. fst r \<noteq> i) os)
           | _ \<Rightarrow> (False, 0, ms, os))
        else (False, 0, ms, os)),
      sq_rows = (\<lambda>sql ps (ms, os).
        let limit = (case ps of [Sq_int n] \<Rightarrow> if n < 0 then id else take (nat n) | _ \<Rightarrow> id) in
        if sql = SelectMessagesSql then (map row_of ms, True)
        else if sql = SelectMessagesLimitSql then (map row_of (limit ms), True)
        else if sql = CountMessagesSql then ([[Sq_int (int (length ms))]], True)
        else if sql = SelectOutboxSql then (map row_of os, True)
        else if sql = SelectOutboxLimitSql then (map row_of (limit os), True)
        else if sql = CountOutboxSql then ([[Sq_int (int (length os))]], True)
        else ([], False)),
      sq_column_int = (\<lambda>v. case v of Sq_int i \<Rightarrow> i | _ \<Rightarrow> 0),
      sq_column_int64 = (\<lambda>v. case v of Sq_int i \<Rightarrow> i | _ \<Rightarrow> 0),
      sq_column_text = (\<lambda>v. case v of Sq_text t \<Rightarrow> Some t | _ \<Rightarrow> None)\<rparr>"

lemma sql_texts_differ:
  "InsertMessageSql \<noteq> InsertOutboxSql" "InsertMessageSql \<noteq> DeleteOutboxSql" "InsertOutboxSql \<noteq> InsertMessageSql"
  "DeleteOutboxSql \<noteq> InsertMessageSql" "DeleteOutboxSql \<noteq> InsertOutboxSql"
  "SelectMessagesLimitSql \<noteq> SelectMessagesSql" "CountMessagesSql \<noteq> SelectMessagesSql"
  "CountMessagesSql \<noteq> SelectMessagesLimitSql" "SelectOutboxSql \<noteq> SelectMessagesSql"
  "SelectOutboxSql \<noteq> SelectMessagesLimitSql" "SelectOutboxSql \<noteq> CountMessagesSql"
  "SelectOutboxLimitSql \<noteq> SelectMessagesSql" "SelectOutboxLimitSql \<noteq> SelectMessagesLimitSql"
  "SelectOutboxLimitSql \<noteq> CountMessagesSql" "SelectOutboxLimitSql \<noteq> SelectOutboxSql"
  "CountOutboxSql \<noteq> SelectMessagesSql" "CountOutboxSql \<noteq> SelectMessagesLimitSql"
  "CountOutboxSql \<noteq> CountMessagesSql" "CountOutboxSql \<noteq> SelectOutboxSql" "CountOutboxSql \<noteq> SelectOutboxLimitSql"
  by (simp_all add: InsertMessageSql_def InsertOutboxSql_def DeleteOutboxSql_def SelectMessagesSql_def
      SelectMessagesLimitSql_def CountMessagesSql_def SelectOutboxSql_def SelectOutboxLimitSql_def CountOutboxSql_def)

lemma mem_api_ok: "sqlite_history_ok mem_api fst" "sqlite_outbox_ok mem_api snd"
  using next_id_greater
  by (auto simp: sqlite_history_ok_def sqlite_outbox_ok_def sqlite_columns_ok_def sqlite_table_ok_def mem_api_def
      sql_texts_differ new_row_id_def)

text \<open>
  C13. The outbox is a first-in first-out queue with stable ids: a successful enqueue appends one message with the given
  topic, payload, retain flag and time; loading returns the oldest messages in order (or nothing when the query
  fails); removing an id takes out exactly that message and reports whether it was there; a failed call changes
  nothing. All of it for any database that keeps the documented behaviour of the five statements.
\<close>

theorem outbox_is_fifo:
  assumes "store_inv api table s"
  shows "(case enqueueMqttMessage api now t p r s of (ok, s') \<Rightarrow>
        store_inv api table s' \<and>
        (if ok then \<exists>q. store_queue api table s' = store_queue api table s @ [q] \<and> pq_topic q = c_str t \<and>
             pq_payload q = c_str p \<and> pq_retain q = r \<and> pq_createdAtMs q = timestampToMilliseconds now
         else store_queue api table s' = store_queue api table s)) \<and>
    loadPendingMqttMessages api n s \<in> {[], if n = 0 then store_queue api table s else take (unat n) (store_queue api table s)} \<and>
    (case removePendingMqttMessage api i s of (ok, s') \<Rightarrow>
        store_inv api table s' \<and>
        (store_queue api table s' = store_queue api table s \<and> \<not> ok \<or>
         store_queue api table s' = filter (\<lambda>q. pq_id q \<noteq> i) (store_queue api table s) \<and>
           (ok \<longleftrightarrow> i \<in> pq_id ` set (store_queue api table s))))"
proof (intro conjI)
  show "case enqueueMqttMessage api now t p r s of (ok, s') \<Rightarrow>
        store_inv api table s' \<and>
        (if ok then \<exists>q. store_queue api table s' = store_queue api table s @ [q] \<and> pq_topic q = c_str t \<and>
             pq_payload q = c_str p \<and> pq_retain q = r \<and> pq_createdAtMs q = timestampToMilliseconds now
         else store_queue api table s' = store_queue api table s)"
    using enqueue_spec [OF assms, of now t p r] by (cases "enqueueMqttMessage api now t p r s") blast
  show "loadPendingMqttMessages api n s \<in> {[], if n = 0 then store_queue api table s else take (unat n) (store_queue api table s)}"
    using load_spec [OF assms, of n] by simp
  show "case removePendingMqttMessage api i s of (ok, s') \<Rightarrow>
        store_inv api table s' \<and>
        (store_queue api table s' = store_queue api table s \<and> \<not> ok \<or>
         store_queue api table s' = filter (\<lambda>q. pq_id q \<noteq> i) (store_queue api table s) \<and>
           (ok \<longleftrightarrow> i \<in> pq_id ` set (store_queue api table s)))"
    using remove_spec [OF assms, of i] by (cases "removePendingMqttMessage api i s") blast
qed

definition mem_store :: "mem_db store" where
  "mem_store = ((new_storage ''/var/lib/edgelink/edgelink.db'')\<lparr>st_open := True\<rparr>, [], [])"

lemma mem_store_inv: "store_inv mem_api snd mem_store"
  by (simp add: store_inv_def mem_api_ok mem_store_def outbox_wf_def)

theorem outbox_is_fifo_witness:
  "case enqueueMqttMessage mem_api 0 ''a'' ''x'' True mem_store of (ok, s') \<Rightarrow>
     store_inv mem_api snd s' \<and>
     (if ok then \<exists>q. store_queue mem_api snd s' = [q] \<and> pq_topic q = ''a'' \<and> pq_payload q = ''x'' \<and> pq_retain q
      else store_queue mem_api snd s' = [])"
proof -
  have q: "store_queue mem_api snd mem_store = []" by (simp add: store_queue_def mem_store_def)
  have c: "c_str ''a'' = ''a''" "c_str ''x'' = ''x''" by (simp_all add: c_str_def)
  show ?thesis
    using outbox_is_fifo [OF mem_store_inv, where now = 0 and t = "''a''" and p = "''x''" and r = True and n = 0 and i = 0]
    by (auto simp: q c split: prod.splits if_splits)
qed

subsection \<open>The message history\<close>

text \<open>What is stored of a message: C strings and whole milliseconds.\<close>

definition stored_form :: "message \<Rightarrow> message" where
  "stored_form m = m\<lparr>msg_topic := c_str (msg_topic m), msg_deviceId := c_str (msg_deviceId m),
     msg_tagName := c_str (msg_tagName m),
     msg_timestamp := millisecondsToTimestamp (timestampToMilliseconds (msg_timestamp m))\<rparr>"

text \<open>The messages that can be read back, oldest first.\<close>

definition history :: "'db sqlite_api \<Rightarrow> float_text \<Rightarrow> ('db \<Rightarrow> (int \<times> sq_value list) list) \<Rightarrow> 'db store \<Rightarrow> (int \<times> message) list" where
  "history api fl table s = List.map_filter (\<lambda>r. message_of_row api fl (row_of r)) (table (snd s))"

lemma message_of_stored_row:
  assumes "sqlite_columns_ok api" and "text_reads_back fl (msg_value m)" and "0 < i" "i < 2 ^ 63"
  shows "message_of_row api fl (row_of (i, [bind_text (msg_topic m), bind_text (msg_deviceId m), bind_text (msg_tagName m),
      Sq_int (int (value_index (msg_value m))), bind_text (value_text fl (msg_value m)),
      Sq_int (int (quality_index (msg_quality m))), Sq_int (timestampToMilliseconds (msg_timestamp m))])) =
    Some (i, stored_form m)"
proof -
  have q: "int (quality_index (msg_quality m)) \<le> 4" using quality_index_le [of "msg_quality m"] by simp
  have v: "int (value_index (msg_value m)) \<le> 12" using value_index_le [of "msg_value m"] by simp
  have d: "deserializeTagValue fl (int (value_index (msg_value m))) (value_text fl (msg_value m)) = Some (msg_value m)"
    using assms(2) by (rule deserialize_value_text)
  note c = assms(1) [unfolded sqlite_columns_ok_def]
  have "sq_column_int api (Sq_int (int (quality_index (msg_quality m)))) = int (quality_index (msg_quality m))"
    "sq_column_int api (Sq_int (int (value_index (msg_value m)))) = int (value_index (msg_value m))"
    "sq_column_int64 api (Sq_int i) = i"
    "sq_column_int64 api (Sq_int (timestampToMilliseconds (msg_timestamp m))) = timestampToMilliseconds (msg_timestamp m)"
    using c q v assms(3,4) ms_range [of "msg_timestamp m"] by simp_all
  then show ?thesis
    using c q d c_str_value_text [OF assms(2)]
    by (simp add: message_of_row_def row_of_def column_def readTextColumn_def bind_text_def isValidQuality_def stored_form_def)
qed

lemma storeMessage_history:
  assumes "sqlite_history_ok api table" and "text_reads_back fl (msg_value m)" and "storeMessage api fl m s = (ok, s')"
  shows "if ok then \<exists>i. history api fl table s' = history api fl table s @ [(i, stored_form m)]
    else history api fl table s' = history api fl table s"
proof -
  have t: "sqlite_table_ok api InsertMessageSql 7 SelectMessagesSql SelectMessagesLimitSql CountMessagesSql table"
    and col: "sqlite_columns_ok api"
    using assms(1) by (simp_all add: sqlite_history_ok_def)
  obtain st db where s: "s = (st, db)" by fastforce
  let ?ps = "[bind_text (msg_topic m), bind_text (msg_deviceId m), bind_text (msg_tagName m),
      Sq_int (int (value_index (msg_value m))), bind_text (value_text fl (msg_value m)),
      Sq_int (int (quality_index (msg_quality m))), Sq_int (timestampToMilliseconds (msg_timestamp m))]"
  show ?thesis
  proof (cases "st_open st \<and> sq_prepare api InsertMessageSql db")
    case True
    obtain d n db' where st: "sq_step api InsertMessageSql ?ps db = (d, n, db')" by (metis prod_cases3)
    have s': "ok = d" "s' = (st, db')" using assms(3) True st by (auto simp: storeMessage_def s serializeTagValue_def)
    have "\<forall>ps db. length ps = 7 \<longrightarrow> (case sq_step api InsertMessageSql ps db of (finished, _, db') \<Rightarrow>
        if finished then \<exists>i. new_row_id i (table db) \<and> table db' = table db @ [(i, ps)] else table db' = table db)"
      using t by (simp add: sqlite_table_ok_def)
    then have "if d then \<exists>i. new_row_id i (table db) \<and> table db' = table db @ [(i, ?ps)] else table db' = table db"
      by (auto dest!: spec [of _ ?ps] spec [of _ db] simp: st)
    then show ?thesis
      using message_of_stored_row [OF col assms(2)]
      by (auto simp: history_def s s' map_filter_def new_row_id_def split: if_splits)
  next
    case False
    then have "ok = False \<and> s' = s" using assms(3) by (auto simp: storeMessage_def s split: if_splits)
    then show ?thesis by simp
  qed
qed

text \<open>
  C38. A message that \<open>storeMessage\<close> accepted is the last one in the history, with its type, value, quality, texts up to a
  NUL and its time in whole milliseconds; older messages are untouched, a refused message changes nothing, and
  \<open>loadMessages\<close> returns exactly this history whenever its query runs to the end.
\<close>

theorem history_appends:
  assumes "sqlite_history_ok api table" and "text_reads_back fl (msg_value m)" and "storeMessage api fl m s = (ok, s')"
  shows "(if ok then \<exists>i. history api fl table s' = history api fl table s @ [(i, stored_form m)]
          else history api fl table s' = history api fl table s) \<and>
    (st_open (fst s') \<and> sq_prepare api SelectMessagesSql (snd s') \<and> snd (sq_rows api SelectMessagesSql [] (snd s')) \<longrightarrow>
       loadMessages api fl 0 s' = history api fl table s')"
proof (intro conjI impI storeMessage_history [OF assms])
  assume q: "st_open (fst s') \<and> sq_prepare api SelectMessagesSql (snd s') \<and> snd (sq_rows api SelectMessagesSql [] (snd s'))"
  have "sqlite_table_ok api InsertMessageSql 7 SelectMessagesSql SelectMessagesLimitSql CountMessagesSql table"
    using assms(1) by (simp add: sqlite_history_ok_def)
  then have "case sq_rows api SelectMessagesSql [] (snd s') of (rows, finished) \<Rightarrow> finished \<longrightarrow> rows = map row_of (table (snd s'))"
    by (simp add: sqlite_table_ok_def)
  then show "loadMessages api fl 0 s' = history api fl table s'"
    using q by (auto simp: loadMessages_def history_def map_filter_def filter_map comp_def split: prod.splits)
qed

theorem history_appends_witness:
  "case storeMessage mem_api demo_fl (default_message\<lparr>msg_topic := ''t'', msg_value := Val_Int16 (- 7)\<rparr>) mem_store of (ok, s') \<Rightarrow>
     ok \<and> (\<exists>i. loadMessages mem_api demo_fl 0 s' = [(i, stored_form (default_message\<lparr>msg_topic := ''t'', msg_value := Val_Int16 (- 7)\<rparr>))])"
proof -
  let ?m = "default_message\<lparr>msg_topic := ''t'', msg_value := Val_Int16 (- 7)\<rparr>"
  obtain ok s' where e: "storeMessage mem_api demo_fl ?m mem_store = (ok, s')" by (metis surj_pair)
  have t: "text_reads_back demo_fl (msg_value ?m)" by simp
  have h: "history mem_api demo_fl fst mem_store = []" by (simp add: history_def mem_store_def map_filter_def)
  have ok: "ok" "st_open (fst s')" using e
    by (auto simp: storeMessage_def mem_store_def mem_api_def next_id_def serializeTagValue_def)
  have q: "sq_prepare mem_api SelectMessagesSql (snd s')" "snd (sq_rows mem_api SelectMessagesSql [] (snd s'))"
    by (simp_all add: mem_api_def split: prod.splits)
  from history_appends [OF mem_api_ok(1) t e] h ok q show ?thesis by (auto simp: e)
qed

end
