(* ===== verification/Mqtt_Json.thy ===== *)
theory Mqtt_Json
  imports Storage_Service
begin

section \<open>The JSON payload of MQTT messages\<close>

text \<open>
  \<open>escapeJson\<close>, \<open>tagValueToJson\<close> and \<open>messageToJson\<close> of \<open>src/mqtt_service.cpp\<close>. Strings are byte strings. The default
  stream format of \<open>float\<close> and \<open>double\<close> is the argument \<open>jf\<close>. The specification is a reader of JSON strings (RFC 8259)
  that is independent of the writer.
\<close>

definition hex_digit :: "nat \<Rightarrow> char" where
  "hex_digit d = (if d < 10 then char_of (48 + d) else char_of (87 + d))"

text \<open>\<open>std::hex << std::setw(4) << std::setfill('0')\<close> of a number below 65536.\<close>

definition hex4 :: "nat \<Rightarrow> string" where
  "hex4 n = [hex_digit (n div 4096 mod 16), hex_digit (n div 256 mod 16), hex_digit (n div 16 mod 16), hex_digit (n mod 16)]"

abbreviation backslash :: char where "backslash \<equiv> CHR 0x5C"
abbreviation dquote :: char where "dquote \<equiv> CHR 0x22"

definition escape_char :: "char \<Rightarrow> string" where
  "escape_char c =
     (let n = of_char c :: nat in
      if n = 34 then [backslash, dquote]
      else if n = 92 then [backslash, backslash]
      else if n = 8 then [backslash, CHR ''b'']
      else if n = 12 then [backslash, CHR ''f'']
      else if n = 10 then [backslash, CHR ''n'']
      else if n = 13 then [backslash, CHR ''r'']
      else if n = 9 then [backslash, CHR ''t'']
      else if n < 0x20 then backslash # CHR ''u'' # hex4 n
      else [c])"

definition escapeJson :: "string \<Rightarrow> string" where
  "escapeJson value = concat (map escape_char value)"

record json_floats =
  jf_float :: "u32 \<Rightarrow> string"
  jf_double :: "u64 \<Rightarrow> string"

fun tagValueToJson :: "json_floats \<Rightarrow> tag_value \<Rightarrow> string" where
  "tagValueToJson jf Val_Monostate = ''null''"
| "tagValueToJson jf (Val_Bool b) = (if b then ''true'' else ''false'')"
| "tagValueToJson jf (Val_Int8 w) = to_string (sint w)"
| "tagValueToJson jf (Val_Int16 w) = to_string (sint w)"
| "tagValueToJson jf (Val_Int32 w) = to_string (sint w)"
| "tagValueToJson jf (Val_Int64 w) = to_string (sint w)"
| "tagValueToJson jf (Val_UInt8 w) = to_string (uint w)"
| "tagValueToJson jf (Val_UInt16 w) = to_string (uint w)"
| "tagValueToJson jf (Val_UInt32 w) = to_string (uint w)"
| "tagValueToJson jf (Val_UInt64 w) = to_string (uint w)"
| "tagValueToJson jf (Val_Float w) = jf_float jf w"
| "tagValueToJson jf (Val_Double w) = jf_double jf w"
| "tagValueToJson jf (Val_String s) = [dquote] @ escapeJson s @ [dquote]"

text \<open>A C++ string literal with \<open>\"\<close> written as a single quote here.\<close>

definition lit :: "string \<Rightarrow> string" where
  "lit s = map (\<lambda>c. if c = CHR 0x27 then dquote else c) s"

definition q1 :: string where "q1 = [CHR 0x27]"

definition messageToJson :: "json_floats \<Rightarrow> message \<Rightarrow> string" where
  "messageToJson jf m =
     ''{'' @ lit (q1 @ ''deviceId'' @ q1 @ '':'' @ q1) @ escapeJson (msg_deviceId m) @
     lit (q1 @ '','' @ q1 @ ''tagName'' @ q1 @ '':'' @ q1) @ escapeJson (msg_tagName m) @
     lit (q1 @ '','' @ q1 @ ''value'' @ q1 @ '':'') @ tagValueToJson jf (msg_value m) @
     lit ('','' @ q1 @ ''quality'' @ q1 @ '':'' @ q1) @ qualityToString (msg_quality m) @
     lit (q1 @ '','' @ q1 @ ''timestampMs'' @ q1 @ '':'') @ to_string (timestampToMilliseconds (msg_timestamp m)) @ ''}''"

subsection \<open>Reading JSON strings\<close>

definition hex_value :: "char \<Rightarrow> nat option" where
  "hex_value c =
     (let n = of_char c :: nat in
      if 48 \<le> n \<and> n \<le> 57 then Some (n - 48)
      else if 97 \<le> n \<and> n \<le> 102 then Some (n - 87)
      else if 65 \<le> n \<and> n \<le> 70 then Some (n - 55) else None)"

definition read_hex4 :: "string \<Rightarrow> (nat \<times> string) option" where
  "read_hex4 s =
     (case s of
        a # b # c # d # rest \<Rightarrow>
          (case (hex_value a, hex_value b, hex_value c, hex_value d) of
             (Some w, Some x, Some y, Some z) \<Rightarrow> Some (4096 * w + 256 * x + 16 * y + z, rest)
           | _ \<Rightarrow> None)
      | _ \<Rightarrow> None)"

text \<open>
  The characters after an opening quote up to the closing one, and what follows. A control character inside a string is
  an error, and so is an escape beyond one byte.
\<close>

definition json_escape :: "char \<Rightarrow> char option" where
  "json_escape c =
     (if c = dquote \<or> c = backslash \<or> c = CHR ''/'' then Some c
      else if c = CHR ''b'' then Some (char_of (8 :: nat))
      else if c = CHR ''f'' then Some (char_of (12 :: nat))
      else if c = CHR ''n'' then Some (char_of (10 :: nat))
      else if c = CHR ''r'' then Some (char_of (13 :: nat))
      else if c = CHR ''t'' then Some (char_of (9 :: nat)) else None)"

text \<open>One character of a string: the character and the rest; \<open>None\<close> for an error.\<close>

definition read_json_char :: "string \<Rightarrow> (char \<times> string) option" where
  "read_json_char s =
     (case s of
        [] \<Rightarrow> None
      | c # cs \<Rightarrow>
          if c = backslash then
            (case cs of
               [] \<Rightarrow> None
             | e # rest \<Rightarrow>
                 if e = CHR ''u'' then
                   (case read_hex4 rest of
                      None \<Rightarrow> None
                    | Some (n, rest') \<Rightarrow> if n < 256 then Some (char_of n, rest') else None)
                 else map_option (\<lambda>x. (x, rest)) (json_escape e))
          else if (of_char c :: nat) < 0x20 then None
          else Some (c, cs))"

text \<open>Reading consumes its input, so the length of the text is enough fuel.\<close>

fun read_json_string :: "nat \<Rightarrow> string \<Rightarrow> (string \<times> string) option" where
  "read_json_string 0 s = None"
| "read_json_string (Suc fuel) s =
     (case s of
        [] \<Rightarrow> None
      | c # cs \<Rightarrow>
          if c = dquote then Some ('''', cs)
          else (case read_json_char s of
                  None \<Rightarrow> None
                | Some (x, rest) \<Rightarrow>
                    map_option (\<lambda>(str, rest'). (x # str, rest')) (read_json_string fuel rest)))"

lemma char_is: "(of_char c :: nat) = n \<Longrightarrow> c = char_of n"
  by auto

lemma char_codes: "char_of (34 :: nat) = dquote" "char_of (92 :: nat) = backslash"
  by code_simp+

lemma hex_value_digit: "d < 16 \<Longrightarrow> hex_value (hex_digit d) = Some d"
  by (auto simp: hex_value_def hex_digit_def Let_def)

lemma read_hex4_hex4: "n < 256 \<Longrightarrow> read_hex4 (hex4 n @ rest) = Some (n, rest)"
  by (simp add: read_hex4_def hex4_def hex_value_digit)

lemma read_json_char_u: "n < 0x20 \<Longrightarrow> read_json_char (backslash # CHR ''u'' # hex4 n @ rest) = Some (char_of n, rest)"
  by (simp add: read_json_char_def read_hex4_hex4)

lemma escape_char_reads: "read_json_char (escape_char c @ rest) = Some (c, rest)"
proof -
  consider "(of_char c :: nat) = 34" | "(of_char c :: nat) = 92" | "(of_char c :: nat) \<in> {8, 9, 10, 12, 13}"
    | "(of_char c :: nat) < 0x20" "(of_char c :: nat) \<notin> {8, 9, 10, 12, 13}"
    | "(of_char c :: nat) \<ge> 0x20" "(of_char c :: nat) \<noteq> 34" "(of_char c :: nat) \<noteq> 92"
    by fastforce
  then show ?thesis
  proof cases
    case 4
    then have "read_json_char (escape_char c @ rest) = Some (char_of (of_char c :: nat), rest)"
      using read_json_char_u [of "of_char c" rest] by (simp add: escape_char_def)
    then show ?thesis by simp
  next
    case 5
    then show ?thesis by (auto simp: escape_char_def read_json_char_def)
  qed (auto simp: escape_char_def read_json_char_def json_escape_def char_codes dest!: char_is)
qed

lemma escape_char_start: "\<exists>x xs. escape_char c = x # xs \<and> x \<noteq> dquote"
proof (cases "(of_char c :: nat) = 34 \<or> (of_char c :: nat) = 92 \<or> (of_char c :: nat) < 0x20")
  case False
  then have "c \<noteq> dquote" by auto
  then show ?thesis using False by (auto simp: escape_char_def)
qed (auto simp: escape_char_def Let_def)

lemma length_escape_char: "1 \<le> length (escape_char c)"
  using escape_char_start [of c] by auto

lemma length_escapeJson: "length s \<le> length (escapeJson s)"
proof (induction s)
  case (Cons c s)
  then show ?case using length_escape_char [of c] by (simp add: escapeJson_def)
qed (simp add: escapeJson_def)

lemma read_escaped:
  "length s < fuel \<Longrightarrow> read_json_string fuel (escapeJson s @ dquote # rest) = Some (s, rest)"
proof (induction s arbitrary: fuel)
  case Nil
  then show ?case by (cases fuel) (simp_all add: escapeJson_def)
next
  case (Cons c s)
  then obtain f where f: "fuel = Suc f" "length s < f" by (cases fuel) auto
  obtain x xs where x: "escape_char c = x # xs" "x \<noteq> dquote" using escape_char_start by blast
  have e: "escapeJson (c # s) = x # xs @ escapeJson s" using x by (simp add: escapeJson_def)
  have "read_json_char (x # xs @ escapeJson s @ dquote # rest) = Some (c, escapeJson s @ dquote # rest)"
    using escape_char_reads [of c "escapeJson s @ dquote # rest"] x by simp
  then show ?case using Cons.IH [OF f(2)] x by (simp add: e f)
qed

text \<open>
  JSON strings cannot be broken out of: whatever bytes a device id, tag name or string value holds (quotes,
  backslashes, control characters), a JSON reader that starts behind the opening quote reads back exactly these bytes and
  stops at the closing quote that the program wrote.
\<close>

theorem escapeJson_roundtrip:
  "read_json_string (Suc (length s)) (escapeJson s @ [dquote] @ rest) = Some (s, rest)"
  using read_escaped [of s "Suc (length s)" rest] by simp

subsection \<open>Whole payloads\<close>

definition strip :: "string \<Rightarrow> string \<Rightarrow> string option" where
  "strip p s = (if take (length p) s = p then Some (drop (length p) s) else None)"

lemma strip_append [simp]: "strip p (p @ s) = Some s"
  by (simp add: strip_def)

text \<open>A reader of the first two members that knows the layout but not the writer.\<close>

definition read_ids :: "string \<Rightarrow> (string \<times> string \<times> string) option" where
  "read_ids j =
     do { s1 \<leftarrow> strip (''{'' @ lit (q1 @ ''deviceId'' @ q1 @ '':'' @ q1)) j;
          (deviceId, s2) \<leftarrow> read_json_string (Suc (length s1)) s1;
          s3 \<leftarrow> strip (lit ('','' @ q1 @ ''tagName'' @ q1 @ '':'' @ q1)) s2;
          (tagName, s4) \<leftarrow> read_json_string (Suc (length s3)) s3;
          s5 \<leftarrow> strip (lit ('','' @ q1 @ ''value'' @ q1 @ '':'')) s4;
          Some (deviceId, tagName, s5) }"

definition json_tail :: "message \<Rightarrow> string" where
  "json_tail m = lit ('','' @ q1 @ ''quality'' @ q1 @ '':'' @ q1) @ qualityToString (msg_quality m) @
     lit (q1 @ '','' @ q1 @ ''timestampMs'' @ q1 @ '':'') @ to_string (timestampToMilliseconds (msg_timestamp m)) @ ''}''"

lemma lit_append: "lit (a @ b) = lit a @ lit b" and lit_q1: "lit q1 = [dquote]"
  by (simp_all add: lit_def q1_def)

lemma messageToJson_eq:
  "messageToJson jf m = (''{'' @ lit (q1 @ ''deviceId'' @ q1 @ '':'' @ q1)) @ (escapeJson (msg_deviceId m) @ [dquote] @
     lit ('','' @ q1 @ ''tagName'' @ q1 @ '':'' @ q1) @ (escapeJson (msg_tagName m) @ [dquote] @
     lit ('','' @ q1 @ ''value'' @ q1 @ '':'') @ tagValueToJson jf (msg_value m) @ json_tail m))"
  by (simp add: messageToJson_def json_tail_def lit_append lit_q1)

lemma read_string_at:
  "read_json_string (Suc (length (escapeJson s @ [dquote] @ rest))) (escapeJson s @ [dquote] @ rest) = Some (s, rest)"
  using read_escaped [of s "Suc (length (escapeJson s @ [dquote] @ rest))" rest] length_escapeJson [of s] by simp

lemma read_ids_message:
  "read_ids (messageToJson jf m) =
     Some (msg_deviceId m, msg_tagName m, tagValueToJson jf (msg_value m) @ json_tail m)"
  unfolding read_ids_def messageToJson_eq by (simp only: strip_append read_string_at bind.bind_lunit prod.case)

text \<open>No control character, so in particular no NUL, and no loss when the payload is bound as a C string.\<close>

definition printable :: "string \<Rightarrow> bool" where
  "printable s \<longleftrightarrow> list_all (\<lambda>c. 0x20 \<le> (of_char c :: nat)) s"

lemma printable_append [simp]: "printable (a @ b) \<longleftrightarrow> printable a \<and> printable b"
  by (simp add: printable_def)

lemma hex_digit_code: "d < 16 \<Longrightarrow> (0x20 :: nat) \<le> of_char (hex_digit d)"
  by (simp add: hex_digit_def)

lemma printable_escape: "printable (escapeJson s)"
proof -
  have "printable (escape_char c)" for c
    by (auto simp: printable_def escape_char_def hex4_def hex_digit_code Let_def)
  then show ?thesis by (induction s) (simp_all add: escapeJson_def printable_def)
qed

lemma printable_to_string: "printable (to_string i)"
proof -
  have "printable (dec_digits n)" for n
    using dec_digits_isdigit [of n] by (auto simp: printable_def list_all_iff isdigit_def Let_def)
  then show ?thesis by (simp add: to_string_def printable_def)
qed

lemma printable_value:
  "(\<And>w. printable (jf_float jf w)) \<Longrightarrow> (\<And>w. printable (jf_double jf w)) \<Longrightarrow> printable (tagValueToJson jf v)"
  using printable_escape by (cases v) (simp_all add: printable_to_string, simp_all add: printable_def)

lemma printable_c_str: "printable s \<Longrightarrow> c_str s = s"
  by (rule c_str_id) (auto simp: printable_def list_all_iff)

lemma printable_message:
  assumes "\<And>w. printable (jf_float jf w)" and "\<And>w. printable (jf_double jf w)"
  shows "printable (messageToJson jf m)"
proof -
  have "printable (qualityToString q)" for q by (cases q) (simp_all add: printable_def)
  moreover have "printable (lit (q1 @ ''deviceId'' @ q1 @ '':'' @ q1))" "printable (lit ('','' @ q1 @ ''tagName'' @ q1 @ '':'' @ q1))"
    "printable (lit ('','' @ q1 @ ''value'' @ q1 @ '':''))" "printable (lit ('','' @ q1 @ ''quality'' @ q1 @ '':'' @ q1))"
    "printable (lit (q1 @ '','' @ q1 @ ''timestampMs'' @ q1 @ '':''))" "printable ''{''" "printable ''}''" "printable [dquote]"
    by (simp_all add: printable_def lit_def q1_def)
  ultimately show ?thesis
    unfolding messageToJson_eq json_tail_def
    by (simp only: printable_append printable_escape printable_to_string printable_value [OF assms])
qed

text \<open>
  C40. The payload of a message names exactly its device and tag: a reader of the layout gets back both byte for byte,
  followed by the value, the quality and the timestamp; and the payload holds no control character, so nothing of it
  is lost when it is buffered as a C string.
\<close>

theorem mqtt_payload_faithful:
  assumes "\<And>w. printable (jf_float jf w)" and "\<And>w. printable (jf_double jf w)"
  shows "read_ids (messageToJson jf m) =
      Some (msg_deviceId m, msg_tagName m, tagValueToJson jf (msg_value m) @ json_tail m) \<and>
    c_str (messageToJson jf m) = messageToJson jf m"
  using read_ids_message printable_c_str [OF printable_message [OF assms]] by blast

definition demo_jf :: json_floats where
  "demo_jf = \<lparr>jf_float = (\<lambda>w. to_string (uint w)), jf_double = (\<lambda>w. to_string (uint w))\<rparr>"

theorem mqtt_payload_faithful_witness:
  "read_ids (messageToJson demo_jf (default_message\<lparr>msg_deviceId := [dquote], msg_tagName := ''t''\<rparr>)) =
     Some ([dquote], ''t'', ''null'' @ json_tail (default_message\<lparr>msg_deviceId := [dquote], msg_tagName := ''t''\<rparr>))"
proof -
  have p: "printable (jf_float demo_jf w)" "printable (jf_double demo_jf v)" for w v
    by (simp_all add: demo_jf_def printable_to_string)
  from mqtt_payload_faithful [OF p] show ?thesis by (simp add: default_message_def)
qed

end
