(* ===== verification/Mqtt_Service.thy ===== *)
theory Mqtt_Service
  imports Mqtt_Json
begin

section \<open>The MQTT service\<close>

text \<open>
  \<open>src/mqtt_service.cpp\<close>. Three kinds of threads share the service: the owner and the bus callbacks
  (\<open>forwardMessage\<close>), libmosquitto's network thread (the three handlers) and the replay thread that empties the outbox.
  Everything they share is protected by one mutex, so a run is an interleaving of the critical sections; each section is
  a function below, named after its C++ function, and \<open>replay_pc\<close>/\<open>forward_pc\<close> say between which sections a thread is.
  The outbox is the model of the storage service, which has its own mutex. libmosquitto's results are arguments.
  Waiting on a condition variable is a section whose guard is the wait's predicate or, for timed waits, the timeout.
\<close>

record mqtt_config =
  qc_host :: string
  qc_port :: u16
  qc_clientId :: string
  qc_keepAliveSeconds :: u16
  qc_connectTimeoutMs :: int
  qc_reconnectInitialDelaySeconds :: u32
  qc_reconnectMaximumDelaySeconds :: u32
  qc_publishAckTimeoutMs :: int
  qc_topicPrefix :: string

datatype mq_call = Mq_new nat | Mq_destroy nat | Mq_loop_start nat | Mq_disconnect nat | Mq_loop_stop nat

record mqtt =
  mq_config :: mqtt_config
  mq_client :: "nat option"
  mq_loopRunning :: bool
  mq_connected :: bool
  mq_initialConnectionCompleted :: bool
  mq_stopping :: bool
  mq_replayRequested :: bool
  mq_replaying :: bool
  mq_replayMessageId :: int
  mq_replayPublishAcknowledged :: bool
  mq_attached :: bool
  mq_subscriptionId :: subscription_id
  mq_offlineStorage :: bool
  mq_calls :: "mq_call list"

definition new_mqtt :: "mqtt_config \<Rightarrow> mqtt" where
  "new_mqtt config = \<lparr>mq_config = config, mq_client = None, mq_loopRunning = False, mq_connected = False,
     mq_initialConnectionCompleted = False, mq_stopping = False, mq_replayRequested = False, mq_replaying = False,
     mq_replayMessageId = 0, mq_replayPublishAcknowledged = False, mq_attached = False, mq_subscriptionId = 0,
     mq_offlineStorage = False, mq_calls = []\<rparr>"

definition mq_log :: "mq_call \<Rightarrow> mqtt \<Rightarrow> mqtt" where
  "mq_log c m = m\<lparr>mq_calls := mq_calls m @ [c]\<rparr>"

subsection \<open>Connecting and disconnecting\<close>

record mosq_results =
  mo_ready :: bool
  mo_new :: "nat option"
  mo_reconnect_delay_set :: bool
  mo_connect_async :: bool
  mo_loop_start :: bool

definition initializeClientLocked :: "mosq_results \<Rightarrow> mqtt \<Rightarrow> bool \<times> mqtt" where
  "initializeClientLocked lib m =
     (if \<not> mo_ready lib then (False, m)
      else (case mo_new lib of
        None \<Rightarrow> (False, m\<lparr>mq_client := None\<rparr>)
      | Some client \<Rightarrow>
          (let m1 = (mq_log (Mq_new client) m)\<lparr>mq_client := Some client\<rparr> in
           if \<not> mo_reconnect_delay_set lib then (False, (mq_log (Mq_destroy client) m1)\<lparr>mq_client := None\<rparr>)
           else (True, m1))))"

definition config_invalid :: "mqtt_config \<Rightarrow> bool" where
  "config_invalid c \<longleftrightarrow> qc_host c = '''' \<or> qc_clientId c = '''' \<or> qc_port c = 0 \<or> qc_connectTimeoutMs c \<le> 0 \<or>
     qc_publishAckTimeoutMs c \<le> 0 \<or> qc_reconnectInitialDelaySeconds c = 0 \<or>
     qc_reconnectMaximumDelaySeconds c < qc_reconnectInitialDelaySeconds c"

text \<open>\<open>connect\<close> up to its wait: \<open>Some r\<close> is a return, \<open>None\<close> means that it waits for the first \<open>CONNACK\<close>.\<close>

definition mqtt_connect :: "mosq_results \<Rightarrow> mqtt \<Rightarrow> bool option \<times> mqtt" where
  "mqtt_connect lib m =
     (if mq_connected m then (Some True, m)
      else if mq_loopRunning m then (Some False, m)
      else if config_invalid (mq_config m) then (Some False, m)
      else (let (ok, m1) = initializeClientLocked lib m in
        if \<not> ok then (Some False, m1)
        else (case mq_client m1 of
          None \<Rightarrow> (Some False, m1)
        | Some client \<Rightarrow>
            (let m2 = m1\<lparr>mq_initialConnectionCompleted := False, mq_stopping := False\<rparr> in
             if \<not> mo_connect_async lib then (Some False, (mq_log (Mq_destroy client) m2)\<lparr>mq_client := None\<rparr>)
             else if \<not> mo_loop_start lib then (Some False, (mq_log (Mq_destroy client) m2)\<lparr>mq_client := None\<rparr>)
             else (None, (mq_log (Mq_loop_start client) m2)\<lparr>mq_loopRunning := True, mq_replayRequested := False,
                mq_replaying := False\<rparr>)))))"

definition mqtt_connect_end :: "bool \<Rightarrow> mqtt \<Rightarrow> bool" where
  "mqtt_connect_end receivedConnack m = (receivedConnack \<and> mq_connected m)"

text \<open>
  \<open>disconnect\<close>: its critical section, and what it does after the replay thread has ended. (Whether \<open>mosquitto_disconnect\<close>
  could send its packet only decides if the network thread is stopped by force; either way it has ended afterwards.)
\<close>

definition mqtt_disconnect_begin :: "mqtt \<Rightarrow> nat option \<times> bool \<times> mqtt" where
  "mqtt_disconnect_begin m =
     (mq_client m, mq_loopRunning m,
      m\<lparr>mq_stopping := True, mq_connected := False, mq_initialConnectionCompleted := False, mq_client := None,
        mq_loopRunning := False, mq_replayRequested := False\<rparr>)"

definition mqtt_disconnect_end :: "nat option \<Rightarrow> bool \<Rightarrow> mqtt \<Rightarrow> mqtt" where
  "mqtt_disconnect_end client loopWasRunning m =
     (case client of
        None \<Rightarrow> m
      | Some c \<Rightarrow>
          (let m1 = mq_log (Mq_disconnect c) m
           in mq_log (Mq_destroy c) (if loopWasRunning then mq_log (Mq_loop_stop c) m1 else m1)))"

definition mqtt_isConnected :: "mqtt \<Rightarrow> bool" where
  "mqtt_isConnected m = mq_connected m"

definition setOfflineStorage :: "bool \<Rightarrow> mqtt \<Rightarrow> mqtt" where
  "setOfflineStorage present m =
     (let m1 = m\<lparr>mq_offlineStorage := present\<rparr> in
      if mq_connected m1 \<and> present then m1\<lparr>mq_replayRequested := True\<rparr> else m1)"

subsection \<open>Callbacks of the network thread\<close>

definition handleConnect :: "nat \<Rightarrow> int \<Rightarrow> mqtt \<Rightarrow> mqtt" where
  "handleConnect client resultCode m =
     (let connectionAccepted = (resultCode = 0) in
      if mq_client m \<noteq> Some client \<or> mq_stopping m then m
      else (let m1 = m\<lparr>mq_connected := connectionAccepted, mq_initialConnectionCompleted := True\<rparr> in
        if connectionAccepted \<and> mq_offlineStorage m1 then m1\<lparr>mq_replayRequested := True\<rparr> else m1))"

definition handleDisconnect :: "nat \<Rightarrow> mqtt \<Rightarrow> mqtt" where
  "handleDisconnect client m = (if mq_client m \<noteq> Some client then m else m\<lparr>mq_connected := False\<rparr>)"

definition handlePublish :: "nat \<Rightarrow> int \<Rightarrow> mqtt \<Rightarrow> mqtt" where
  "handlePublish client messageId m =
     (if mq_client m = Some client \<and> mq_replayMessageId m = messageId
      then m\<lparr>mq_replayPublishAcknowledged := True\<rparr> else m)"

subsection \<open>Publishing\<close>

datatype mosq_publish = Mosq_success int | Mosq_no_conn | Mosq_conn_lost | Mosq_failed

text \<open>What the broker sees of the replay: QoS 1 messages handed to libmosquitto, and \<open>PUBACK\<close>s reported by it.\<close>

datatype mq_event = Ev_replayed int string string bool | Ev_puback int

definition max_int :: nat where "max_int = 2 ^ 31 - 1"

text \<open>\<open>res\<close> is the result of \<open>mosquitto_publish\<close>; the third component is what libmosquitto accepted.\<close>

definition mqtt_publish :: "mosq_publish \<Rightarrow> string \<Rightarrow> string \<Rightarrow> bool \<Rightarrow> mqtt \<Rightarrow>
    bool \<times> mqtt \<times> (string \<times> string \<times> bool) option" where
  "mqtt_publish res topic payload retain m =
     (if \<not> mq_connected m \<or> mq_client m = None \<or> topic = '''' \<or> length payload > max_int then (False, m, None)
      else (case res of
          Mosq_success _ \<Rightarrow> (True, m, Some (c_str topic, payload, retain))
        | Mosq_no_conn \<Rightarrow> (False, m\<lparr>mq_connected := False\<rparr>, None)
        | Mosq_conn_lost \<Rightarrow> (False, m\<lparr>mq_connected := False\<rparr>, None)
        | Mosq_failed \<Rightarrow> (False, m, None)))"

text \<open>
  \<open>publishWithAcknowledgement\<close> up to its wait; true means that it waits for the \<open>PUBACK\<close>. The third component is the
  QoS 1 message that libmosquitto accepted, with the message id it gave.
\<close>

definition publishWithAck_begin :: "mosq_publish \<Rightarrow> string \<Rightarrow> string \<Rightarrow> bool \<Rightarrow> mqtt \<Rightarrow>
    bool \<times> mqtt \<times> mq_event list" where
  "publishWithAck_begin res topic payload retain m =
     (if \<not> mq_connected m \<or> mq_stopping m \<or> mq_client m = None \<or> topic = '''' \<or> length payload > max_int
      then (False, m, [])
      else (let m1 = m\<lparr>mq_replayMessageId := 0, mq_replayPublishAcknowledged := False\<rparr> in
        case res of
          Mosq_success messageId \<Rightarrow>
            (True, m1\<lparr>mq_replayMessageId := messageId\<rparr>, [Ev_replayed messageId (c_str topic) payload retain])
        | _ \<Rightarrow> (False, m1, [])))"

text \<open>The end of the wait, by its predicate or by the timeout; \<open>wait_for\<close> returns the predicate's value.\<close>

definition ack_wait_over :: "bool \<Rightarrow> mqtt \<Rightarrow> bool" where
  "ack_wait_over timedOut m \<longleftrightarrow> timedOut \<or> mq_stopping m \<or> \<not> mq_connected m \<or> mq_replayPublishAcknowledged m"

definition publishWithAck_end :: "mqtt \<Rightarrow> bool \<times> mqtt" where
  "publishWithAck_end m =
     (let acknowledged = (mq_stopping m \<or> \<not> mq_connected m \<or> mq_replayPublishAcknowledged m);
          succeeded = (acknowledged \<and> mq_replayPublishAcknowledged m)
      in (succeeded, m\<lparr>mq_replayMessageId := 0, mq_replayPublishAcknowledged := False\<rparr>))"

subsection \<open>Attaching to the bus\<close>

definition mqtt_detachMessageBus :: "mqtt \<times> 'cb bus \<Rightarrow> mqtt \<times> 'cb bus" where
  "mqtt_detachMessageBus s =
     (let (m, b) = s;
          b' = (if mq_attached m \<and> mq_subscriptionId m \<noteq> InvalidSubscriptionId
                then snd (unsubscribe (mq_subscriptionId m) b) else b)
      in (m\<lparr>mq_attached := False, mq_subscriptionId := InvalidSubscriptionId\<rparr>, b'))"

definition mqtt_attachMessageBus :: "'cb \<Rightarrow> string \<Rightarrow> mqtt \<times> 'cb bus \<Rightarrow> bool \<times> mqtt \<times> 'cb bus" where
  "mqtt_attachMessageBus cb sourceTopic s =
     (let (m, b) = mqtt_detachMessageBus s;
          (subscriptionId, b') = subscribe sourceTopic (Some cb) b in
      if subscriptionId = InvalidSubscriptionId then (False, m, b')
      else (True, m\<lparr>mq_attached := True, mq_subscriptionId := subscriptionId\<rparr>, b'))"

subsection \<open>Threads\<close>

text \<open>Where the replay thread is: \<open>replayLoop\<close> with \<open>publishWithAcknowledgement\<close> inlined.\<close>

datatype replay_pc =
    Rp_none | Rp_wait | Rp_check | Rp_load | Rp_send pending_mqtt | Rp_ack pending_mqtt | Rp_remove pending_mqtt | Rp_end

text \<open>Where a call of \<open>forwardMessage\<close> is.\<close>

datatype forward_pc =
    Fw_begin message | Fw_publish string string bool | Fw_enqueue string string bool | Fw_request | Fw_done

text \<open>
  The shared state, the owner's call of \<open>disconnect\<close> in progress (its local variables), and histories: what
  libmosquitto accepted from \<open>forwardMessage\<close>, what was put into the outbox, what the broker saw of the replay, and
  which outbox messages were removed.
\<close>

record 'db mqtt_world =
  mw_mqtt :: mqtt
  mw_store :: "'db store"
  mw_replay :: replay_pc
  mw_forwards :: "forward_pc list"
  mw_closing :: "(nat option \<times> bool) option"
  mw_live :: "(string \<times> string \<times> bool) list"
  mw_enqueued :: "(string \<times> string \<times> bool) list"
  mw_events :: "mq_event list"
  mw_removed :: "pending_mqtt list"

text \<open>The critical sections of \<open>replayLoop\<close>, \<open>None\<close> where the thread cannot move.\<close>

definition replay_step :: "'db sqlite_api \<Rightarrow> mosq_publish \<Rightarrow> bool \<Rightarrow> 'db mqtt_world \<Rightarrow> 'db mqtt_world option" where
  "replay_step api res timedOut w =
     (let m = mw_mqtt w in
      case mw_replay w of
        Rp_none \<Rightarrow> None
      | Rp_wait \<Rightarrow>
          if mq_stopping m then Some (w\<lparr>mw_replay := Rp_none\<rparr>)
          else if mq_connected m \<and> mq_offlineStorage m \<and> mq_replayRequested m
          then Some (w\<lparr>mw_mqtt := m\<lparr>mq_replayRequested := False, mq_replaying := True\<rparr>, mw_replay := Rp_check\<rparr>)
          else None
      | Rp_check \<Rightarrow> Some (w\<lparr>mw_replay := (if mqtt_isConnected m then Rp_load else Rp_end)\<rparr>)
      | Rp_load \<Rightarrow>
          (case loadPendingMqttMessages api 1 (mw_store w) of
             [] \<Rightarrow> Some (w\<lparr>mw_replay := Rp_end\<rparr>)
           | message # _ \<Rightarrow> Some (w\<lparr>mw_replay := Rp_send message\<rparr>))
      | Rp_send message \<Rightarrow>
          (let (waiting, m', sent) =
                 publishWithAck_begin res (pq_topic message) (pq_payload message) (pq_retain message) m
           in Some (w\<lparr>mw_mqtt := m', mw_replay := (if waiting then Rp_ack message else Rp_end),
                mw_events := mw_events w @ sent\<rparr>))
      | Rp_ack message \<Rightarrow>
          if \<not> ack_wait_over timedOut m then None
          else (let (succeeded, m') = publishWithAck_end m in
            Some (w\<lparr>mw_mqtt := m', mw_replay := (if succeeded then Rp_remove message else Rp_end)\<rparr>))
      | Rp_remove message \<Rightarrow>
          (let (ok, s') = removePendingMqttMessage api (pq_id message) (mw_store w) in
           if ok then Some (w\<lparr>mw_store := s', mw_replay := Rp_check, mw_removed := mw_removed w @ [message]\<rparr>)
           else Some (w\<lparr>mw_store := s', mw_replay := Rp_end\<rparr>))
      | Rp_end \<Rightarrow> Some (w\<lparr>mw_mqtt := m\<lparr>mq_replaying := False\<rparr>, mw_replay := Rp_wait\<rparr>))"

definition forward_topic :: "mqtt_config \<Rightarrow> message \<Rightarrow> string" where
  "forward_topic c m = qc_topicPrefix c @ ''/'' @ msg_deviceId m @ ''/tags/'' @ msg_tagName m"

text \<open>One section of \<open>forwardMessage\<close>; the storage pointer is read once, in the first section.\<close>

definition forward_step :: "'db sqlite_api \<Rightarrow> json_floats \<Rightarrow> mosq_publish \<Rightarrow> wall_time \<Rightarrow> forward_pc \<Rightarrow>
    'db mqtt_world \<Rightarrow> forward_pc \<times> 'db mqtt_world" where
  "forward_step api jf res now pc w =
     (let m = mw_mqtt w in
      case pc of
        Fw_begin message \<Rightarrow>
          if msg_deviceId message = '''' \<or> msg_tagName message = '''' then (Fw_done, w)
          else (let topic = forward_topic (mq_config m) message;
                    payload = messageToJson jf message;
                    offlineStorage = mq_offlineStorage m;
                    shouldBuffer = (\<not> mq_connected m \<or> mq_replaying m)
                in (if shouldBuffer then Fw_enqueue topic payload offlineStorage else Fw_publish topic payload offlineStorage, w))
      | Fw_publish topic payload offlineStorage \<Rightarrow>
          (let (ok, m', accepted) = mqtt_publish res topic payload False m;
               w' = w\<lparr>mw_mqtt := m', mw_live := mw_live w @ (case accepted of None \<Rightarrow> [] | Some x \<Rightarrow> [x])\<rparr>
           in (if ok then Fw_done else Fw_enqueue topic payload offlineStorage, w'))
      | Fw_enqueue topic payload offlineStorage \<Rightarrow>
          if \<not> offlineStorage then (Fw_done, w)
          else (let (ok, s') = enqueueMqttMessage api now topic payload False (mw_store w) in
            if \<not> ok then (Fw_done, w\<lparr>mw_store := s'\<rparr>)
            else (Fw_request, w\<lparr>mw_store := s', mw_enqueued := mw_enqueued w @ [(c_str topic, c_str payload, False)]\<rparr>))
      | Fw_request \<Rightarrow>
          (Fw_done, if mq_connected m then w\<lparr>mw_mqtt := m\<lparr>mq_replayRequested := True\<rparr>\<rparr> else w)
      | Fw_done \<Rightarrow> (Fw_done, w))"

subsection \<open>Runs\<close>

inductive mqtt_step :: "'db sqlite_api \<Rightarrow> json_floats \<Rightarrow> 'db mqtt_world \<Rightarrow> 'db mqtt_world \<Rightarrow> bool"
  for api jf where
  step_replay: "replay_step api res timedOut w = Some w' \<Longrightarrow> mqtt_step api jf w w'"
| step_call: "mqtt_step api jf w (w\<lparr>mw_forwards := mw_forwards w @ [Fw_begin message]\<rparr>)"
| step_forward: "i < length (mw_forwards w) \<Longrightarrow> forward_step api jf res now (mw_forwards w ! i) w = (pc', w') \<Longrightarrow>
     mqtt_step api jf w (w'\<lparr>mw_forwards := (mw_forwards w)[i := pc']\<rparr>)"
| step_handleConnect: "mqtt_step api jf w (w\<lparr>mw_mqtt := handleConnect client code (mw_mqtt w)\<rparr>)"
| step_handleDisconnect: "mqtt_step api jf w (w\<lparr>mw_mqtt := handleDisconnect client (mw_mqtt w)\<rparr>)"
| step_handlePublish: "mqtt_step api jf w (w\<lparr>mw_mqtt := handlePublish client mid (mw_mqtt w),
     mw_events := mw_events w @ [Ev_puback mid]\<rparr>)"
| step_setOfflineStorage: "mqtt_step api jf w (w\<lparr>mw_mqtt := setOfflineStorage present (mw_mqtt w)\<rparr>)"
| step_connect: "mw_replay w = Rp_none \<Longrightarrow> mw_closing w = None \<Longrightarrow> mqtt_connect lib (mw_mqtt w) = (r, m') \<Longrightarrow>
     mqtt_step api jf w (w\<lparr>mw_mqtt := m', mw_replay := (if r = None then Rp_wait else Rp_none)\<rparr>)"
| step_disconnect: "mw_closing w = None \<Longrightarrow> mqtt_disconnect_begin (mw_mqtt w) = (client, running, m') \<Longrightarrow>
     mqtt_step api jf w (w\<lparr>mw_mqtt := m', mw_closing := Some (client, running)\<rparr>)"
| step_disconnect_end: "mw_replay w = Rp_none \<Longrightarrow> mw_closing w = Some (client, running) \<Longrightarrow>
     mqtt_step api jf w (w\<lparr>mw_mqtt := mqtt_disconnect_end client running (mw_mqtt w), mw_closing := None\<rparr>)"

inductive mqtt_reach :: "'db sqlite_api \<Rightarrow> json_floats \<Rightarrow> 'db mqtt_world \<Rightarrow> 'db mqtt_world \<Rightarrow> bool"
  for api jf w0 where
  reach_init: "mqtt_reach api jf w0 w0"
| reach_next: "mqtt_reach api jf w0 w \<Longrightarrow> mqtt_step api jf w w' \<Longrightarrow> mqtt_reach api jf w0 w'"

inductive_cases mqtt_stepE: "mqtt_step api jf w w'"

subsection \<open>No message is lost or reordered in the outbox\<close>

abbreviation pq_content :: "pending_mqtt \<Rightarrow> string \<times> string \<times> bool" where
  "pq_content q \<equiv> (pq_topic q, pq_payload q, pq_retain q)"

text \<open>The outbox message the replay thread is working on.\<close>

fun replay_current :: "replay_pc \<Rightarrow> pending_mqtt option" where
  "replay_current (Rp_send q) = Some q"
| "replay_current (Rp_ack q) = Some q"
| "replay_current (Rp_remove q) = Some q"
| "replay_current _ = None"

text \<open>The message was handed to the broker under some message id, and that id was acknowledged afterwards.\<close>

fun confirmed :: "mq_event list \<Rightarrow> pending_mqtt \<Rightarrow> bool" where
  "confirmed [] q = False"
| "confirmed (Ev_puback _ # es) q = confirmed es q"
| "confirmed (Ev_replayed mid t p r # es) q \<longleftrightarrow>
     t = c_str (pq_topic q) \<and> p = pq_payload q \<and> r = pq_retain q \<and> Ev_puback mid \<in> set es \<or> confirmed es q"

definition awaiting :: "mqtt \<Rightarrow> mq_event list \<Rightarrow> pending_mqtt \<Rightarrow> bool" where
  "awaiting m events q \<longleftrightarrow> (\<exists>xs ys. events =
       xs @ Ev_replayed (mq_replayMessageId m) (c_str (pq_topic q)) (pq_payload q) (pq_retain q) # ys \<and>
       (mq_replayPublishAcknowledged m \<longrightarrow> Ev_puback (mq_replayMessageId m) \<in> set ys))"

lemma confirmed_append: "confirmed es q \<Longrightarrow> confirmed (es @ fs) q"
  by (induction es q rule: confirmed.induct) auto

lemma confirmed_suffix: "confirmed ys q \<Longrightarrow> confirmed (xs @ ys) q"
proof (induction xs)
  case (Cons e xs) then show ?case by (cases e) auto
qed simp

lemma awaiting_confirmed: "awaiting m es q \<Longrightarrow> mq_replayPublishAcknowledged m \<Longrightarrow> confirmed es q"
  by (auto simp: awaiting_def intro!: confirmed_suffix)

lemma awaiting_append: "awaiting m es q \<Longrightarrow> awaiting m (es @ fs) q"
  unfolding awaiting_def by (elim exE conjE, intro exI conjI, simp) auto

lemma awaiting_puback:
  assumes "awaiting m es q"
  shows "awaiting (handlePublish c mid m) (es @ [Ev_puback mid]) q"
proof (cases "mq_client m = Some c \<and> mq_replayMessageId m = mid")
  case True
  from assms obtain xs ys where
    "es = xs @ Ev_replayed (mq_replayMessageId m) (c_str (pq_topic q)) (pq_payload q) (pq_retain q) # ys"
    unfolding awaiting_def by blast
  with True show ?thesis
    unfolding awaiting_def by (intro exI [of _ xs] exI [of _ "ys @ [Ev_puback mid]"]) (simp add: handlePublish_def)
next
  case False
  then show ?thesis using awaiting_append [OF assms, of "[Ev_puback mid]"] by (auto simp: handlePublish_def)
qed

lemma awaiting_cong: "mq_replayMessageId m' = mq_replayMessageId m \<Longrightarrow>
    mq_replayPublishAcknowledged m' = mq_replayPublishAcknowledged m \<Longrightarrow> awaiting m' es q = awaiting m es q"
  by (simp add: awaiting_def)

definition mqtt_inv :: "'db sqlite_api \<Rightarrow> ('db \<Rightarrow> (int \<times> sq_value list) list) \<Rightarrow> 'db mqtt_world \<Rightarrow> bool" where
  "mqtt_inv api table w \<longleftrightarrow>
     store_inv api table (mw_store w) \<and>
     mw_enqueued w = map pq_content (mw_removed w @ store_queue api table (mw_store w)) \<and>
     (\<forall>q. q \<in> set (mw_removed w) \<or> mw_replay w = Rp_remove q \<longrightarrow> confirmed (mw_events w) q) \<and>
     (\<forall>q. mw_replay w = Rp_ack q \<longrightarrow> awaiting (mw_mqtt w) (mw_events w) q) \<and>
     (\<forall>q. replay_current (mw_replay w) = Some q \<longrightarrow>
        store_queue api table (mw_store w) \<noteq> [] \<and> hd (store_queue api table (mw_store w)) = q) \<and>
     (mq_replaying (mw_mqtt w) \<longrightarrow> mw_replay w \<noteq> Rp_none \<and> mw_replay w \<noteq> Rp_wait)"

text \<open>Sections that touch neither the outbox nor the replay thread's position nor the pending acknowledgement.\<close>

definition same_replay :: "mqtt \<Rightarrow> mqtt \<Rightarrow> bool" where
  "same_replay m m' \<longleftrightarrow> mq_replayMessageId m' = mq_replayMessageId m \<and>
     mq_replayPublishAcknowledged m' = mq_replayPublishAcknowledged m \<and> (mq_replaying m' \<longrightarrow> mq_replaying m)"

lemma mqtt_inv_flags:
  assumes "mqtt_inv api table w" and "same_replay (mw_mqtt w) m'"
  shows "mqtt_inv api table (w\<lparr>mw_mqtt := m'\<rparr>)"
  using assms awaiting_cong [of m' "mw_mqtt w"] by (simp add: mqtt_inv_def same_replay_def)

lemma handlers_same_replay:
  "same_replay m (handleConnect c r m)" "same_replay m (handleDisconnect c m)" "same_replay m (setOfflineStorage b m)"
  "same_replay m (mqtt_disconnect_end cl run m)" "mqtt_disconnect_begin m = (cl, run, m') \<Longrightarrow> same_replay m m'"
  "same_replay m (m\<lparr>mq_replayRequested := b\<rparr>)"
  by (auto simp: same_replay_def handleConnect_def handleDisconnect_def setOfflineStorage_def mqtt_disconnect_end_def
      mqtt_disconnect_begin_def mq_log_def Let_def split: option.splits)

lemma connect_same_replay: "mqtt_connect lib m = (r, m') \<Longrightarrow> same_replay m m'"
  by (auto simp: same_replay_def mqtt_connect_def initializeClientLocked_def mq_log_def Let_def split: if_splits option.splits)

lemma publish_same_replay: "mqtt_publish res t p b m = (ok, m', x) \<Longrightarrow> same_replay m m'"
  by (auto simp: same_replay_def mqtt_publish_def Let_def split: if_splits mosq_publish.splits)

lemma handlePublish_replaying: "mq_replaying (handlePublish c i m) = mq_replaying m"
  by (simp add: handlePublish_def)

lemma mqtt_inv_enqueue:
  assumes inv: "mqtt_inv api table w" and e: "enqueueMqttMessage api now t p r (mw_store w) = (ok, s')"
  shows "mqtt_inv api table (w\<lparr>mw_store := s',
    mw_enqueued := mw_enqueued w @ (if ok then [(c_str t, c_str p, r)] else [])\<rparr>)"
proof -
  have st: "store_inv api table (mw_store w)" using inv by (simp add: mqtt_inv_def)
  have st': "store_inv api table s'" using ob.enq_invar [OF st, of now t p r] e by simp
  show ?thesis
  proof (cases ok)
    case True
    obtain q where "store_queue api table s' = store_queue api table (mw_store w) @ [q]" "pq_content q = (c_str t, c_str p, r)"
      using ob.enq_queue [OF st, of now t p r s'] e True by auto
    then show ?thesis using inv st' True by (auto simp: mqtt_inv_def)
  next
    case False
    then have "store_queue api table s' = store_queue api table (mw_store w)" using ob.enq_refused [OF st, of now t p r s'] e by simp
    then show ?thesis using inv st' False by (simp add: mqtt_inv_def)
  qed
qed

lemma mqtt_inv_forward:
  assumes inv: "mqtt_inv api table w" and f: "forward_step api jf res now pc w = (pc', w')"
  shows "mqtt_inv api table w'"
proof (cases pc)
  case (Fw_publish t p b)
  obtain ok m' x where pub: "mqtt_publish res t p False (mw_mqtt w) = (ok, m', x)" by (metis prod_cases3)
  then have "w' = w\<lparr>mw_mqtt := m', mw_live := mw_live w @ (case x of None \<Rightarrow> [] | Some x \<Rightarrow> [x])\<rparr>"
    using f Fw_publish by (auto simp: forward_step_def)
  then show ?thesis using mqtt_inv_flags [OF inv publish_same_replay [OF pub]] by (simp add: mqtt_inv_def)
next
  case (Fw_enqueue t p b)
  obtain ok s' where e: "enqueueMqttMessage api now t p False (mw_store w) = (ok, s')" by (metis surj_pair)
  show ?thesis
    using f Fw_enqueue mqtt_inv_enqueue [OF inv e] inv by (cases ok; cases b) (auto simp: forward_step_def e)
next
  case Fw_request
  then have "w' = w \<or> w' = w\<lparr>mw_mqtt := (mw_mqtt w)\<lparr>mq_replayRequested := True\<rparr>\<rparr>"
    using f by (auto simp: forward_step_def Let_def split: if_splits)
  then show ?thesis using inv mqtt_inv_flags [OF inv handlers_same_replay(6)] by auto
qed (use f inv in \<open>auto simp: forward_step_def Let_def split: if_splits\<close>)

lemma mqtt_inv_load:
  assumes inv: "mqtt_inv api table w" and l: "loadPendingMqttMessages api 1 (mw_store w) = q # qs"
  shows "store_queue api table (mw_store w) \<noteq> [] \<and> hd (store_queue api table (mw_store w)) = q"
proof -
  have "store_inv api table (mw_store w)" using inv by (simp add: mqtt_inv_def)
  from ob.load_prefix [OF this, of 1] l show ?thesis by (cases "store_queue api table (mw_store w)") auto
qed

lemma mqtt_inv_remove:
  assumes inv: "mqtt_inv api table w" and pc: "mw_replay w = Rp_remove q"
    and rm: "removePendingMqttMessage api (pq_id q) (mw_store w) = (ok, s')"
  shows "mqtt_inv api table (w\<lparr>mw_store := s', mw_replay := (if ok then Rp_check else Rp_end),
    mw_removed := mw_removed w @ (if ok then [q] else [])\<rparr>)"
proof -
  have st: "store_inv api table (mw_store w)" and hd: "store_queue api table (mw_store w) \<noteq> []"
    "hd (store_queue api table (mw_store w)) = q" and ack: "confirmed (mw_events w) q"
    using inv pc by (auto simp: mqtt_inv_def)
  then obtain rest where q: "store_queue api table (mw_store w) = q # rest" by (cases "store_queue api table (mw_store w)") auto
  have st': "store_inv api table s'" using ob.del_invar [OF st, of "pq_id q"] rm by simp
  have "pq_id q \<notin> pq_id ` set rest" using ob.ids_distinct [OF st] q by simp
  then have "filter (\<lambda>x. pq_id x \<noteq> pq_id q) (store_queue api table (mw_store w)) = rest"
    by (auto simp: q filter_id_conv image_iff)
  with ob.del_queue [OF st rm] have "store_queue api table s' = (if ok then rest else q # rest)"
    by (auto simp: q)
  then show ?thesis using inv st' ack q by (auto simp: mqtt_inv_def)
qed

lemma mqtt_inv_send:
  assumes inv: "mqtt_inv api table w" and pc: "mw_replay w = Rp_send q"
    and b: "publishWithAck_begin res (pq_topic q) (pq_payload q) (pq_retain q) (mw_mqtt w) = (waiting, m', sent)"
  shows "mqtt_inv api table (w\<lparr>mw_mqtt := m', mw_replay := (if waiting then Rp_ack q else Rp_end),
    mw_events := mw_events w @ sent\<rparr>)"
proof -
  have "mq_replaying m' = mq_replaying (mw_mqtt w)"
    using b by (auto simp: publishWithAck_begin_def Let_def split: if_splits mosq_publish.splits)
  moreover have "waiting \<Longrightarrow> awaiting m' (mw_events w @ sent) q"
    unfolding awaiting_def using b
    by (intro exI [of _ "mw_events w"] exI [of _ "[]"])
      (auto simp: publishWithAck_begin_def Let_def split: if_splits mosq_publish.splits)
  ultimately show ?thesis using inv pc by (auto simp: mqtt_inv_def intro: confirmed_append)
qed

lemma mqtt_inv_ack:
  assumes inv: "mqtt_inv api table w" and pc: "mw_replay w = Rp_ack q" and e: "publishWithAck_end (mw_mqtt w) = (succeeded, m')"
  shows "mqtt_inv api table (w\<lparr>mw_mqtt := m', mw_replay := (if succeeded then Rp_remove q else Rp_end)\<rparr>)"
proof -
  have "mq_replaying m' = mq_replaying (mw_mqtt w)" and "succeeded \<Longrightarrow> mq_replayPublishAcknowledged (mw_mqtt w)"
    using e by (auto simp: publishWithAck_end_def Let_def)
  moreover have "awaiting (mw_mqtt w) (mw_events w) q" using inv pc by (simp add: mqtt_inv_def)
  ultimately show ?thesis using inv pc by (auto simp: mqtt_inv_def intro: awaiting_confirmed)
qed

lemma mqtt_inv_replay_step:
  assumes inv: "mqtt_inv api table w" and r: "replay_step api res timedOut w = Some w'"
  shows "mqtt_inv api table w'"
proof (cases "mw_replay w")
  case Rp_load
  then show ?thesis using inv r mqtt_inv_load [OF inv]
    by (auto simp: replay_step_def mqtt_inv_def split: list.splits)
next
  case (Rp_send q)
  obtain b m' sent where p: "publishWithAck_begin res (pq_topic q) (pq_payload q) (pq_retain q) (mw_mqtt w) = (b, m', sent)"
    by (metis prod_cases3)
  show ?thesis using mqtt_inv_send [OF inv Rp_send p] r by (simp add: replay_step_def Rp_send p)
next
  case (Rp_ack q)
  obtain b m' where p: "publishWithAck_end (mw_mqtt w) = (b, m')" by (metis surj_pair)
  show ?thesis using mqtt_inv_ack [OF inv Rp_ack p] r 
    by (cases "ack_wait_over timedOut (mw_mqtt w)") (simp_all add: replay_step_def Rp_ack p)
next
  case (Rp_remove q)
  obtain ok s' where p: "removePendingMqttMessage api (pq_id q) (mw_store w) = (ok, s')" by (metis surj_pair)
  show ?thesis using mqtt_inv_remove [OF inv Rp_remove p] r
    by (cases ok) (simp_all add: replay_step_def Rp_remove p)
qed (use inv r in \<open>auto simp: replay_step_def mqtt_inv_def Let_def split: if_splits\<close>)

lemma mqtt_inv_step:
  assumes "mqtt_step api jf w w'" and "mqtt_inv api table w"
  shows "mqtt_inv api table w'"
  using assms
proof (induction rule: mqtt_step.induct)
  case (step_replay res timedOut w w') then show ?case by (rule mqtt_inv_replay_step [rotated])
next
  case (step_call w message) then show ?case by (simp add: mqtt_inv_def)
next
  case (step_forward i w res now pc' w')
  then have "mqtt_inv api table w'" using mqtt_inv_forward by blast
  then show ?case by (simp add: mqtt_inv_def)
next
  case (step_handlePublish w mid client)
  then show ?case
    using awaiting_puback [of "mw_mqtt w" "mw_events w" _ client mid]
    by (auto simp: mqtt_inv_def handlePublish_replaying intro: confirmed_append)
next
  case (step_connect w lib r m')
  then have "mqtt_inv api table (w\<lparr>mw_mqtt := m'\<rparr>)" using mqtt_inv_flags connect_same_replay by blast
  then show ?case using step_connect.hyps(1) by (simp add: mqtt_inv_def)
next
  case (step_disconnect w client running m')
  then have "mqtt_inv api table (w\<lparr>mw_mqtt := m'\<rparr>)" using mqtt_inv_flags handlers_same_replay(5) by blast
  then show ?case by (simp add: mqtt_inv_def)
next
  case (step_disconnect_end w client running)
  then have "mqtt_inv api table (w\<lparr>mw_mqtt := mqtt_disconnect_end client running (mw_mqtt w)\<rparr>)"
    using mqtt_inv_flags handlers_same_replay(4) by blast
  then show ?case by (simp add: mqtt_inv_def)
qed (simp_all add: mqtt_inv_flags handlers_same_replay)

lemma mqtt_inv_reach: "mqtt_reach api jf w0 w \<Longrightarrow> mqtt_inv api table w0 \<Longrightarrow> mqtt_inv api table w"
  by (induction rule: mqtt_reach.induct) (auto intro: mqtt_inv_step)

text \<open>A service that has not replayed anything yet; \<open>mw_enqueued\<close> counts what is in the outbox already.\<close>

definition mqtt_start :: "'db sqlite_api \<Rightarrow> ('db \<Rightarrow> (int \<times> sq_value list) list) \<Rightarrow> 'db mqtt_world \<Rightarrow> bool" where
  "mqtt_start api table w \<longleftrightarrow> store_inv api table (mw_store w) \<and> mw_replay w = Rp_none \<and> \<not> mq_replaying (mw_mqtt w) \<and>
     mw_events w = [] \<and> mw_removed w = [] \<and> mw_enqueued w = map pq_content (store_queue api table (mw_store w))"

lemma mqtt_inv_start: "mqtt_start api table w \<Longrightarrow> mqtt_inv api table w"
  by (simp add: mqtt_start_def mqtt_inv_def)

text \<open>
  C2. In every interleaving of bus callbacks, network callbacks, the replay thread and the owner's calls, the outbox
  loses, invents and reorders nothing: what was ever put into it is, in order, what was removed followed by what is
  still there; and a message is removed only after libmosquitto had accepted it at QoS 1 and reported the \<open>PUBACK\<close> of
  that very message id afterwards. Losing the connection, a timeout or a database error at any point keeps the message.
\<close>

theorem outbox_replay_no_loss:
  assumes "mqtt_start api table w0" and "mqtt_reach api jf w0 w"
  shows "mw_enqueued w = map pq_content (mw_removed w @ store_queue api table (mw_store w)) \<and>
    list_all (confirmed (mw_events w)) (mw_removed w)"
  using mqtt_inv_reach [OF assms(2) mqtt_inv_start [OF assms(1)]] by (simp add: mqtt_inv_def list_all_iff)

text \<open>A run of one message: buffered while offline, replayed after the connection, acknowledged and removed.\<close>

definition demo_mqtt_config :: mqtt_config where
  "demo_mqtt_config = \<lparr>qc_host = ''h'', qc_port = 1883, qc_clientId = ''c'', qc_keepAliveSeconds = 60,
     qc_connectTimeoutMs = 1, qc_reconnectInitialDelaySeconds = 1, qc_reconnectMaximumDelaySeconds = 2,
     qc_publishAckTimeoutMs = 1, qc_topicPrefix = ''e''\<rparr>"

definition demo_lib :: mosq_results where
  "demo_lib = \<lparr>mo_ready = True, mo_new = Some 7, mo_reconnect_delay_set = True, mo_connect_async = True, mo_loop_start = True\<rparr>"

definition demo_world :: "mem_db mqtt_world" where
  "demo_world = \<lparr>mw_mqtt = setOfflineStorage True (new_mqtt demo_mqtt_config), mw_store = mem_store, mw_replay = Rp_none,
     mw_forwards = [Fw_enqueue ''e/d/tags/t'' ''1'' True], mw_closing = None, mw_live = [], mw_enqueued = [], mw_events = [],
     mw_removed = []\<rparr>"

definition demo_replay :: "mem_db mqtt_world \<Rightarrow> mem_db mqtt_world" where
  "demo_replay w = (case replay_step mem_api (Mosq_success 5) False w of None \<Rightarrow> w | Some w' \<Rightarrow> w')"

definition demo_buffered :: "mem_db mqtt_world" where
  "demo_buffered = (case forward_step mem_api demo_jf Mosq_failed 0 (mw_forwards demo_world ! 0) demo_world of
     (pc, w) \<Rightarrow> w\<lparr>mw_forwards := (mw_forwards demo_world)[0 := pc]\<rparr>)"

definition demo_connected :: "mem_db mqtt_world" where
  "demo_connected = (let w = demo_buffered\<lparr>mw_mqtt := snd (mqtt_connect demo_lib (mw_mqtt demo_buffered)), mw_replay := Rp_wait\<rparr>
     in w\<lparr>mw_mqtt := handleConnect 7 0 (mw_mqtt w)\<rparr>)"

definition demo_sent :: "mem_db mqtt_world" where
  "demo_sent = demo_replay (demo_replay (demo_replay (demo_replay demo_connected)))"

definition demo_acked :: "mem_db mqtt_world" where
  "demo_acked = demo_sent\<lparr>mw_mqtt := handlePublish 7 5 (mw_mqtt demo_sent), mw_events := mw_events demo_sent @ [Ev_puback 5]\<rparr>"

lemma demo_replay_reach: "mqtt_reach mem_api demo_jf w0 w \<Longrightarrow> mqtt_reach mem_api demo_jf w0 (demo_replay w)"
  by (auto simp: demo_replay_def intro: reach_next step_replay split: option.splits)

lemma demo_buffered_reach: "mqtt_reach mem_api demo_jf demo_world demo_buffered"
proof -
  obtain pc w where f: "forward_step mem_api demo_jf Mosq_failed 0 (mw_forwards demo_world ! 0) demo_world = (pc, w)"
    by (metis surj_pair)
  have "0 < length (mw_forwards demo_world)" by (simp add: demo_world_def)
  from reach_next [OF reach_init step_forward [OF this f]] show ?thesis by (simp add: demo_buffered_def f)
qed

lemma demo_connected_reach: "mqtt_reach mem_api demo_jf demo_world demo_connected"
proof -
  have b: "mw_replay demo_buffered = Rp_none" "mw_closing demo_buffered = None"
    "fst (mqtt_connect demo_lib (mw_mqtt demo_buffered)) = None"
    by code_simp+
  have "mqtt_step mem_api demo_jf demo_buffered (demo_buffered\<lparr>mw_mqtt := snd (mqtt_connect demo_lib (mw_mqtt demo_buffered)),
      mw_replay := Rp_wait\<rparr>)"
    using step_connect [OF b(1,2) prod.collapse [symmetric], of mem_api demo_jf demo_lib] b(3) by simp
  then show ?thesis
    unfolding demo_connected_def Let_def by (rule reach_next [OF reach_next [OF demo_buffered_reach] step_handleConnect])
qed

lemma demo_acked_reach: "mqtt_reach mem_api demo_jf demo_world demo_acked"
  unfolding demo_acked_def demo_sent_def
  by (rule reach_next [OF _ step_handlePublish],
      rule demo_replay_reach, rule demo_replay_reach, rule demo_replay_reach, rule demo_replay_reach, rule demo_connected_reach)

definition demo_store :: "mem_db store" where
  "demo_store = (fst mem_store, [], [(1, [Sq_text ''e/d/tags/t'', Sq_text ''1'', Sq_int 0, Sq_int 0])])"

definition demo_pending :: pending_mqtt where
  "demo_pending = \<lparr>pq_id = 1, pq_topic = ''e/d/tags/t'', pq_payload = ''1'', pq_retain = False, pq_createdAtMs = 0\<rparr>"

lemma demo_outbox:
  "enqueueMqttMessage mem_api 0 ''e/d/tags/t'' ''1'' False mem_store = (True, demo_store)"
  "loadPendingMqttMessages mem_api 1 demo_store = [demo_pending]"
  "removePendingMqttMessage mem_api 1 demo_store = (True, mem_store)"
  by (simp_all add: enqueueMqttMessage_def loadPendingMqttMessages_def removePendingMqttMessage_def mem_store_def demo_store_def
      mem_api_def sql_texts_differ next_id_def row_of_def c_str_def bind_text_def timestampToMilliseconds_def cpp_div_def
      pending_of_row_def demo_pending_def column_def readTextColumn_def max_int_def Let_def)

lemma demo_connected_state:
  "mw_replay demo_connected = Rp_wait" "mw_store demo_connected = demo_store" "mw_events demo_connected = []"
  "mw_removed demo_connected = []" "mw_enqueued demo_connected = [(''e/d/tags/t'', ''1'', False)]"
  by (simp_all add: demo_connected_def demo_buffered_def demo_world_def forward_step_def demo_outbox c_str_def Let_def)

lemma demo_connected_mqtt:
  "mq_connected (mw_mqtt demo_connected)" "mq_client (mw_mqtt demo_connected) = Some 7"
  "\<not> mq_stopping (mw_mqtt demo_connected)" "mq_offlineStorage (mw_mqtt demo_connected)"
  "mq_replayRequested (mw_mqtt demo_connected)" "\<not> mq_replaying (mw_mqtt demo_connected)"
  by code_simp+

lemma demo_run_end:
  "mw_enqueued (demo_replay (demo_replay demo_acked)) = [(''e/d/tags/t'', ''1'', False)]"
  "mw_events (demo_replay (demo_replay demo_acked)) = [Ev_replayed 5 ''e/d/tags/t'' ''1'' False, Ev_puback 5]"
  "mw_removed (demo_replay (demo_replay demo_acked)) = [demo_pending]"
proof -
  note c = demo_connected_state
  note steps = demo_replay_def replay_step_def Let_def demo_connected_mqtt mqtt_isConnected_def publishWithAck_begin_def publishWithAck_end_def
    ack_wait_over_def handlePublish_def demo_outbox demo_outbox(2) [simplified] demo_pending_def max_int_def c_str_def
  have s: "mw_replay demo_sent = Rp_ack demo_pending" "mw_store demo_sent = demo_store"
     "mw_enqueued demo_sent = [(''e/d/tags/t'', ''1'', False)]"
    "mw_events demo_sent = [Ev_replayed 5 ''e/d/tags/t'' ''1'' False]" "mw_removed demo_sent = []"
    "mq_client (mw_mqtt demo_sent) = Some 7" "mq_replayMessageId (mw_mqtt demo_sent) = 5"
    by (simp_all add: demo_sent_def c steps)
  show "mw_enqueued (demo_replay (demo_replay demo_acked)) = [(''e/d/tags/t'', ''1'', False)]"
    "mw_events (demo_replay (demo_replay demo_acked)) = [Ev_replayed 5 ''e/d/tags/t'' ''1'' False, Ev_puback 5]"
    "mw_removed (demo_replay (demo_replay demo_acked)) = [demo_pending]"
    by (simp_all add: demo_acked_def s steps)
qed

theorem outbox_replay_no_loss_witness:
  "mw_enqueued (demo_replay (demo_replay demo_acked)) = [(''e/d/tags/t'', ''1'', False)] \<and>
   store_queue mem_api snd (mw_store (demo_replay (demo_replay demo_acked))) = [] \<and>
   confirmed [Ev_replayed 5 ''e/d/tags/t'' ''1'' False, Ev_puback 5] demo_pending"
proof -
  have s: "mqtt_start mem_api snd demo_world"
    using mem_store_inv by (simp add: mqtt_start_def demo_world_def setOfflineStorage_def new_mqtt_def store_queue_def mem_store_def)
  have r: "mqtt_reach mem_api demo_jf demo_world (demo_replay (demo_replay demo_acked))"
    by (rule demo_replay_reach, rule demo_replay_reach, rule demo_acked_reach)
  from outbox_replay_no_loss [OF s r] show ?thesis by (auto simp: demo_run_end demo_pending_def)
qed

subsection \<open>Clients are destroyed exactly once\<close>

text \<open>
  A client that was created and not yet destroyed is the current one or in the hands of a \<open>disconnect\<close> in progress, and
  its network thread runs exactly then.
\<close>

definition mosq_balance :: "'db mqtt_world \<Rightarrow> bool" where
  "mosq_balance w \<longleftrightarrow>
     (let m = mw_mqtt w in
      (\<forall>c. count_list (mq_calls m) (Mq_new c) = count_list (mq_calls m) (Mq_destroy c) +
         (if mq_client m = Some c then 1 else 0) + (case mw_closing w of Some (Some d, _) \<Rightarrow> if d = c then 1 else 0 | _ \<Rightarrow> 0)) \<and>
      (\<forall>c. count_list (mq_calls m) (Mq_loop_start c) = count_list (mq_calls m) (Mq_loop_stop c) +
         (if mq_client m = Some c then 1 else 0) + (case mw_closing w of Some (Some d, _) \<Rightarrow> if d = c then 1 else 0 | _ \<Rightarrow> 0)) \<and>
      (mq_loopRunning m \<longleftrightarrow> mq_client m \<noteq> None) \<and>
      (mq_connected m \<longrightarrow> mq_client m \<noteq> None) \<and>
      (\<forall>d r. mw_closing w = Some (Some d, r) \<longrightarrow> r))"

text \<open>Sections that neither create nor destroy a client.\<close>

definition same_client :: "mqtt \<Rightarrow> mqtt \<Rightarrow> bool" where
  "same_client m m' \<longleftrightarrow> mq_calls m' = mq_calls m \<and> mq_client m' = mq_client m \<and> mq_loopRunning m' = mq_loopRunning m \<and>
     (mq_connected m' \<longrightarrow> mq_connected m \<or> mq_client m \<noteq> None)"

lemma mosq_balance_same:
  "mosq_balance w \<Longrightarrow> same_client (mw_mqtt w) (mw_mqtt w') \<Longrightarrow> mw_closing w' = mw_closing w \<Longrightarrow> mosq_balance w'"
  by (auto simp: mosq_balance_def same_client_def Let_def)

lemma same_client_handlers:
  "same_client m (handleConnect c r m)" "same_client m (handleDisconnect c m)" "same_client m (setOfflineStorage b m)"
  "same_client m (handlePublish c i m)"
  by (auto simp: same_client_def handleConnect_def handleDisconnect_def setOfflineStorage_def handlePublish_def Let_def)

lemma same_client_publish:
  "mqtt_publish res t p b m = (ok, m', x) \<Longrightarrow> same_client m m'"
  "publishWithAck_begin res t p b m = (ok, m', y) \<Longrightarrow> same_client m m'"
  "publishWithAck_end m = (ok, m') \<Longrightarrow> same_client m m'"
  by (auto simp: same_client_def mqtt_publish_def publishWithAck_begin_def publishWithAck_end_def Let_def
      split: if_splits mosq_publish.splits)

lemma same_client_replay:
  assumes "replay_step api res timedOut w = Some w'"
  shows "same_client (mw_mqtt w) (mw_mqtt w') \<and> mw_closing w' = mw_closing w"
proof (cases "mw_replay w")
  case (Rp_send q)
  obtain b m' sent where p: "publishWithAck_begin res (pq_topic q) (pq_payload q) (pq_retain q) (mw_mqtt w) = (b, m', sent)"
    by (metis prod_cases3)
  then show ?thesis using assms same_client_publish(2) [OF p] by (auto simp: replay_step_def Rp_send p)
next
  case (Rp_ack q)
  obtain b m' where p: "publishWithAck_end (mw_mqtt w) = (b, m')" by (metis surj_pair)
  then show ?thesis using assms same_client_publish(3) [OF p]
    by (cases "ack_wait_over timedOut (mw_mqtt w)") (auto simp: replay_step_def Rp_ack p)
qed (use assms in \<open>auto simp: replay_step_def same_client_def Let_def split: if_splits list.splits prod.splits\<close>)

lemma same_client_forward:
  assumes "forward_step api jf res now pc w = (pc', w')"
  shows "same_client (mw_mqtt w) (mw_mqtt w') \<and> mw_closing w' = mw_closing w"
proof (cases pc)
  case (Fw_publish t p b)
  obtain ok m' x where q: "mqtt_publish res t p False (mw_mqtt w) = (ok, m', x)" by (metis prod_cases3)
  then show ?thesis using assms same_client_publish(1) [OF q] by (auto simp: forward_step_def Fw_publish q)
qed (use assms in \<open>auto simp: forward_step_def same_client_def Let_def split: if_splits prod.splits\<close>)

lemma mosq_balance_connect:
  assumes "mosq_balance w" and "mw_closing w = None" and "mqtt_connect lib (mw_mqtt w) = (r, m')"
  shows "mosq_balance (w\<lparr>mw_mqtt := m', mw_replay := p\<rparr>)"
  using assms
  by (auto simp: mosq_balance_def mqtt_connect_def initializeClientLocked_def mq_log_def Let_def split: if_splits option.splits)

lemma mosq_balance_step:
  assumes "mqtt_step api jf w w'" and "mosq_balance w"
  shows "mosq_balance w'"
  using assms
proof (induction rule: mqtt_step.induct)
  case (step_replay res timedOut w w') then show ?case using same_client_replay mosq_balance_same by blast
next
  case (step_call w message) then show ?case by (simp add: mosq_balance_def)
next
  case (step_forward i w res now pc' w')
  from same_client_forward [OF step_forward.hyps(2)] show ?case
    using mosq_balance_same [OF step_forward.prems, of "w'\<lparr>mw_forwards := (mw_forwards w)[i := pc']\<rparr>"] by simp
next
  case (step_connect w lib r m') then show ?case by (intro mosq_balance_connect)
next
  case (step_disconnect w client running m')
  then show ?case by (auto simp: mosq_balance_def mqtt_disconnect_begin_def Let_def)
next
  case (step_disconnect_end w client running)
  then show ?case by (auto simp: mosq_balance_def mqtt_disconnect_end_def mq_log_def Let_def split: option.splits)
qed (erule mosq_balance_same, simp_all add: same_client_handlers)+

lemma mosq_balance_reach: "mqtt_reach api jf w0 w \<Longrightarrow> mosq_balance w0 \<Longrightarrow> mosq_balance w"
  by (induction rule: mqtt_reach.induct) (auto intro: mosq_balance_step)


definition idle_world :: "mem_db mqtt_world" where
  "idle_world = demo_world\<lparr>mw_mqtt := new_mqtt demo_mqtt_config\<rparr>"


subsection \<open>Forwarding a message of the bus\<close>

text \<open>\<open>forwardMessage\<close> when no other thread runs in between: its four sections in a row.\<close>

definition forwardMessage :: "'db sqlite_api \<Rightarrow> json_floats \<Rightarrow> mosq_publish \<Rightarrow> wall_time \<Rightarrow> message \<Rightarrow>
    'db mqtt_world \<Rightarrow> 'db mqtt_world" where
  "forwardMessage api jf res now message w =
     (let step = (\<lambda>(pc, w). forward_step api jf res now pc w)
      in snd (step (step (step (step (Fw_begin message, w))))))"

definition forward_live :: "json_floats \<Rightarrow> mosq_publish \<Rightarrow> message \<Rightarrow> mqtt \<Rightarrow> bool" where
  "forward_live jf res message m \<longleftrightarrow> mq_connected m \<and> \<not> mq_replaying m \<and> mq_client m \<noteq> None \<and>
     length (messageToJson jf message) \<le> max_int \<and> (\<exists>mid. res = Mosq_success mid)"

lemma publish_ok_iff:
  assumes "mqtt_publish res topic payload False m = (ok, m', x)" and "topic \<noteq> ''''"
  shows "(ok \<longleftrightarrow> mq_connected m \<and> mq_client m \<noteq> None \<and> length payload \<le> max_int \<and> (\<exists>mid. res = Mosq_success mid)) \<and>
    (if ok then m' = m \<and> x = Some (c_str topic, payload, False) else x = None)"
  using assms by (auto simp: mqtt_publish_def split: if_splits mosq_publish.splits)

text \<open>
  A message of the bus with a device and a tag name is handed to libmosquitto at once exactly when the service is
  connected and no replay is running and the library takes it; otherwise it goes to the end of the outbox when there is
  one and it accepts the message, and is dropped in no other case than these two failing. Nothing is both sent and
  buffered, and buffering while connected asks for a replay.
\<close>

theorem forward_delivers_or_buffers:
  assumes "msg_deviceId message \<noteq> ''''" and "msg_tagName message \<noteq> ''''"
    and topic: "topic = forward_topic (mq_config (mw_mqtt w)) message" and payload: "payload = messageToJson jf message"
    and w': "w' = forwardMessage api jf res now message w"
  shows "if forward_live jf res message (mw_mqtt w) then w' = w\<lparr>mw_live := mw_live w @ [(c_str topic, payload, False)]\<rparr>
    else mw_live w' = mw_live w \<and>
      (if mq_offlineStorage (mw_mqtt w) \<and> fst (enqueueMqttMessage api now topic payload False (mw_store w))
       then mw_enqueued w' = mw_enqueued w @ [(c_str topic, c_str payload, False)] \<and>
         mw_store w' = snd (enqueueMqttMessage api now topic payload False (mw_store w)) \<and>
         (mq_connected (mw_mqtt w') \<longrightarrow> mq_replayRequested (mw_mqtt w'))
       else mw_enqueued w' = mw_enqueued w)"
proof -
  have ne: "topic \<noteq> ''''" by (simp add: topic forward_topic_def)
  obtain ok m' x where p: "mqtt_publish res topic payload False (mw_mqtt w) = (ok, m', x)" by (metis prod_cases3)
  obtain ok2 s' where e: "enqueueMqttMessage api now topic payload False (mw_store w) = (ok2, s')" by (metis surj_pair)
  note pub = publish_ok_iff [OF p ne]
  note unf = w' forwardMessage_def forward_step_def Let_def assms(1,2) topic [symmetric] payload [symmetric] p e
  show ?thesis
  proof (cases "\<not> mq_connected (mw_mqtt w) \<or> mq_replaying (mw_mqtt w)")
    case True
    then have "\<not> forward_live jf res message (mw_mqtt w)" by (auto simp: forward_live_def)
    then show ?thesis using True by (cases "mq_offlineStorage (mw_mqtt w)"; cases ok2) (simp_all add: unf)
  next
    case False
    then have l: "forward_live jf res message (mw_mqtt w) = ok" using pub by (auto simp: forward_live_def payload)
    show ?thesis
      using False pub by (cases ok; cases "mq_offlineStorage (mw_mqtt w)"; cases ok2) (simp_all add: unf l)
  qed
qed

theorem forward_delivers_or_buffers_witness:
  "length (mw_enqueued (forwardMessage mem_api demo_jf Mosq_failed 0
     (default_message\<lparr>msg_deviceId := ''d'', msg_tagName := ''t''\<rparr>) demo_world)) = 1"
proof -
  let ?msg = "default_message\<lparr>msg_deviceId := ''d'', msg_tagName := ''t''\<rparr>"
  have "\<not> forward_live demo_jf Mosq_failed ?msg (mw_mqtt demo_world)" by (simp add: forward_live_def)
  moreover have "mw_enqueued demo_world = []" "mq_offlineStorage (mw_mqtt demo_world)"
    by (simp_all add: demo_world_def setOfflineStorage_def new_mqtt_def)
  moreover have "fst (enqueueMqttMessage mem_api 0 (forward_topic (mq_config (mw_mqtt demo_world)) ?msg)
      (messageToJson demo_jf ?msg) False (mw_store demo_world))"
    by (simp add: demo_world_def mem_store_def enqueueMqttMessage_def mem_api_def sql_texts_differ next_id_def forward_topic_def)
  ultimately show ?thesis
    using forward_delivers_or_buffers [of ?msg, OF _ _ refl refl refl, where w = demo_world and jf = demo_jf
      and api = mem_api and res = Mosq_failed and now = 0] by simp
qed

end
