(* ===== verification/Mqtt_Replay.thy ===== *)
theory Mqtt_Replay
  imports Mqtt_Service
begin

section \<open>The replay thread empties the outbox\<close>

text \<open>
  \<open>replayLoop\<close> of \<open>src/mqtt_service.cpp\<close> while nothing goes wrong: the connection stays, the statements on the outbox succeed,
  libmosquitto takes every message and no wait times out. \<open>Mqtt_Service\<close> shows that the outbox loses nothing whatever
  happens; here the thread is shown to make progress, to wait for nothing but the \<open>PUBACK\<close> of the message it sent, and to
  empty the outbox in a number of sections that depends on the length of the outbox alone.
\<close>

subsection \<open>Runs without failures\<close>

text \<open>What is required of the database: the two statements of the replay succeed.\<close>

definition outbox_responsive :: "'db sqlite_api \<Rightarrow> bool" where
  "outbox_responsive api \<longleftrightarrow>
     (\<forall>db. sq_prepare api SelectOutboxLimitSql db \<and> snd (sq_rows api SelectOutboxLimitSql [Sq_int 1] db)) \<and>
     (\<forall>i db. sq_prepare api DeleteOutboxSql db \<and> fst (sq_step api DeleteOutboxSql [Sq_int i] db))"

text \<open>A run of the replay thread and the network thread of the client \<open>c\<close>, with the number of sections of the replay thread.\<close>

inductive replay_run :: "'db sqlite_api \<Rightarrow> nat \<Rightarrow> nat \<Rightarrow> 'db mqtt_world \<Rightarrow> 'db mqtt_world \<Rightarrow> bool"
  for api c where
  run_init: "replay_run api c 0 w w"
| run_replay: "replay_run api c k w0 w \<Longrightarrow> replay_step api (Mosq_success mid) False w = Some w' \<Longrightarrow>
     replay_run api c (Suc k) w0 w'"
| run_puback: "replay_run api c k w0 w \<Longrightarrow>
     replay_run api c k w0 (w\<lparr>mw_mqtt := handlePublish c mid (mw_mqtt w), mw_events := mw_events w @ [Ev_puback mid]\<rparr>)"

text \<open>Such a run is a run of the service.\<close>

lemma replay_run_reach: "replay_run api c k w0 w \<Longrightarrow> mqtt_reach api jf w0 w"
  by (induction rule: replay_run.induct) (blast intro: mqtt_reach.intros step_replay step_handlePublish)+

subsection \<open>Progress\<close>

definition sendable :: "pending_mqtt \<Rightarrow> bool" where
  "sendable q \<longleftrightarrow> pq_topic q \<noteq> '''' \<and> length (pq_payload q) \<le> max_int"

text \<open>The connection is up and the thread is at work, or was asked to.\<close>

definition replay_healthy :: "'db sqlite_api \<Rightarrow> ('db \<Rightarrow> (int \<times> sq_value list) list) \<Rightarrow> nat \<Rightarrow> 'db mqtt_world \<Rightarrow> bool" where
  "replay_healthy api table c w \<longleftrightarrow>
     store_inv api table (mw_store w) \<and> list_all sendable (store_queue api table (mw_store w)) \<and>
     (let m = mw_mqtt w in mq_connected m \<and> \<not> mq_stopping m \<and> mq_offlineStorage m \<and> mq_client m = Some c) \<and>
     (\<forall>q. replay_current (mw_replay w) = Some q \<longrightarrow> (\<exists>rest. store_queue api table (mw_store w) = q # rest)) \<and>
     (mw_replay w = Rp_wait \<longrightarrow> \<not> mq_replaying (mw_mqtt w)) \<and>
     (mw_replay w = Rp_end \<or> mw_replay w = Rp_wait \<and> \<not> mq_replayRequested (mw_mqtt w) \<longrightarrow>
        store_queue api table (mw_store w) = []) \<and>
     (mq_replayRequested (mw_mqtt w) \<longrightarrow> mw_replay w = Rp_wait) \<and> mw_replay w \<noteq> Rp_none"

text \<open>The sections that are left until the thread waits for the next request.\<close>

definition replay_left :: "'db sqlite_api \<Rightarrow> ('db \<Rightarrow> (int \<times> sq_value list) list) \<Rightarrow> 'db mqtt_world \<Rightarrow> nat" where
  "replay_left api table w =
     (let n = 5 * length (store_queue api table (mw_store w)) in
      case mw_replay w of
        Rp_none \<Rightarrow> 0
      | Rp_wait \<Rightarrow> if mq_replayRequested (mw_mqtt w) then n + 4 else 0
      | Rp_check \<Rightarrow> n + 3
      | Rp_load \<Rightarrow> n + 2
      | Rp_send _ \<Rightarrow> n + 1
      | Rp_ack _ \<Rightarrow> n
      | Rp_remove _ \<Rightarrow> n - 1
      | Rp_end \<Rightarrow> 1)"

lemma load_first:
  assumes "store_inv api table s" and "outbox_responsive api"
  shows "loadPendingMqttMessages api 1 s = take 1 (store_queue api table s)"
proof -
  obtain st db where s: "s = (st, db)" by fastforce
  obtain rows where r: "sq_rows api SelectOutboxLimitSql [Sq_int 1] db = (rows, True)"
    using assms(2) unfolding outbox_responsive_def by (metis prod.collapse)
  have "sqlite_table_ok api InsertOutboxSql 4 SelectOutboxSql SelectOutboxLimitSql CountOutboxSql table"
    using assms(1) by (simp add: store_inv_def sqlite_outbox_ok_def)
  then have "\<forall>n db. n \<noteq> 0 \<longrightarrow> (case sq_rows api SelectOutboxLimitSql [Sq_int n] db of (rows, finished) \<Rightarrow>
      finished \<longrightarrow> rows = map row_of (if n < 0 then table db else take (nat n) (table db)))"
    unfolding sqlite_table_ok_def by (elim conjE)
  then have "rows = map row_of (take 1 (table db))" using r by (auto dest!: spec [of _ "1 :: int"] spec [of _ db])
  then show ?thesis using assms r
    by (simp add: loadPendingMqttMessages_def s store_inv_def outbox_responsive_def store_queue_def take_map)
qed

lemma remove_first:
  assumes inv: "store_inv api table s" and resp: "outbox_responsive api" and q: "store_queue api table s = q # rest"
  shows "\<exists>s'. removePendingMqttMessage api (pq_id q) s = (True, s') \<and> store_inv api table s' \<and> store_queue api table s' = rest"
proof -
  obtain st db where s: "s = (st, db)" by fastforce
  have api: "sqlite_outbox_ok api table" and op: "st_open st" and wf: "outbox_wf (table db)"
    using inv by (simp_all add: store_inv_def s)
  obtain r rs where t: "table db = r # rs" and r: "q = pending_of_row api (row_of r)"
    using q by (auto simp: store_queue_def s)
  have "outbox_row_ok r" using wf t by (simp add: outbox_wf_def)
  then have id: "pq_id q = fst r" "0 < fst r"
    using api pending_of_stored [of api r] by (cases r rule: outbox_row_ok.cases, simp_all add: r sqlite_outbox_ok_def)+
  have "fst r \<notin> fst ` set rs" using wf t by (auto simp: outbox_wf_def)
  then have "filter (\<lambda>x. fst x = fst r) rs = []" by (auto simp: filter_empty_conv image_iff)
  then have n: "length (filter (\<lambda>x. fst x = fst r) (table db)) = 1" by (simp add: t)
  obtain k db' where st: "sq_step api DeleteOutboxSql [Sq_int (fst r)] db = (True, k, db')"
    using resp unfolding outbox_responsive_def by (metis prod.collapse)
  have "k = 1" using outbox_delete [OF api st] n by simp
  then have rm: "removePendingMqttMessage api (pq_id q) s = (True, st, db')"
    using op id st resp by (simp add: removePendingMqttMessage_def s outbox_responsive_def)
  moreover have "pq_id q \<notin> pq_id ` set rest" using ob.ids_distinct [OF inv] q by simp
  then have "filter (\<lambda>x. pq_id x \<noteq> pq_id q) (store_queue api table s) = rest" by (auto simp: q filter_id_conv image_iff)
  with ob.del_queue [OF inv rm] have "store_queue api table (st, db') = rest" by (auto simp: q)
  moreover have "store_inv api table (st, db')" using ob.del_invar [OF inv, of "pq_id q"] rm by simp
  ultimately show ?thesis by blast
qed

text \<open>What the broker was sent of the outbox, and the message that was sent and is not removed yet.\<close>

definition replayed :: "mq_event list \<Rightarrow> (string \<times> string \<times> bool) list" where
  "replayed es = List.map_filter (\<lambda>e. case e of Ev_replayed _ t p r \<Rightarrow> Some (t, p, r) | Ev_puback _ \<Rightarrow> None) es"

lemma replayed_simps [simp]:
  "replayed [] = []" "replayed (es @ fs) = replayed es @ replayed fs"
  "replayed [Ev_puback mid] = []" "replayed [Ev_replayed mid t p r] = [(t, p, r)]"
  by (simp_all add: replayed_def map_filter_def)

fun in_flight :: "replay_pc \<Rightarrow> pending_mqtt list" where
  "in_flight (Rp_ack q) = [q]"
| "in_flight (Rp_remove q) = [q]"
| "in_flight _ = []"

text \<open>The outbox loses its head or nothing, and each message goes out once, in the order of the outbox.\<close>

definition drains :: "'db sqlite_api \<Rightarrow> ('db \<Rightarrow> (int \<times> sq_value list) list) \<Rightarrow> 'db mqtt_world \<Rightarrow> 'db mqtt_world \<Rightarrow> bool" where
  "drains api table w w' \<longleftrightarrow>
     mw_removed w' @ store_queue api table (mw_store w') = mw_removed w @ store_queue api table (mw_store w) \<and>
     (\<exists>new. replayed (mw_events w') = replayed (mw_events w) @ map pq_content new \<and>
        mw_removed w' @ in_flight (mw_replay w') = mw_removed w @ in_flight (mw_replay w) @ new)"

lemma drains_refl: "drains api table w w"
  by (simp add: drains_def)

lemma drains_trans:
  assumes "drains api table w w'" and "drains api table w' w''"
  shows "drains api table w w''"
proof -
  obtain xs ys where e: "replayed (mw_events w') = replayed (mw_events w) @ map pq_content xs"
    "replayed (mw_events w'') = replayed (mw_events w') @ map pq_content ys"
    and xs: "mw_removed w' @ in_flight (mw_replay w') = mw_removed w @ in_flight (mw_replay w) @ xs"
    and ys: "mw_removed w'' @ in_flight (mw_replay w'') = mw_removed w' @ in_flight (mw_replay w') @ ys"
    using assms unfolding drains_def by blast
  have "mw_removed w'' @ in_flight (mw_replay w'') = (mw_removed w' @ in_flight (mw_replay w')) @ ys" by (simp add: ys)
  also have "\<dots> = mw_removed w @ in_flight (mw_replay w) @ xs @ ys" unfolding xs by simp
  finally have "mw_removed w'' @ in_flight (mw_replay w'') = mw_removed w @ in_flight (mw_replay w) @ xs @ ys" .
  moreover have "replayed (mw_events w'') = replayed (mw_events w) @ map pq_content (xs @ ys)" by (simp add: e)
  moreover have "mw_removed w'' @ store_queue api table (mw_store w'') = mw_removed w @ store_queue api table (mw_store w)"
    using assms by (simp add: drains_def)
  ultimately show ?thesis unfolding drains_def by blast
qed

lemma queue_topic_c_str: "q \<in> set (store_queue api table s) \<Longrightarrow> c_str (pq_topic q) = pq_topic q"
  by (auto simp: store_queue_def pending_of_row_def readTextColumn_def c_str_c_str split: option.split)
    (simp add: c_str_def)

lemma replay_progress:
  assumes h: "replay_healthy api table c w" and resp: "outbox_responsive api"
    and st: "replay_step api (Mosq_success mid) False w = Some w'"
  shows "replay_healthy api table c w' \<and> Suc (replay_left api table w') = replay_left api table w \<and> drains api table w w'"
proof -
  have inv: "store_inv api table (mw_store w)" and q: "list_all sendable (store_queue api table (mw_store w))"
    and m: "mq_connected (mw_mqtt w)" "\<not> mq_stopping (mw_mqtt w)" "mq_offlineStorage (mw_mqtt w)" "mq_client (mw_mqtt w) = Some c"
    using h by (simp_all add: replay_healthy_def Let_def)
  note unf = replay_healthy_def Let_def replay_left_def drains_def replay_step_def
  show ?thesis
  proof (cases "mw_replay w")
    case Rp_none then show ?thesis using h by (simp add: replay_healthy_def)
  next
    case Rp_wait
    then show ?thesis using h st m by (auto simp: unf split: if_splits)
  next
    case Rp_check
    then show ?thesis using h st m by (auto simp: unf mqtt_isConnected_def)
  next
    case Rp_load
    then show ?thesis using h st load_first [OF inv resp] m
      by (cases "store_queue api table (mw_store w)") (auto simp: unf)
  next
    case (Rp_send p)
    then obtain rest where p: "store_queue api table (mw_store w) = p # rest" using h by (auto simp: replay_healthy_def)
    then have "sendable p" "c_str (pq_topic p) = pq_topic p" 
      using q queue_topic_c_str [of p api table "mw_store w"] by simp_all
    then show ?thesis using h st m p Rp_send by (auto simp: unf publishWithAck_begin_def sendable_def)
  next
    case (Rp_ack p)
    then obtain rest where p: "store_queue api table (mw_store w) = p # rest" using h by (auto simp: replay_healthy_def)
    then show ?thesis using h st m Rp_ack by (auto simp: unf publishWithAck_end_def ack_wait_over_def split: if_splits)
  next
    case (Rp_remove p)
    then obtain rest where p: "store_queue api table (mw_store w) = p # rest" using h by (auto simp: replay_healthy_def)
    obtain s' where "removePendingMqttMessage api (pq_id p) (mw_store w) = (True, s')" "store_inv api table s'"
      "store_queue api table s' = rest"
      using remove_first [OF inv resp p] by blast
    then show ?thesis using h st m Rp_remove p by (auto simp: unf)
  next
    case Rp_end
    then show ?thesis using h st m by (auto simp: unf)
  qed
qed

lemma puback_healthy:
  assumes "replay_healthy api table c w"
  shows "replay_healthy api table c (w\<lparr>mw_mqtt := handlePublish c mid (mw_mqtt w), mw_events := es\<rparr>)"
    and "replay_left api table (w\<lparr>mw_mqtt := handlePublish c mid (mw_mqtt w), mw_events := es\<rparr>) = replay_left api table w"
  using assms by (auto simp: replay_healthy_def replay_left_def handlePublish_def Let_def split: replay_pc.splits)

lemma replay_run_progress:
  assumes "replay_run api c k w0 w" and "replay_healthy api table c w0" and "outbox_responsive api"
  shows "replay_healthy api table c w \<and> k + replay_left api table w = replay_left api table w0 \<and> drains api table w0 w"
  using assms
proof (induction rule: replay_run.induct)
  case (run_init w) then show ?case by (simp add: drains_refl)
next
  case (run_replay k w0 w mid w')
  then show ?case using replay_progress [of api table c w mid w'] drains_trans by fastforce
next
  case (run_puback k w0 w mid)
  then show ?case using puback_healthy [where api = api and table = table and c = c and w = w and mid = mid]
    by (auto simp: drains_def)
qed

text \<open>The thread stands still only between replays and while it waits for the \<open>PUBACK\<close> of the message it sent.\<close>

lemma replay_stuck:
  assumes h: "replay_healthy api table c w" and stuck: "replay_step api (Mosq_success mid) False w = None"
  shows "(\<exists>q. mw_replay w = Rp_ack q \<and> \<not> mq_replayPublishAcknowledged (mw_mqtt w)) \<or>
    mw_replay w = Rp_wait \<and> \<not> mq_replayRequested (mw_mqtt w)"
proof (cases "mw_replay w")
  case (Rp_remove p)
  then show ?thesis using stuck by (auto simp: replay_step_def Let_def split: prod.splits if_splits)
qed (use assms in \<open>auto simp: replay_step_def replay_healthy_def ack_wait_over_def Let_def
  split: if_splits list.splits prod.splits\<close>)

lemma puback_wakes:
  assumes h: "replay_healthy api table c w" and pc: "mw_replay w = Rp_ack q"
  shows "\<exists>w'. replay_step api res False (w\<lparr>mw_mqtt := handlePublish c (mq_replayMessageId (mw_mqtt w)) (mw_mqtt w), mw_events := es\<rparr>)
    = Some w' \<and> mw_replay w' = Rp_remove q"
  using assms by (auto simp: replay_step_def replay_healthy_def ack_wait_over_def publishWithAck_end_def handlePublish_def Let_def)

text \<open>Such a run can always go on to its end.\<close>

lemma replay_run_completes:
  assumes "replay_run api c k w0 w" and "replay_healthy api table c w" and "outbox_responsive api"
  shows "\<exists>w'. replay_run api c (k + replay_left api table w) w0 w'"
  using assms
proof (induction "replay_left api table w" arbitrary: k w)
  case 0 then show ?case by auto
next
  case (Suc n)
  have go: "\<exists>w'. replay_run api c (k + replay_left api table w) w0 w'"
    if "replay_run api c k w0 w1" "replay_healthy api table c w1" "replay_left api table w1 = Suc n"
      "replay_step api (Mosq_success 0) False w1 = Some w2" for w1 w2
  proof -
    have "replay_healthy api table c w2" "n = replay_left api table w2"
      using replay_progress [OF that(2) Suc.prems(3) that(4)] that(3) by simp_all
    with Suc.hyps(1) [OF _ run_replay [OF that(1,4)] _ Suc.prems(3)] show ?thesis
      by (simp add: Suc.hyps(2) [symmetric])
  qed
  show ?case
  proof (cases "replay_step api (Mosq_success 0) False w")
    case (Some w2) then show ?thesis using go Suc by metis
  next
    case None
    then obtain q where q: "mw_replay w = Rp_ack q"
      using replay_stuck [OF Suc.prems(2) None] Suc.hyps(2) by (auto simp: replay_left_def)
    let ?w1 = "w\<lparr>mw_mqtt := handlePublish c (mq_replayMessageId (mw_mqtt w)) (mw_mqtt w),
      mw_events := mw_events w @ [Ev_puback (mq_replayMessageId (mw_mqtt w))]\<rparr>"
    obtain w2 where "replay_step api (Mosq_success 0) False ?w1 = Some w2" using puback_wakes [OF Suc.prems(2) q] by blast
    then show ?thesis
      using go [OF run_puback [OF Suc.prems(1)]] puback_healthy [OF Suc.prems(2)] Suc.hyps(2) by metis
  qed
qed

subsection \<open>The outbox is emptied\<close>

text \<open>A replay was asked for while the connection is up and the thread waits for work.\<close>

definition replay_due :: "nat \<Rightarrow> 'db mqtt_world \<Rightarrow> bool" where
  "replay_due c w \<longleftrightarrow> mw_replay w = Rp_wait \<and>
     (let m = mw_mqtt w in mq_connected m \<and> \<not> mq_stopping m \<and> mq_offlineStorage m \<and> mq_client m = Some c \<and>
        mq_replayRequested m \<and> \<not> mq_replaying m)"

lemma replay_due_healthy:
  "store_inv api table (mw_store w) \<Longrightarrow> list_all sendable (store_queue api table (mw_store w)) \<Longrightarrow> replay_due c w \<Longrightarrow>
    replay_healthy api table c w"
  by (simp add: replay_due_def replay_healthy_def Let_def)

lemma replay_left_0:
  assumes "replay_healthy api table c w" and "replay_left api table w = 0"
  shows "mw_replay w = Rp_wait \<and> store_queue api table (mw_store w) = [] \<and> \<not> mq_replaying (mw_mqtt w)"
  using assms by (auto simp: replay_healthy_def replay_left_def Let_def split: replay_pc.splits if_splits)

lemma replay_drained:
  assumes "store_inv api table (mw_store w)" and "list_all sendable (store_queue api table (mw_store w))"
    and "outbox_responsive api" and "replay_due c w" and "replay_run api c k w w'"
    and "k = 5 * length (store_queue api table (mw_store w)) + 4"
  shows "mw_replay w' = Rp_wait \<and> \<not> mq_replaying (mw_mqtt w') \<and> store_queue api table (mw_store w') = [] \<and>
    mw_removed w' = mw_removed w @ store_queue api table (mw_store w) \<and>
    replayed (mw_events w') = replayed (mw_events w) @ map pq_content (store_queue api table (mw_store w))"
proof -
  have h: "replay_healthy api table c w" using assms(1,2,4) by (rule replay_due_healthy)
  have "replay_left api table w = k" using assms(4,6) by (simp add: replay_left_def replay_due_def Let_def)
  note run = replay_run_progress [OF assms(5) h assms(3)]
  then have "replay_left api table w' = 0" using \<open>replay_left api table w = k\<close> by simp
  then have z: "mw_replay w' = Rp_wait" "store_queue api table (mw_store w') = []" "\<not> mq_replaying (mw_mqtt w')"
    using replay_left_0 [of api table c w'] run by simp_all
  moreover have "mw_replay w = Rp_wait" using assms(4) by (simp add: replay_due_def)
  ultimately show ?thesis using run by (auto simp: drains_def)
qed

text \<open>
  C6. Once a replay is due and while nothing fails, the outbox is emptied: with \<open>n\<close> messages in it the replay thread
  takes at most \<open>5 n + 4\<close> sections, in any interleaving with the acknowledgements; before that many, it can take its next
  section or waits for a \<open>PUBACK\<close> whose arrival lets it go on; after that many it waits for work again, the outbox is empty,
  and the broker was sent each message once, in the order of the outbox.
\<close>

theorem replay_drains_outbox:
  assumes "store_inv api table (mw_store w)" and "list_all sendable (store_queue api table (mw_store w))"
    and "outbox_responsive api" and "replay_due c w" and "replay_run api c k w w'"
  shows "k \<le> 5 * length (store_queue api table (mw_store w)) + 4 \<and>
    (if k < 5 * length (store_queue api table (mw_store w)) + 4
     then replay_step api (Mosq_success mid) False w' \<noteq> None \<or>
       replay_step api (Mosq_success mid) False
         (w'\<lparr>mw_mqtt := handlePublish c (mq_replayMessageId (mw_mqtt w')) (mw_mqtt w'), mw_events := es\<rparr>) \<noteq> None
     else mw_replay w' = Rp_wait \<and> \<not> mq_replaying (mw_mqtt w') \<and> store_queue api table (mw_store w') = [] \<and>
       mw_removed w' = mw_removed w @ store_queue api table (mw_store w) \<and>
       replayed (mw_events w') = replayed (mw_events w) @ map pq_content (store_queue api table (mw_store w)))"
proof -
  have h: "replay_healthy api table c w" using assms(1,2,4) by (rule replay_due_healthy)
  have left: "replay_left api table w = 5 * length (store_queue api table (mw_store w)) + 4"
    using assms(4) by (simp add: replay_left_def replay_due_def Let_def)
  note run = replay_run_progress [OF assms(5) h assms(3)]
  show ?thesis
  proof (cases "replay_left api table w' = 0")
    case True
    then show ?thesis using replay_drained [OF assms] run left by simp
  next
    case False
    have "replay_step api (Mosq_success mid) False w' = None \<Longrightarrow> \<exists>q. mw_replay w' = Rp_ack q"
      using replay_stuck [of api table c w' mid] run False by (auto simp: replay_left_def)
    then show ?thesis using puback_wakes [of api table c w' _ "Mosq_success mid" es] run left False by fastforce
  qed
qed

text \<open>The message of \<open>demo_world\<close>, buffered while offline.\<close>

lemma mem_api_responsive: "outbox_responsive mem_api"
  by (simp add: outbox_responsive_def mem_api_def sql_texts_differ)

lemma demo_store_queue: "store_inv mem_api snd demo_store" "store_queue mem_api snd demo_store = [demo_pending]"
proof -
  show "store_inv mem_api snd demo_store"
    using ob.enq_invar [OF mem_store_inv, of 0 "''e/d/tags/t''" "''1''" False] unfolding demo_outbox by simp
  show "store_queue mem_api snd demo_store = [demo_pending]"
    by (simp add: store_queue_def demo_store_def pending_of_row_def row_of_def demo_pending_def column_def
      readTextColumn_def mem_api_def c_str_def)
qed

theorem replay_drains_outbox_witness:
  "\<exists>w'. replay_run mem_api 7 9 demo_connected w' \<and> store_queue mem_api snd (mw_store w') = [] \<and>
     replayed (mw_events w') = [(''e/d/tags/t'', ''1'', False)]"
proof -
  have d: "replay_due 7 demo_connected"
    by (simp add: replay_due_def demo_connected_state demo_connected_mqtt)
  have i: "store_inv mem_api snd (mw_store demo_connected)" "list_all sendable (store_queue mem_api snd (mw_store demo_connected))"
    by (simp_all add: demo_connected_state demo_store_queue sendable_def demo_pending_def max_int_def)
  have "replay_left mem_api snd demo_connected = 9"
    by (simp add: replay_left_def demo_connected_state demo_connected_mqtt demo_store_queue)
  then obtain w' where r: "replay_run mem_api 7 9 demo_connected w'"
    using replay_run_completes [OF run_init replay_due_healthy [OF i d] mem_api_responsive] by auto
  from replay_drains_outbox [OF i mem_api_responsive d r] show ?thesis
    by (intro exI [of _ w']) (simp add: r demo_connected_state demo_store_queue demo_pending_def)
qed

text \<open>
  A wait for the \<open>PUBACK\<close> that times out while the connection stays up ends the replay with the outbox untouched, and
  nothing asks for another one: the thread sleeps until the next connection or the next message that has to be buffered, and
  meanwhile new messages are published directly.
\<close>

lemma replay_timeout_stalls:
  assumes "mw_replay w = Rp_ack q" and "mq_connected (mw_mqtt w)" and "\<not> mq_stopping (mw_mqtt w)"
    and "\<not> mq_replayPublishAcknowledged (mw_mqtt w)" and "\<not> mq_replayRequested (mw_mqtt w)"
  shows "\<exists>w1 w2. replay_step api res True w = Some w1 \<and> replay_step api res timedOut w1 = Some w2 \<and>
    mw_store w2 = mw_store w \<and> mq_connected (mw_mqtt w2) \<and> \<not> mq_replaying (mw_mqtt w2) \<and>
    replay_step api res' timedOut' w2 = None"
  using assms by (simp add: replay_step_def ack_wait_over_def publishWithAck_end_def Let_def)

text \<open>
  A message that libmosquitto refuses (a device or tag name with one of the MQTT wildcards \<open>+\<close> and \<open>#\<close> makes such a topic) is
  put into the outbox all the same, and blocks it: as long as the message at the head is never accepted, nothing is removed,
  in any interleaving, however often the connection comes back.
\<close>

lemma replay_step_enqueued_same: "replay_step api res timedOut w = Some w' \<Longrightarrow> mw_enqueued w' = mw_enqueued w"
  by (cases "mw_replay w") (auto simp: replay_step_def Let_def split: list.splits prod.splits if_splits)

lemma forward_step_enqueued_grows:
  "forward_step api jf res now pc w = (pc', w') \<Longrightarrow> \<exists>xs. mw_enqueued w' = mw_enqueued w @ xs"
  by (cases pc) (auto simp: forward_step_def Let_def split: prod.splits if_splits)

lemma mqtt_reach_enqueued_grows: "mqtt_reach api jf w0 w \<Longrightarrow> \<exists>xs. mw_enqueued w = mw_enqueued w0 @ xs"
proof (induction rule: mqtt_reach.induct)
  case (reach_next w w')
  from reach_next.hyps(2) have "\<exists>xs. mw_enqueued w' = mw_enqueued w @ xs"
  proof (cases rule: mqtt_step.cases)
    case step_replay
    then show ?thesis using replay_step_enqueued_same by force
  next
    case (step_forward i res now pc' v)
    then show ?thesis using forward_step_enqueued_grows [OF step_forward(3)] by simp
  qed simp_all
  then show ?case using reach_next.IH by auto
qed simp

lemma confirmed_accepted: "confirmed es q \<Longrightarrow> \<exists>mid. Ev_replayed mid (c_str (pq_topic q)) (pq_payload q) (pq_retain q) \<in> set es"
  by (induction es q rule: confirmed.induct) auto

lemma refused_head_blocks:
  assumes "mqtt_start api table w0" and "mqtt_reach api jf w0 w" and "store_queue api table (mw_store w0) = q # qs"
    and "\<And>mid. Ev_replayed mid (c_str (pq_topic q)) (pq_payload q) (pq_retain q) \<notin> set (mw_events w)"
  shows "mw_removed w = [] \<and> (\<exists>xs. map pq_content (store_queue api table (mw_store w)) = map pq_content (q # qs) @ xs)"
proof -
  have inv: "mqtt_inv api table w" by (rule mqtt_inv_reach [OF assms(2) mqtt_inv_start [OF assms(1)]])
  have "mw_enqueued w0 = map pq_content (q # qs)" using assms(1,3) by (simp add: mqtt_start_def)
  then obtain xs where e: "mw_enqueued w = map pq_content (q # qs) @ xs"
    using mqtt_reach_enqueued_grows [OF assms(2)] by metis
  have eq: "mw_enqueued w = map pq_content (mw_removed w @ store_queue api table (mw_store w))"
    and c: "\<And>r. r \<in> set (mw_removed w) \<Longrightarrow> confirmed (mw_events w) r"
    using inv by (auto simp: mqtt_inv_def)
  have "mw_removed w = []"
  proof (rule ccontr)
    assume "mw_removed w \<noteq> []"
    then obtain r rs where r: "mw_removed w = r # rs" by (cases "mw_removed w") auto
    then have "pq_content r = pq_content q" using e eq by simp
    then show False using confirmed_accepted [OF c [of r]] assms(4) r by auto
  qed
  then show ?thesis using e eq by auto
qed

end
