(* ===== verification/Pipeline.thy ===== *)
theory Pipeline
  imports Mqtt_Replay
begin

section \<open>From the message bus to the broker\<close>

text \<open>
  How \<open>src/main.cpp\<close> puts the parts together: the storage service and the MQTT service subscribe to the same topic of the
  message bus, in this order, and the MQTT service buffers in the storage service. A published message runs both callbacks
  (\<open>Message_Bus\<close>), so it is written to the history (\<open>Storage_Service\<close>) and sent or put into the outbox
  (\<open>Mqtt_Service\<close>), which the replay thread empties after a connection (\<open>Mqtt_Replay\<close>).
\<close>

subsection \<open>Attaching\<close>

text \<open>The callbacks are the two lambda expressions; the default of \<open>sourceTopic\<close> is the same in both headers.\<close>

datatype pipeline_callback = Cb_storeMessage | Cb_forwardMessage

definition SourceTopic :: string where "SourceTopic = ''device.tag.updated''"

definition pipeline_run :: "'db sqlite_api \<Rightarrow> float_text \<Rightarrow> json_floats \<Rightarrow> mosq_publish \<Rightarrow> wall_time \<Rightarrow> pipeline_callback \<Rightarrow>
    message \<Rightarrow> 'db mqtt_world \<times> pipeline_callback bus \<Rightarrow> bool \<times> 'db mqtt_world \<times> pipeline_callback bus" where
  "pipeline_run api fl jf res now cb m s =
     (let (w, b) = s in
      case cb of
        Cb_storeMessage \<Rightarrow> (True, w\<lparr>mw_store := snd (storeMessage api fl m (mw_store w))\<rparr>, b)
      | Cb_forwardMessage \<Rightarrow> (True, forwardMessage api jf res now m w, b))"

definition pipeline_attach :: "'db sqlite_api \<Rightarrow> fs_results \<Rightarrow> 'db mqtt_world \<times> pipeline_callback bus \<Rightarrow>
    bool \<times> 'db mqtt_world \<times> pipeline_callback bus" where
  "pipeline_attach api fs s =
     (let (w, b) = s; (opened, store) = storage_open api fs (mw_store w) in
      if \<not> opened then (False, w\<lparr>mw_store := store\<rparr>, b)
      else (let (attached, st, b1) = attachMessageBus Cb_storeMessage SourceTopic (fst store, b);
                w1 = w\<lparr>mw_store := (st, snd store)\<rparr>
            in if \<not> attached then (False, w1, b1)
               else (let (forwarding, m, b2) =
                           mqtt_attachMessageBus Cb_forwardMessage SourceTopic (setOfflineStorage True (mw_mqtt w1), b1)
                     in (forwarding, w1\<lparr>mw_mqtt := m\<rparr>, b2))))"

definition pipeline_detach :: "'db mqtt_world \<times> pipeline_callback bus \<Rightarrow> 'db mqtt_world \<times> pipeline_callback bus" where
  "pipeline_detach s =
     (let (w, b) = s;
          (m, b1) = mqtt_detachMessageBus (mw_mqtt w, b);
          (st, b2) = detachMessageBus (fst (mw_store w), b1)
      in (w\<lparr>mw_mqtt := m, mw_store := (st, snd (mw_store w))\<rparr>, b2))"

text \<open>Who is called for a message of the pipeline's topic.\<close>

definition pipeline_attached :: "pipeline_callback bus \<Rightarrow> bool" where
  "pipeline_attached b \<longleftrightarrow> map snd (bus_subs b SourceTopic) = [Cb_storeMessage, Cb_forwardMessage]"

lemma open_flags: "storage_open api fs (st, db) = (True, st', db') \<Longrightarrow>
    st_open st' \<and> st_attached st' = st_attached st \<and> st_subscriptionId st' = st_subscriptionId st"
  by (auto simp: storage_open_def Let_def split: if_splits prod.splits)

lemma attach_detached:
  assumes "st_open st" and "\<not> st_attached st" and "bus_wf b"
  shows "attachMessageBus Cb_storeMessage SourceTopic (st, b) =
    (True, st\<lparr>st_attached := True, st_subscriptionId := bus_nextSubscriptionId b\<rparr>,
      snd (subscribe SourceTopic (Some Cb_storeMessage) b))"
  using assms bus_wfD(5) [OF assms(3)]
  by (simp add: attachMessageBus_def detachMessageBus_def SourceTopic_def subscribe_def Let_def)

lemma mqtt_attach_detached:
  assumes "\<not> mq_attached m" and "bus_wf b"
  shows "mqtt_attachMessageBus Cb_forwardMessage SourceTopic (m, b) =
    (True, m\<lparr>mq_attached := True, mq_subscriptionId := bus_nextSubscriptionId b\<rparr>,
      snd (subscribe SourceTopic (Some Cb_forwardMessage) b))"
  using assms bus_wfD(5) [OF assms(2)]
  by (simp add: mqtt_attachMessageBus_def mqtt_detachMessageBus_def SourceTopic_def subscribe_def Let_def)

text \<open>
  C22. When the storage opens, \<open>main\<close> attaches both services: a message of the topic then reaches the storage first and the
  MQTT service second, after the subscribers that were there, and the MQTT service buffers; detaching at shutdown restores
  the subscribers of every topic.
\<close>

theorem pipeline_attach_detach:
  assumes "bus_wf b" and "bus_nextSubscriptionId b \<notin> {- 1, - 2}"
    and "\<not> st_attached (fst (mw_store w))" and "\<not> mq_attached (mw_mqtt w)"
    and "fst (storage_open api fs (mw_store w))" and "pipeline_attach api fs (w, b) = (ok, w1, b1)"
    and "pipeline_detach (w1, b1) = (w2, b2)"
  shows "ok \<and> map snd (bus_subs b1 SourceTopic) = map snd (bus_subs b SourceTopic) @ [Cb_storeMessage, Cb_forwardMessage] \<and>
    mq_offlineStorage (mw_mqtt w1) \<and> bus_subs b2 = bus_subs b \<and> \<not> mq_attached (mw_mqtt w2) \<and> \<not> st_attached (fst (mw_store w2))"
proof -
  let ?t = SourceTopic
  have t: "?t \<noteq> ''''" by (simp add: SourceTopic_def)
  obtain st db where o: "storage_open api fs (mw_store w) = (True, st, db)" using assms(5) by (metis prod.collapse)
  have st: "st_open st" "\<not> st_attached st" using open_flags [of api fs "fst (mw_store w)" "snd (mw_store w)"] o assms(3) by simp_all
  let ?n = "bus_nextSubscriptionId b" and ?b1 = "snd (subscribe ?t (Some Cb_storeMessage) b)"
  let ?b2 = "snd (subscribe ?t (Some Cb_forwardMessage) ?b1)"
  have n1: "bus_nextSubscriptionId ?b1 = ?n + 1" by (simp add: subscribe_fields t)
  have "?n = - 2" if "?n + 1 = - 1" using that by (simp add: eq_diff_eq [symmetric])
  then have n: "?n \<noteq> - 1" "?n + 1 \<noteq> - 1" using assms(2) by auto
  have wf1: "bus_wf ?b1" using assms(1) n t by (intro bus_wf_subscribe)
  have wf2: "bus_wf ?b2" using n n1 t by (intro bus_wf_subscribe [OF wf1]) simp_all
  let ?m = "setOfflineStorage True (mw_mqtt w)"
  have m: "\<not> mq_attached ?m" "mq_offlineStorage ?m" using assms(4) by (simp_all add: setOfflineStorage_def Let_def)
  have att: "ok" "b1 = ?b2" "mw_mqtt w1 = ?m\<lparr>mq_attached := True, mq_subscriptionId := ?n + 1\<rparr>"
    "fst (mw_store w1) = st\<lparr>st_attached := True, st_subscriptionId := ?n\<rparr>"
    using assms(6) st m attach_detached [OF st assms(1)] mqtt_attach_detached [OF m(1) wf1]
    by (auto simp add: pipeline_attach_def o n1)
  have s2: "bus_subs b1 t = (if t = ?t then bus_subs b t @ [(?n, Cb_storeMessage), (?n + 1, Cb_forwardMessage)] else bus_subs b t)" for t
    by (simp add: att mb.sub_subs [OF t] subscribe_fields t)
  have nz: "?n \<noteq> 0" "?n + 1 \<noteq> 0" using bus_wfD(5) [OF assms(1)] bus_wfD(5) [OF wf1] n1 by auto
  have det: "b2 = snd (unsubscribe ?n (snd (unsubscribe (?n + 1) b1)))" "\<not> mq_attached (mw_mqtt w2)" "\<not> st_attached (fst (mw_store w2))"
    using assms(7) nz by (auto simp: pipeline_detach_def mqtt_detachMessageBus_def detachMessageBus_def att Let_def)
  have fr: "?n \<notin> fst ` set (bus_subs b t)" "?n + 1 \<notin> fst ` set (bus_subs b t)" for t
    using fresh_id [OF assms(1), of t] fresh_id [OF wf1, of t] n1 by (auto simp: subscribe_subs t split: if_splits)
  have "filter (\<lambda>x. fst x \<noteq> ?n + 1 \<and> fst x \<noteq> ?n) (bus_subs b t) = bus_subs b t" for t
    using fr [of t] by (auto simp: filter_id_conv image_iff)
  then have "bus_subs b2 t = bus_subs b t" for t
    using wf2 by (simp add: det unsubscribe_subs bus_wf_unsubscribe att(2) [symmetric] s2)
  then show ?thesis using att m det s2 by auto
qed

theorem pipeline_attach_detach_witness:
  "\<exists>w1 b1. pipeline_attach mem_api \<lparr>fs_parent_empty = True, fs_stat = Stat_errno 2, fs_create = None, fs_is_directory_after = False\<rparr>
       (idle_world, empty_bus) = (True, w1, b1) \<and>
     map snd (bus_subs b1 SourceTopic) = [Cb_storeMessage, Cb_forwardMessage] \<and>
     bus_subs (snd (pipeline_detach (w1, b1))) = bus_subs empty_bus"
proof -
  let ?fs = "\<lparr>fs_parent_empty = True, fs_stat = Stat_errno 2, fs_create = None, fs_is_directory_after = False\<rparr>"
  obtain ok w1 b1 where a: "pipeline_attach mem_api ?fs (idle_world, empty_bus) = (ok, w1, b1)" by (metis prod_cases3)
  obtain w2 b2 where d: "pipeline_detach (w1, b1) = (w2, b2)" by (metis surj_pair)
  have n: "bus_nextSubscriptionId (empty_bus :: pipeline_callback bus) \<notin> {- 1, - 2}" by (simp add: empty_bus_def)
  have i: "\<not> st_attached (fst (mw_store idle_world))" "\<not> mq_attached (mw_mqtt idle_world)"
    "fst (storage_open mem_api ?fs (mw_store idle_world))"
    by (simp_all add: idle_world_def demo_world_def new_mqtt_def mem_store_def new_storage_def storage_open_def)
  have e: "bus_subs empty_bus SourceTopic = []" by (simp add: bus_subs_def empty_bus_def)
  from pipeline_attach_detach [OF bus_wf_empty n i a d] show ?thesis using a d by (simp add: e)
qed

subsection \<open>Publishing while the broker is away\<close>

text \<open>Messages published one after the other, each with what libmosquitto would answer and the time of the call.\<close>

fun publish_all :: "'db sqlite_api \<Rightarrow> float_text \<Rightarrow> json_floats \<Rightarrow> (message \<times> mosq_publish \<times> wall_time) list \<Rightarrow>
    'db mqtt_world \<times> pipeline_callback bus \<Rightarrow> 'db mqtt_world \<times> pipeline_callback bus" where
  "publish_all api fl jf [] s = s"
| "publish_all api fl jf ((m, res, now) # ms) s =
     publish_all api fl jf ms (snd (publish (pipeline_run api fl jf res now) m s))"

text \<open>What goes to the broker for a message.\<close>

definition bus_content :: "json_floats \<Rightarrow> mqtt_config \<Rightarrow> message \<Rightarrow> string \<times> string \<times> bool" where
  "bus_content jf c m = (c_str (forward_topic c m), c_str (messageToJson jf m), False)"

definition publishable :: "float_text \<Rightarrow> json_floats \<Rightarrow> message \<Rightarrow> bool" where
  "publishable fl jf m \<longleftrightarrow> msg_topic m = SourceTopic \<and> msg_deviceId m \<noteq> '''' \<and> msg_tagName m \<noteq> '''' \<and>
     text_reads_back fl (msg_value m) \<and> length (messageToJson jf m) \<le> max_int"

text \<open>
  What is required of the database beyond \<open>Storage_Service\<close>: the two tables are separate, and \<open>room n\<close> says that \<open>n\<close> more
  insertions succeed.
\<close>

definition sqlite_room_ok :: "'db sqlite_api \<Rightarrow> ('db \<Rightarrow> (int \<times> sq_value list) list) \<Rightarrow> ('db \<Rightarrow> (int \<times> sq_value list) list) \<Rightarrow>
    (nat \<Rightarrow> 'db \<Rightarrow> bool) \<Rightarrow> bool" where
  "sqlite_room_ok api hist outb room \<longleftrightarrow>
     (\<forall>n db ps. room (Suc n) db \<and> length ps = 7 \<longrightarrow> sq_prepare api InsertMessageSql db \<and>
        (case sq_step api InsertMessageSql ps db of (finished, _, db') \<Rightarrow> finished \<and> room n db' \<and> outb db' = outb db)) \<and>
     (\<forall>n db ps. room (Suc n) db \<and> length ps = 4 \<longrightarrow> sq_prepare api InsertOutboxSql db \<and>
        (case sq_step api InsertOutboxSql ps db of (finished, _, db') \<Rightarrow> finished \<and> room n db' \<and> hist db' = hist db)) \<and>
     (\<forall>i db. case sq_step api DeleteOutboxSql [Sq_int i] db of (_, _, db') \<Rightarrow> hist db' = hist db)"

lemma room_insert_message:
  assumes "sqlite_room_ok api hist outb room" and "room (Suc n) db" and "length ps = 7"
    and "sq_step api InsertMessageSql ps db = (d, k, db')"
  shows "sq_prepare api InsertMessageSql db \<and> d \<and> room n db' \<and> outb db' = outb db"
proof -
  have "\<forall>n db ps. room (Suc n) db \<and> length ps = 7 \<longrightarrow> sq_prepare api InsertMessageSql db \<and>
      (case sq_step api InsertMessageSql ps db of (finished, _, db') \<Rightarrow> finished \<and> room n db' \<and> outb db' = outb db)"
    using assms(1) unfolding sqlite_room_ok_def by (elim conjE)
  then show ?thesis using assms(2-4) by (auto dest!: spec [of _ n] spec [of _ db] spec [of _ ps])
qed

lemma room_insert_outbox:
  assumes "sqlite_room_ok api hist outb room" and "room (Suc n) db" and "length ps = 4"
    and "sq_step api InsertOutboxSql ps db = (d, k, db')"
  shows "sq_prepare api InsertOutboxSql db \<and> d \<and> room n db' \<and> hist db' = hist db"
proof -
  have "\<forall>n db ps. room (Suc n) db \<and> length ps = 4 \<longrightarrow> sq_prepare api InsertOutboxSql db \<and>
      (case sq_step api InsertOutboxSql ps db of (finished, _, db') \<Rightarrow> finished \<and> room n db' \<and> hist db' = hist db)"
    using assms(1) unfolding sqlite_room_ok_def by (elim conjE)
  then show ?thesis using assms(2-4) by (auto dest!: spec [of _ n] spec [of _ db] spec [of _ ps])
qed

lemma room_delete:
  assumes "sqlite_room_ok api hist outb room" and "sq_step api DeleteOutboxSql [Sq_int i] db = (d, k, db')"
  shows "hist db' = hist db"
proof -
  have "\<forall>i db. case sq_step api DeleteOutboxSql [Sq_int i] db of (_, _, db') \<Rightarrow> hist db' = hist db"
    using assms(1) unfolding sqlite_room_ok_def by (elim conjE)
  then show ?thesis using assms(2) by (auto dest!: spec [of _ i] spec [of _ db])
qed

lemma room_storeMessage:
  assumes "sqlite_room_ok api hist outb room" and "room (Suc n) (snd s)" and "st_open (fst s)"
  shows "\<exists>db'. storeMessage api fl m s = (True, fst s, db') \<and> room n db' \<and> outb db' = outb (snd s)"
proof -
  obtain st db where s: "s = (st, db)" by fastforce
  let ?ps = "[bind_text (msg_topic m), bind_text (msg_deviceId m), bind_text (msg_tagName m),
      Sq_int (int (value_index (msg_value m))), bind_text (value_text fl (msg_value m)),
      Sq_int (int (quality_index (msg_quality m))), Sq_int (timestampToMilliseconds (msg_timestamp m))]"
  obtain d k db' where st: "sq_step api InsertMessageSql ?ps db = (d, k, db')" by (metis prod_cases3)
  have "sq_prepare api InsertMessageSql db \<and> d \<and> room n db' \<and> outb db' = outb db"
    using room_insert_message [OF assms(1) _ _ st] assms(2) by (simp add: s)
  then show ?thesis using assms(3) st by (simp add: storeMessage_def s serializeTagValue_def)
qed

lemma room_enqueue:
  assumes "sqlite_room_ok api hist outb room" and "room (Suc n) (snd s)" and "st_open (fst s)" and "t \<noteq> ''''"
  shows "\<exists>db'. enqueueMqttMessage api now t p r s = (True, fst s, db') \<and> room n db' \<and> hist db' = hist (snd s)"
proof -
  obtain st db where s: "s = (st, db)" by fastforce
  let ?ps = "[bind_text t, bind_text p, Sq_int (if r then 1 else 0), Sq_int (timestampToMilliseconds now)]"
  obtain d k db' where st: "sq_step api InsertOutboxSql ?ps db = (d, k, db')" by (metis prod_cases3)
  have "sq_prepare api InsertOutboxSql db \<and> d \<and> room n db' \<and> hist db' = hist db"
    using room_insert_outbox [OF assms(1) _ _ st] assms(2) by (simp add: s)
  then show ?thesis using assms(3,4) st by (simp add: enqueueMqttMessage_def s)
qed

lemma publish_attached:
  assumes "pipeline_attached b" and "msg_topic m = SourceTopic"
  shows "publish (pipeline_run api fl jf res now) m (w, b) =
    (2, forwardMessage api jf res now m (w\<lparr>mw_store := snd (storeMessage api fl m (mw_store w))\<rparr>), b)"
proof -
  obtain i j where s: "bus_subs b SourceTopic = [(i, Cb_storeMessage), (j, Cb_forwardMessage)]"
    using assms(1) by (auto simp: pipeline_attached_def)
  then have "um_find (bus_subscribers b) SourceTopic = Some [(i, Cb_storeMessage), (j, Cb_forwardMessage)]"
    using bus_subs_Some [of b SourceTopic] by simp
  moreover have "SourceTopic \<noteq> ''''" by (simp add: SourceTopic_def)
  ultimately show ?thesis using assms(2) by (simp add: publish_def pipeline_run_def)
qed

lemma forward_offline:
  assumes "\<not> mq_connected (mw_mqtt w)" and "mq_offlineStorage (mw_mqtt w)" and "msg_deviceId m \<noteq> ''''" and "msg_tagName m \<noteq> ''''"
    and "enqueueMqttMessage api now (forward_topic (mq_config (mw_mqtt w)) m) (messageToJson jf m) False (mw_store w) = (True, s')"
  shows "forwardMessage api jf res now m w = w\<lparr>mw_store := s',
    mw_enqueued := mw_enqueued w @ [bus_content jf (mq_config (mw_mqtt w)) m]\<rparr>"
  using assms by (simp add: forwardMessage_def forward_step_def bus_content_def Let_def)

text \<open>What publishing messages changes while the broker is away.\<close>

definition buffered :: "'db sqlite_api \<Rightarrow> float_text \<Rightarrow> json_floats \<Rightarrow> ('db \<Rightarrow> (int \<times> sq_value list) list) \<Rightarrow>
    ('db \<Rightarrow> (int \<times> sq_value list) list) \<Rightarrow> message list \<Rightarrow> 'db mqtt_world \<Rightarrow> 'db mqtt_world \<Rightarrow> bool" where
  "buffered api fl jf hist outb ms w w' \<longleftrightarrow>
     mw_mqtt w' = mw_mqtt w \<and> mw_replay w' = mw_replay w \<and> mw_forwards w' = mw_forwards w \<and> mw_closing w' = mw_closing w \<and>
     mw_live w' = mw_live w \<and> mw_events w' = mw_events w \<and> mw_removed w' = mw_removed w \<and> store_inv api outb (mw_store w') \<and>
     map pq_content (store_queue api outb (mw_store w')) =
       map pq_content (store_queue api outb (mw_store w)) @ map (bus_content jf (mq_config (mw_mqtt w))) ms \<and>
     map snd (history api fl hist (mw_store w')) = map snd (history api fl hist (mw_store w)) @ map stored_form ms"

lemma buffered_trans:
  "buffered api fl jf hist outb ms w w' \<Longrightarrow> buffered api fl jf hist outb ns w' w'' \<Longrightarrow>
     buffered api fl jf hist outb (ms @ ns) w w''"
  by (simp add: buffered_def)

lemma publish_offline:
  assumes "pipeline_attached b" and "\<not> mq_connected (mw_mqtt w)" and "mq_offlineStorage (mw_mqtt w)"
    and "publishable fl jf m" and "store_inv api outb (mw_store w)" and "sqlite_history_ok api hist"
    and "sqlite_room_ok api hist outb room" and "room (Suc (Suc n)) (snd (mw_store w))"
  shows "\<exists>w'. publish (pipeline_run api fl jf res now) m (w, b) = (2, w', b) \<and> room n (snd (mw_store w')) \<and>
    buffered api fl jf hist outb [m] w w'"
proof -
  have m: "msg_topic m = SourceTopic" "msg_deviceId m \<noteq> ''''" "msg_tagName m \<noteq> ''''" "text_reads_back fl (msg_value m)"
    using assms(4) by (simp_all add: publishable_def)
  have op: "st_open (fst (mw_store w))" using assms(5) by (simp add: store_inv_def)
  obtain db1 where s1: "storeMessage api fl m (mw_store w) = (True, fst (mw_store w), db1)" "room (Suc n) db1"
    "outb db1 = outb (snd (mw_store w))"
    using room_storeMessage [OF assms(7,8) op] by blast
  let ?s1 = "(fst (mw_store w), db1)" and ?t = "forward_topic (mq_config (mw_mqtt w)) m"
  have i1: "store_inv api outb ?s1" "store_queue api outb ?s1 = store_queue api outb (mw_store w)"
    using assms(5) s1(3) by (simp_all add: store_inv_def store_queue_def)
  have t: "?t \<noteq> ''''" by (simp add: forward_topic_def)
  obtain db2 where s2: "enqueueMqttMessage api now ?t (messageToJson jf m) False ?s1 = (True, fst (mw_store w), db2)" "room n db2"
    "hist db2 = hist db1"
    using room_enqueue [OF assms(7), of n ?s1 ?t now "messageToJson jf m" False] s1(2) op t by auto
  let ?s2 = "(fst (mw_store w), db2)"
  obtain q where q: "store_inv api outb ?s2" "store_queue api outb ?s2 = store_queue api outb ?s1 @ [q]"
    "pq_content q = bus_content jf (mq_config (mw_mqtt w)) m"
    using enqueue_spec [OF i1(1) s2(1)] by (auto simp: bus_content_def)
  obtain i where h: "history api fl hist ?s1 = history api fl hist (mw_store w) @ [(i, stored_form m)]"
    using storeMessage_history [OF assms(6) m(4) s1(1)] by auto
  have h2: "history api fl hist ?s2 = history api fl hist ?s1" by (simp add: history_def s2(3))
  let ?w1 = "w\<lparr>mw_store := ?s1\<rparr>"
  have "forwardMessage api jf res now m ?w1 = ?w1\<lparr>mw_store := ?s2,
      mw_enqueued := mw_enqueued ?w1 @ [bus_content jf (mq_config (mw_mqtt ?w1)) m]\<rparr>"
    using assms(2,3) m s2(1) by (intro forward_offline) simp_all
  then show ?thesis using publish_attached [OF assms(1) m(1), of api fl jf res now w] s1 s2 q h h2 i1 by (simp add: buffered_def)
qed

lemma publish_all_offline:
  assumes "pipeline_attached b" and "sqlite_history_ok api hist" and "sqlite_room_ok api hist outb room"
    and "\<not> mq_connected (mw_mqtt w)" and "mq_offlineStorage (mw_mqtt w)" and "list_all (\<lambda>m. publishable fl jf (fst m)) ms"
    and "store_inv api outb (mw_store w)" and "room (2 * length ms) (snd (mw_store w))"
  shows "\<exists>w'. publish_all api fl jf ms (w, b) = (w', b) \<and> buffered api fl jf hist outb (map fst ms) w w'"
  using assms(4-8)
proof (induction ms arbitrary: w)
  case Nil
  then show ?case by (simp add: buffered_def)
next
  case (Cons x ms)
  obtain m res now where x: "x = (m, res, now)" by (metis prod_cases3)
  have r: "room (Suc (Suc (2 * length ms))) (snd (mw_store w))" using Cons.prems(5) by simp
  obtain w1 where w1: "publish (pipeline_run api fl jf res now) m (w, b) = (2, w1, b)" "room (2 * length ms) (snd (mw_store w1))"
    "buffered api fl jf hist outb [m] w w1"
    using publish_offline [OF assms(1) Cons.prems(1,2) _ Cons.prems(4) assms(2,3) r, of fl jf m res now] Cons.prems(3)
    by (auto simp: x)
  have e: "store_inv api outb (mw_store w1)" "mw_mqtt w1 = mw_mqtt w" using w1(3) by (auto simp: buffered_def)
  then obtain w' where "publish_all api fl jf ms (w1, b) = (w', b)" "buffered api fl jf hist outb (map fst ms) w1 w'"
    using Cons.IH [of w1] Cons.prems e w1(2) by auto
  then show ?case using w1 buffered_trans [OF w1(3), of "map fst ms" w'] by (simp add: x)
qed

subsection \<open>End to end\<close>

text \<open>The client exists and its network thread tries to connect; no replay is under way.\<close>

definition broker_away :: "nat \<Rightarrow> 'db mqtt_world \<Rightarrow> bool" where
  "broker_away c w \<longleftrightarrow> mw_replay w = Rp_wait \<and>
     (let m = mw_mqtt w in \<not> mq_connected m \<and> \<not> mq_stopping m \<and> \<not> mq_replaying m \<and> mq_offlineStorage m \<and> mq_client m = Some c)"

lemma accepted_due:
  "broker_away c w \<Longrightarrow> replay_due c (w\<lparr>mw_mqtt := handleConnect c 0 (mw_mqtt w)\<rparr>)"
  by (simp add: broker_away_def replay_due_def handleConnect_def Let_def)

fun content_sendable :: "string \<times> string \<times> bool \<Rightarrow> bool" where
  "content_sendable (t, p, r) \<longleftrightarrow> t \<noteq> [] \<and> length p \<le> max_int"

lemma sendable_content: "list_all sendable qs = list_all content_sendable (map pq_content qs)"
  by (induction qs) (simp_all add: sendable_def)

lemma bus_content_sendable:
  assumes "CHR 0x00 \<notin> set (qc_topicPrefix c)" and "publishable fl jf m"
  shows "content_sendable (bus_content jf c m)"
proof -
  have "c_str (forward_topic c m) \<noteq> []" using assms(1)
    by (cases "qc_topicPrefix c") (auto simp: forward_topic_def c_str_def)
  moreover have "length (c_str s) \<le> length s" for s by (simp add: c_str_def length_takeWhile_le)
  ultimately show ?thesis using assms(2) order_trans by (auto simp: bus_content_def publishable_def)
qed

lemma remove_keeps_history:
  assumes "sqlite_room_ok api hist outb room" and "removePendingMqttMessage api i s = (ok, s')"
  shows "hist (snd s') = hist (snd s)"
  using assms room_delete [OF assms(1), of i "snd s"]
  by (auto simp: removePendingMqttMessage_def Let_def split: if_splits prod.splits)

lemma replay_step_keeps:
  assumes "sqlite_room_ok api hist outb room" and "replay_step api res timedOut w = Some w'"
  shows "hist (snd (mw_store w')) = hist (snd (mw_store w)) \<and> mw_live w' = mw_live w"
proof (cases "mw_replay w")
  case (Rp_remove q)
  then show ?thesis using assms(2) remove_keeps_history [OF assms(1), of "pq_id q" "mw_store w"]
    by (auto simp: replay_step_def Let_def split: prod.splits if_splits)
qed (use assms(2) in \<open>auto simp: replay_step_def Let_def split: if_splits list.splits prod.splits\<close>)

lemma replay_run_keeps:
  "replay_run api c k w w' \<Longrightarrow> sqlite_room_ok api hist outb room \<Longrightarrow>
     hist (snd (mw_store w')) = hist (snd (mw_store w)) \<and> mw_live w' = mw_live w"
  by (induction rule: replay_run.induct) (auto dest: replay_step_keeps)

text \<open>
  C5. End to end: messages that are published while the broker cannot be reached are all written to the history, and once
  the connection is accepted the replay thread hands them to the broker, after what the outbox held before, in the order they
  were published, each once, with the topic and the JSON payload of the message; none of them is also sent directly. The
  outbox is empty afterwards.
\<close>

theorem offline_messages_reach_broker:
  assumes "sqlite_history_ok api hist" and "store_inv api outb (mw_store w)" and "outbox_responsive api"
    and "sqlite_room_ok api hist outb room" and "room (2 * length ms) (snd (mw_store w))"
    and "pipeline_attached b" and "broker_away c w"
    and "CHR 0x00 \<notin> set (qc_topicPrefix (mq_config (mw_mqtt w)))"
    and "list_all sendable (store_queue api outb (mw_store w))" and "list_all (\<lambda>m. publishable fl jf (fst m)) ms"
    and "publish_all api fl jf ms (w, b) = (w1, b1)"
    and "replay_run api c (5 * (length (store_queue api outb (mw_store w)) + length ms) + 4)
      (w1\<lparr>mw_mqtt := handleConnect c 0 (mw_mqtt w1)\<rparr>) w2"
  shows "replayed (mw_events w2) = replayed (mw_events w) @ map pq_content (store_queue api outb (mw_store w)) @
      map (bus_content jf (mq_config (mw_mqtt w)) \<circ> fst) ms \<and>
    map snd (history api fl hist (mw_store w2)) = map snd (history api fl hist (mw_store w)) @ map (stored_form \<circ> fst) ms \<and>
    store_queue api outb (mw_store w2) = [] \<and> mw_live w2 = mw_live w"
proof -
  have off: "\<not> mq_connected (mw_mqtt w)" "mq_offlineStorage (mw_mqtt w)" using assms(7) by (simp_all add: broker_away_def Let_def)
  have w1: "buffered api fl jf hist outb (map fst ms) w w1"
    using publish_all_offline [OF assms(6,1,4) off assms(10,2,5)] assms(11) by simp
  let ?q = "store_queue api outb (mw_store w)" and ?q1 = "store_queue api outb (mw_store w1)"
  let ?c = "mq_config (mw_mqtt w)" and ?w = "w1\<lparr>mw_mqtt := handleConnect c 0 (mw_mqtt w1)\<rparr>"
  have q1: "map pq_content ?q1 = map pq_content ?q @ map (bus_content jf ?c) (map fst ms)" using w1 by (simp add: buffered_def)
  have len: "length ?q1 = length ?q + length ms" using arg_cong [OF q1, of length] by simp
  have send: "list_all sendable ?q1"
    using assms(9,10) bus_content_sendable [OF assms(8)] unfolding sendable_content q1 by (auto simp: list_all_iff)
  have "broker_away c w1" using assms(7) w1 by (simp add: broker_away_def buffered_def)
  then have due: "replay_due c ?w" by (rule accepted_due)
  have inv: "store_inv api outb (mw_store ?w)" using w1 by (simp add: buffered_def)
  have run: "replay_run api c (5 * length (store_queue api outb (mw_store ?w)) + 4) ?w w2" using assms(12) by (simp add: len)
  have "list_all sendable (store_queue api outb (mw_store ?w))" using send by simp
  from replay_drained [OF inv this assms(3) due run refl] replay_run_keeps [OF run assms(4)] show ?thesis
    using w1 q1 by (simp add: buffered_def history_def)
qed

text \<open>Two messages, one client, the database in memory.\<close>

definition mem_room :: "nat \<Rightarrow> mem_db \<Rightarrow> bool" where
  "mem_room n db \<longleftrightarrow> next_id (fst db) + int n < 2 ^ 63 \<and> next_id (snd db) + int n < 2 ^ 63"

lemma next_id_snoc: "next_id (rows @ [(next_id rows, ps)]) = next_id rows + 1"
proof -
  have f: "foldr (\<lambda>r. max (fst r)) rows k = max k (foldr (\<lambda>r. max (fst r)) rows 0)" if "0 \<le> k" for k :: int
    using that by (induction rows) auto
  have "0 \<le> next_id rows" using next_id_greater [of rows] by simp
  then show ?thesis using f [of "next_id rows"] unfolding next_id_def [of "rows @ _"] by (simp add: max_def) (simp add: next_id_def)
qed

lemma mem_room_ok: "sqlite_room_ok mem_api fst snd mem_room"
  by (auto simp: sqlite_room_ok_def mem_room_def mem_api_def sql_texts_differ next_id_snoc split: list.splits sq_value.splits)

definition away_world :: "mem_db mqtt_world" where
  "away_world = idle_world\<lparr>mw_mqtt := snd (mqtt_connect demo_lib (setOfflineStorage True (new_mqtt demo_mqtt_config))),
     mw_replay := Rp_wait\<rparr>"

definition demo_bus :: "pipeline_callback bus" where
  "demo_bus = snd (subscribe SourceTopic (Some Cb_forwardMessage) (snd (subscribe SourceTopic (Some Cb_storeMessage) empty_bus)))"

definition demo_update :: "bool \<Rightarrow> message" where
  "demo_update v = default_message\<lparr>msg_topic := SourceTopic, msg_deviceId := ''d'', msg_tagName := ''t'', msg_value := Val_Bool v\<rparr>"

lemma demo_update_publishable: "publishable demo_fl demo_jf (demo_update v)"
proof -
  have "length (messageToJson demo_jf (demo_update True)) \<le> 200" "length (messageToJson demo_jf (demo_update False)) \<le> 200"
    by code_simp+
  then have "length (messageToJson demo_jf (demo_update v)) \<le> max_int" by (cases v) (simp_all add: max_int_def)
  then show ?thesis by (simp add: publishable_def demo_update_def)
qed

lemma away_world_state: "broker_away 7 away_world" "mq_config (mw_mqtt away_world) = demo_mqtt_config"
  by code_simp+

lemma demo_bus_attached: "pipeline_attached demo_bus"
  by (simp add: pipeline_attached_def demo_bus_def subscribe_subs SourceTopic_def)
    (simp add: bus_subs_def empty_bus_def)

theorem offline_messages_reach_broker_witness:
  "\<exists>w1 w2. publish_all mem_api demo_fl demo_jf [(demo_update True, Mosq_failed, 0), (demo_update False, Mosq_failed, 0)]
       (away_world, demo_bus) = (w1, demo_bus) \<and>
     replay_run mem_api 7 14 (w1\<lparr>mw_mqtt := handleConnect 7 0 (mw_mqtt w1)\<rparr>) w2 \<and>
     replayed (mw_events w2) = map (bus_content demo_jf demo_mqtt_config) [demo_update True, demo_update False] \<and>
     store_queue mem_api snd (mw_store w2) = []"
proof -
  let ?ms = "[(demo_update True, Mosq_failed, 0 :: wall_time), (demo_update False, Mosq_failed, 0)]"
  have s: "mw_store away_world = mem_store" "mw_events away_world = []"
    by (simp_all add: away_world_def idle_world_def demo_world_def)
  then have i: "store_inv mem_api snd (mw_store away_world)" using mem_store_inv by simp
  have q: "store_queue mem_api snd (mw_store away_world) = []" by (simp add: s store_queue_def mem_store_def)
  have room: "mem_room (2 * length ?ms) (snd (mw_store away_world))"
    by (simp add: s mem_store_def mem_room_def next_id_def)
  have off: "\<not> mq_connected (mw_mqtt away_world)" "mq_offlineStorage (mw_mqtt away_world)"
    using away_world_state(1) by (simp_all add: broker_away_def Let_def)
  have pub: "list_all (\<lambda>m. publishable demo_fl demo_jf (fst m)) ?ms" by (simp add: demo_update_publishable)
  obtain w1 where w1: "publish_all mem_api demo_fl demo_jf ?ms (away_world, demo_bus) = (w1, demo_bus)"
    "buffered mem_api demo_fl demo_jf fst snd (map fst ?ms) away_world w1"
    using publish_all_offline [OF demo_bus_attached mem_api_ok(1) mem_room_ok off pub i room] by blast
  let ?w = "w1\<lparr>mw_mqtt := handleConnect 7 0 (mw_mqtt w1)\<rparr>"
  have "broker_away 7 w1" using away_world_state(1) w1(2) by (simp add: broker_away_def buffered_def)
  then have due: "replay_due 7 ?w" by (rule accepted_due)
  have q1: "map pq_content (store_queue mem_api snd (mw_store w1)) = map (bus_content demo_jf demo_mqtt_config) (map fst ?ms)"
    using w1(2) q by (simp add: buffered_def away_world_state)
  have c: "CHR 0x00 \<notin> set (qc_topicPrefix demo_mqtt_config)" by (simp add: demo_mqtt_config_def)
  have send: "list_all sendable (store_queue mem_api snd (mw_store ?w))"
    using bus_content_sendable [OF c demo_update_publishable] unfolding sendable_content by (simp add: q1)
  have inv: "store_inv mem_api snd (mw_store ?w)" using w1(2) by (simp add: buffered_def)
  have "length (store_queue mem_api snd (mw_store w1)) = 2" using arg_cong [OF q1, of length] by simp
  then have "replay_left mem_api snd ?w = 14" using due by (simp add: replay_left_def replay_due_def Let_def)
  then obtain w2 where w2: "replay_run mem_api 7 14 ?w w2"
    using replay_run_completes [OF run_init replay_due_healthy [OF inv send due] mem_api_responsive] by auto
  then have "replay_run mem_api 7 (5 * (length (store_queue mem_api snd (mw_store away_world)) + length ?ms) + 4) ?w w2"
    by (simp add: q)
  from offline_messages_reach_broker [OF mem_api_ok(1) i mem_api_responsive mem_room_ok room demo_bus_attached
      away_world_state(1) _ _ pub w1(1) this]
  have "replayed (mw_events w2) = map (bus_content demo_jf demo_mqtt_config \<circ> fst) ?ms \<and> store_queue mem_api snd (mw_store w2) = []"
    unfolding away_world_state(2) q s(2) by (simp add: c)
  then show ?thesis using w1(1) w2 by auto
qed

end
