(* ===== verification/Remote_Messages.thy ===== *)
theory Remote_Messages
  imports Pipeline Ipc_Bridge
begin

section \<open>A message from another process\<close>

text \<open>
  The way of a message across the process boundary: \<open>SharedMemoryMessageBridge::send\<close> in one process writes to the shared
  slot and to the eventfd; in the other process the eventfd becomes readable, the event loop (\<open>Event_Loop\<close>) runs the read
  callback of the notifier's channel, \<open>EventFdNotifier::handleRead\<close> calls the callback that the bridge has set, and
  \<open>handleNotification\<close> publishes the message on the bus, whose subscribers are the storage and the MQTT service
  (\<open>Pipeline\<close>).
\<close>

subsection \<open>The notifier on the event loop\<close>

datatype notifier_cb = Nc_handleRead | Nc_error

text \<open>
  What the callbacks of the channel do. The world holds the notifier, the bridge and the world of the bus; \<open>reads\<close> are the
  results of reading the eventfd, which \<open>handleRead\<close> repeats while it gets \<open>EINTR\<close>.
\<close>

definition bridge_callback :: "('cb \<Rightarrow> message \<Rightarrow> 'w \<times> 'cb bus \<Rightarrow> bool \<times> 'w \<times> 'cb bus) \<Rightarrow> shm_state \<Rightarrow>
    notification_callback \<Rightarrow> u64 \<Rightarrow> bridge \<times> 'w \<times> 'cb bus \<Rightarrow> bridge \<times> 'w \<times> 'cb bus" where
  "bridge_callback run buffer callback count s =
     (case callback of Bridge_handleNotification \<Rightarrow> handleNotification run buffer count s | Other_callback _ \<Rightarrow> s)"

definition notifier_event :: "('cb \<Rightarrow> message \<Rightarrow> 'w \<times> 'cb bus \<Rightarrow> bool \<times> 'w \<times> 'cb bus) \<Rightarrow> shm_state \<Rightarrow> u64 sys_result list \<Rightarrow>
    notifier_cb \<Rightarrow> notifier_cb event_loop \<times> notification_callback notifier \<times> bridge \<times> 'w \<times> 'cb bus \<Rightarrow>
    notifier_cb event_loop \<times> notification_callback notifier \<times> bridge \<times> 'w \<times> 'cb bus" where
  "notifier_event run buffer reads cb lw =
     (let (l, n, s) = lw in
      case cb of
        Nc_error \<Rightarrow> (l, n, s)
      | Nc_handleRead \<Rightarrow> (l, n, case handleRead (bridge_callback run buffer) reads n s of None \<Rightarrow> s | Some s' \<Rightarrow> s'))"

text \<open>What the constructor sets up, and that the destructor takes it down again.\<close>

lemma new_notifier_registers:
  assumes "new_notifier onRead onError fd permitted (Some l) = (Inr n, Some l', closed)" and "loop_inv l"
  shows "nt_eventFd n = fd \<and> 0 \<le> fd \<and> nt_callback n = None \<and> closed = [] \<and> loop_inv l' \<and>
    um_find (el_channels l') fd = Some (notifier_channel onRead onError fd)"
proof -
  have c: "ch_fd (notifier_channel onRead onError fd) = fd"
    by (simp add: notifier_channel_def setErrorCallback_def setReadCallback_def setEvents_def new_channel_def)
  have "addChannel permitted (notifier_channel onRead onError fd) l = (True, l')" "0 \<le> fd" "n = \<lparr>nt_eventFd = fd, nt_callback = None\<rparr>"
    "closed = []"
    using assms(1) by (auto simp: new_notifier_def Let_def split: if_splits prod.splits)
  then show ?thesis using loop_inv_addChannel [OF assms(2), of permitted "notifier_channel onRead onError fd" True l'] c by simp
qed

lemma notifier_round_trip:
  assumes "new_notifier onRead onError fd True (Some l) = (Inr n, Some l', closed)" and "loop_inv l"
    and "destroy_notifier True n l' = (n', l'', closed')"
  shows "closed' = [fd] \<and> um_find (el_interest l'') x = um_find (el_interest l) x"
proof -
  have a: "addChannel True (notifier_channel onRead onError fd) l = (True, l')" "0 \<le> fd" "nt_eventFd n = fd"
    using assms(1) by (auto simp: new_notifier_def Let_def split: if_splits prod.splits)
  have c: "ch_fd (notifier_channel onRead onError fd) = fd" "ch_fd (new_channel fd) = fd"
    by (simp_all add: notifier_channel_def setErrorCallback_def setReadCallback_def setEvents_def new_channel_def)
  obtain ok l1 where r: "removeChannel True (new_channel fd) l' = (ok, l1)" by fastforce
  have "l'' = close_fd fd l1" "closed' = [fd]" using assms(3) a r by (simp_all add: destroy_notifier_def)
  then show ?thesis
    using addChannel_find [OF a(1), of x] addChannel_find [OF a(1), of fd] removeChannel_find [OF r, of x] c
    by (auto simp: close_fd_find)
qed

text \<open>One turn of the loop in which the eventfd is readable.\<close>

lemma notifier_turn:
  assumes "um_find (el_channels l) fd = Some (notifier_channel Nc_handleRead Nc_error fd)"
    and "bridge_start (snd buffer) (n0, br0) = (True, n, br)" and "\<not> br_running br0"
    and "retry_eintr reads = Some (Sys_ok count, rest)"
  shows "\<exists>l'. dispatch (notifier_event run buffer reads) [(fd, EPOLLIN)] (l, n, br, wb) =
    (l', n, handleNotification run buffer count (br, wb)) \<and> el_interest l' = el_interest l"
proof -
  have n: "nt_callback n = Some Bridge_handleNotification"
    using assms(2,3) by (auto simp: bridge_start_def setCallback_def split: if_splits)
  have h: "handleEvent (setRevents EPOLLIN (notifier_channel Nc_handleRead Nc_error fd)) = Some Nc_handleRead"
    by (simp add: handleEvent_def setRevents_def notifier_channel_def setErrorCallback_def setReadCallback_def setEvents_def
        new_channel_def EPOLLIN_def EPOLLERR_def EPOLLHUP_def EPOLLRDHUP_def)
  show ?thesis using assms(1,4) h n
    by (simp add: notifier_event_def handleRead_def bridge_callback_def Let_def)
qed

subsection \<open>End to end\<close>

text \<open>What the two subscribers make of a published message, whatever the state of the connection.\<close>

lemma publish_stored:
  assumes "pipeline_attached b" and "publishable fl jf m" and "mq_offlineStorage (mw_mqtt w)"
    and "store_inv api outb (mw_store w)" and "sqlite_history_ok api hist" and "sqlite_room_ok api hist outb room"
    and "room 2 (snd (mw_store w))"
  shows "\<exists>w'. publish (pipeline_run api fl jf res now) m (w, b) = (2, w', b) \<and>
    map snd (history api fl hist (mw_store w')) = map snd (history api fl hist (mw_store w)) @ [stored_form m] \<and>
    (if forward_live jf res m (mw_mqtt w)
     then mw_live w' = mw_live w @ [(c_str (forward_topic (mq_config (mw_mqtt w)) m), messageToJson jf m, False)] \<and>
       store_queue api outb (mw_store w') = store_queue api outb (mw_store w)
     else mw_live w' = mw_live w \<and> map pq_content (store_queue api outb (mw_store w')) =
       map pq_content (store_queue api outb (mw_store w)) @ [bus_content jf (mq_config (mw_mqtt w)) m])"
proof -
  have m: "msg_topic m = SourceTopic" "msg_deviceId m \<noteq> ''''" "msg_tagName m \<noteq> ''''" "text_reads_back fl (msg_value m)"
    using assms(2) by (simp_all add: publishable_def)
  have op: "st_open (fst (mw_store w))" using assms(4) by (simp add: store_inv_def)
  have room: "room (Suc (Suc 0)) (snd (mw_store w))" using assms(7) by (simp add: numeral_2_eq_2)
  obtain db1 where s1: "storeMessage api fl m (mw_store w) = (True, fst (mw_store w), db1)" "room (Suc 0) db1"
    "outb db1 = outb (snd (mw_store w))"
    using room_storeMessage [OF assms(6) room op] by blast
  let ?s1 = "(fst (mw_store w), db1)" and ?t = "forward_topic (mq_config (mw_mqtt w)) m"
  have i1: "store_inv api outb ?s1" "store_queue api outb ?s1 = store_queue api outb (mw_store w)"
    using assms(4) s1(3) by (simp_all add: store_inv_def store_queue_def)
  have "?t \<noteq> ''''" by (simp add: forward_topic_def)
  then obtain db2 where s2: "enqueueMqttMessage api now ?t (messageToJson jf m) False ?s1 = (True, fst (mw_store w), db2)"
    "hist db2 = hist db1"
    using room_enqueue [OF assms(6), of 0 ?s1 ?t now "messageToJson jf m" False] s1(2) op by auto
  let ?s2 = "(fst (mw_store w), db2)" and ?w1 = "w\<lparr>mw_store := ?s1\<rparr>"
  have q: "map pq_content (store_queue api outb ?s2) =
      map pq_content (store_queue api outb ?s1) @ [bus_content jf (mq_config (mw_mqtt w)) m]"
    using enqueue_spec [OF i1(1) s2(1)] by (auto simp: bus_content_def)
  have h: "map snd (history api fl hist ?s1) = map snd (history api fl hist (mw_store w)) @ [stored_form m]"
    using storeMessage_history [OF assms(5) m(4) s1(1)] by auto
  have h2: "history api fl hist ?s2 = history api fl hist ?s1" by (simp add: history_def s2(2))
  have "publish (pipeline_run api fl jf res now) m (w, b) = (2, forwardMessage api jf res now m ?w1, b)"
    by (simp add: publish_attached [OF assms(1) m(1)] s1(1))
  moreover note forward_delivers_or_buffers [OF m(2,3) refl refl refl, of jf res ?w1 api now]
  ultimately show ?thesis using assms(3) s2(1) q h h2 i1 by (auto split: if_splits)
qed

text \<open>
  C8. End to end across processes: a message that \<open>send\<close> has accepted in one process is, once the event loop of the other
  process reports its eventfd readable, published on its bus and written to the history; it is handed to libmosquitto at
  once when the broker is connected, no replay runs and the library takes it, and otherwise put at the end of the outbox,
  with the topic and the payload of the message, never both; the bridge counts it once.
\<close>

theorem remote_message_stored:
  assumes "new_notifier Nc_handleRead Nc_error fd permitted (Some l0) = (Inr n0, Some l, closed)" and "loop_inv l0"
    and "bridge_start b (n0, br0) = (True, n, br)" and "\<not> br_running br0"
    and "shm_shared w a b" and "send os rs m sender (w, a) = Some (True, w', a')"
    and "retry_eintr reads = Some (Sys_ok count, rest)" and "count \<noteq> 0"
    and "pipeline_attached bus" and "publishable fl jf m" and "mq_offlineStorage (mw_mqtt v)"
    and "store_inv api outb (mw_store v)" and "sqlite_history_ok api hist" and "sqlite_room_ok api hist outb room"
    and "room 2 (snd (mw_store v))"
  shows "\<exists>l' v'. dispatch (notifier_event (pipeline_run api fl jf res now) (w', b) reads) [(fd, EPOLLIN)] (l, n, br, v, bus) =
      (l', n, br\<lparr>br_forwardedMessageCount := br_forwardedMessageCount br + 1\<rparr>, v', bus) \<and>
    map snd (history api fl hist (mw_store v')) = map snd (history api fl hist (mw_store v)) @ [stored_form m] \<and>
    (if forward_live jf res m (mw_mqtt v)
     then mw_live v' = mw_live v @ [(c_str (forward_topic (mq_config (mw_mqtt v)) m), messageToJson jf m, False)] \<and>
       store_queue api outb (mw_store v') = store_queue api outb (mw_store v)
     else mw_live v' = mw_live v \<and> map pq_content (store_queue api outb (mw_store v')) =
       map pq_content (store_queue api outb (mw_store v)) @ [bus_content jf (mq_config (mw_mqtt v)) m])"
    (is "\<exists>l' v'. _ \<and> ?history v' \<and> ?delivered v'")
proof -
  obtain bs where bs: "shm_read (w', b) = Some bs" "decode bs default_message = (True, m)" using send_read [OF assms(5,6)] by blast
  have reg: "um_find (el_channels l) fd = Some (notifier_channel Nc_handleRead Nc_error fd)"
    using new_notifier_registers [OF assms(1,2)] by blast
  obtain l' where d: "dispatch (notifier_event (pipeline_run api fl jf res now) (w', b) reads) [(fd, EPOLLIN)] (l, n, br, v, bus) =
      (l', n, handleNotification (pipeline_run api fl jf res now) (w', b) count (br, v, bus))"
    using notifier_turn [OF reg _ assms(4,7), where buffer = "(w', b)" and n = n and run = "pipeline_run api fl jf res now"
        and wb = "(v, bus)"] assms(3) unfolding snd_conv by blast
  have h: "handleNotification (pipeline_run api fl jf res now) (w', b) count (br, v, bus) =
      (br\<lparr>br_forwardedMessageCount := br_forwardedMessageCount br + 1\<rparr>, v', bus)"
    if "publish (pipeline_run api fl jf res now) m (v, bus) = (2, v', bus)" for v'
    using that by (simp add: handleNotification_read [OF bs assms(8)])
  obtain v' where v': "publish (pipeline_run api fl jf res now) m (v, bus) = (2, v', bus)"
    and s: "?history v' \<and> ?delivered v'"
    using publish_stored [OF assms(9-15), of res now] by blast
  show ?thesis unfolding d h [OF v'] using s by (intro exI [of _ l'] exI [of _ v'] conjI refl) (elim conjE, assumption)+
qed

theorem remote_message_stored_witness:
  "\<exists>n0 l n br w' a' l' v'.
     new_notifier Nc_handleRead Nc_error 9 True (Some new_event_loop) = (Inr n0, Some l, []) \<and>
     bridge_start (demo_buffer 64) (n0, new_bridge) = (True, n, br) \<and>
     send demo_os [Sys_ok ()] (demo_update True) n (Shared_Memory.demo_world 64, demo_buffer 64) = Some (True, w', a') \<and>
     dispatch (notifier_event (pipeline_run mem_api demo_fl demo_jf Mosq_failed 0) (w', demo_buffer 64) [Sys_EINTR, Sys_ok 1])
       [(9, EPOLLIN)] (l, n, br, away_world, demo_bus) = (l', n, br\<lparr>br_forwardedMessageCount := 1\<rparr>, v', demo_bus) \<and>
     map pq_content (store_queue mem_api snd (mw_store v')) = [bus_content demo_jf demo_mqtt_config (demo_update True)]"
proof -
  let ?m = "demo_update True" and ?buf = "demo_buffer 64" and ?w = "Shared_Memory.demo_world 64"
  let ?n0 = "\<lparr>nt_eventFd = 9, nt_callback = None\<rparr> :: notification_callback notifier"
  obtain l where l: "new_notifier Nc_handleRead Nc_error 9 True (Some new_event_loop) = (Inr ?n0, Some l, [])"
    by (simp add: new_notifier_def addChannel_def new_event_loop_def Let_def)
  obtain n br where br: "bridge_start ?buf (?n0, new_bridge) = (True, n, br)" "br_forwardedMessageCount br = 0" "nt_eventFd n = 9"
    by (simp add: bridge_start_def new_bridge_def shm_isOpen_def demo_buffer_def setCallback_def)
  have sh: "shm_shared ?w ?buf ?buf" by (rule demo_shared) simp
  have e: "encode ?m = Some (frame ?m)" and len: "length (frame ?m) = 57"
    by (simp_all add: encode_eq encodable_def length_frame default_message_def maxLength_def demo_update_def SourceTopic_def appendPod_def)
  obtain m0 where m0: "shm_mapping ?buf = Some m0" by (simp add: demo_buffer_def)
  have "length (frame ?m) \<le> unat (shm_cap ?buf)" by (simp add: len demo_buffer_def)
  note w = shm_write_eq [OF m0 this, of demo_os ?w]
  have "notify [Sys_ok ()] 1 n = Some True" by (simp add: notify_def br(3))
  then obtain w' a' where s: "send demo_os [Sys_ok ()] ?m n (?w, ?buf) = Some (True, w', a')"
    by (simp add: send_def e w) (simp add: demo_os_def)
  have st: "mw_store away_world = mem_store" by (simp add: away_world_def idle_world_def Mqtt_Service.demo_world_def)
  then have i: "store_inv mem_api snd (mw_store away_world)" "mem_room 2 (snd (mw_store away_world))"
    using mem_store_inv by (simp_all add: mem_store_def mem_room_def next_id_def)
  have off: "\<not> mq_connected (mw_mqtt away_world)" "mq_offlineStorage (mw_mqtt away_world)"
    using away_world_state(1) by (simp_all add: broker_away_def Let_def)
  have q: "store_queue mem_api snd (mw_store away_world) = []" by (simp add: st store_queue_def mem_store_def)
  have "\<not> br_running new_bridge" "retry_eintr [Sys_EINTR, Sys_ok (1 :: u64)] = Some (Sys_ok 1, [])" "(1 :: u64) \<noteq> 0"
    by (simp_all add: new_bridge_def)
  from remote_message_stored [OF l loop_inv_new br(1) this(1) sh s this(2,3) demo_bus_attached demo_update_publishable off(2) i(1)
      mem_api_ok(1) mem_room_ok i(2), of Mosq_failed 0]
  obtain l' v' where "dispatch (notifier_event (pipeline_run mem_api demo_fl demo_jf Mosq_failed 0) (w', ?buf) [Sys_EINTR, Sys_ok 1])
       [(9, EPOLLIN)] (l, n, br, away_world, demo_bus) = (l', n, br\<lparr>br_forwardedMessageCount := 1\<rparr>, v', demo_bus)"
     "map pq_content (store_queue mem_api snd (mw_store v')) = [bus_content demo_jf demo_mqtt_config ?m]"
    unfolding q br(2) away_world_state(2) using off(1) by (auto simp: forward_live_def)
  then show ?thesis using l br(1) s
    by (intro exI [of _ ?n0] exI [of _ l] exI [of _ n] exI [of _ br] exI [of _ w'] exI [of _ a'] exI [of _ l'] exI [of _ v'] conjI)
qed

end
