(* ===== verification/Control_Command.thy ===== *)
theory Control_Command
  imports Std_Text
begin

section \<open>The control command processor\<close>

text \<open>
  \<open>src/control_command_processor.cpp\<close>: requests of the Unix domain server. \<open>isspace\<close> (in \<open>Std_Text\<close>) and \<open>toupper\<close> are the ones
  of the C locale, which the program never changes.
\<close>

definition toupper :: "char \<Rightarrow> char" where
  "toupper c = (let n = of_char c :: nat in if 97 \<le> n \<and> n \<le> 122 then char_of (n - 32) else c)"

text \<open>\<open>first\<close> and \<open>last\<close> are positions of the text.\<close>

definition trim :: "string \<Rightarrow> string" where
  "trim str =
     (let first = length (takeWhile isspace str);
          last = length str - length (takeWhile isspace (rev str))
      in if first \<ge> last then '''' else take (last - first) (drop first str))"

definition toUpper :: "string \<Rightarrow> string" where
  "toUpper str = map toupper str"

definition process :: "string \<Rightarrow> string" where
  "process request =
     (let command = toUpper (trim request) in
      if command = '''' then ''ERROR EMPTY_COMMAND''
      else if command = ''PING'' then ''OK PONG''
      else if command = ''STATUS'' then ''OK RUNNING''
      else if command = ''HELP'' then ''OK COMMANDS PING STATUS HELP''
      else ''ERROR UNKNOWN_COMMAND'')"

subsection \<open>Trimming\<close>

lemma trim_spaces: "\<forall>c \<in> set str. isspace c \<Longrightarrow> trim str = ''''"
proof -
  assume "\<forall>c \<in> set str. isspace c"
  then have "length (takeWhile isspace str) = length str" by (metis takeWhile_eq_all_conv)
  then show ?thesis by (simp add: trim_def Let_def)
qed

lemma trim_core:
  assumes "\<forall>c \<in> set pre. isspace c" and "\<forall>c \<in> set post. isspace c"
    and "core \<noteq> ''''" and "\<not> isspace (hd core)" and "\<not> isspace (last core)"
  shows "trim (pre @ core @ post) = core"
proof -
  have "takeWhile isspace (pre @ core @ post) = pre"
    using assms(1,3,4) by (cases core) simp_all
  moreover have "takeWhile isspace (rev (pre @ core @ post)) = rev post"
  proof -
    obtain c cs where "rev core = c # cs" "\<not> isspace c"
      using assms(3,5) by (cases "rev core") (simp_all add: last_rev [symmetric] hd_rev)
    then show ?thesis using assms(2) by (simp add: takeWhile_append)
  qed
  ultimately show ?thesis using assms(3) by (simp add: trim_def)
qed

lemma trim_decompose:
  obtains (Blank) "\<forall>c \<in> set str. isspace c"
    | (Core) pre core post where "str = pre @ core @ post" "\<forall>c \<in> set pre. isspace c" "\<forall>c \<in> set post. isspace c"
        "core \<noteq> ''''" "\<not> isspace (hd core)" "\<not> isspace (last core)"
proof (cases "\<forall>c \<in> set str. isspace c")
  case False
  let ?rest = "dropWhile isspace str"
  let ?core = "rev (dropWhile isspace (rev ?rest))" and ?post = "rev (takeWhile isspace (rev ?rest))"
  have ne: "?rest \<noteq> []" "\<not> isspace (hd ?rest)" using False by (auto simp: dropWhile_eq_Nil_conv hd_dropWhile)
  then have "\<exists>c \<in> set (rev ?rest). \<not> isspace c" by (metis hd_in_set set_rev)
  then have core: "dropWhile isspace (rev ?rest) \<noteq> []" by (simp add: dropWhile_eq_Nil_conv)
  have "rev ?rest = takeWhile isspace (rev ?rest) @ dropWhile isspace (rev ?rest)" by simp
  then have rest: "?rest = ?core @ ?post" by (metis rev_append rev_rev_ident)
  have "hd ?core = hd ?rest" using core rest by (metis hd_append2 rev_is_Nil_conv)
  moreover have "\<not> isspace (last ?core)" using core by (simp add: last_rev hd_dropWhile)
  moreover have "str = takeWhile isspace str @ ?core @ ?post" using rest by (metis takeWhile_dropWhile_id)
  ultimately show ?thesis
    using Core [of "takeWhile isspace str" ?core ?post] ne core by (auto dest: set_takeWhileD)
qed (use Blank in blast)

lemma toupper_isspace [simp]: "isspace (toupper c) = isspace c"
  by (auto simp: isspace_def toupper_def Let_def of_char_of take_bit_nat_eq_self)

lemma toupper_idem [simp]: "toupper (toupper c) = toupper c"
  by (auto simp: toupper_def Let_def of_char_of take_bit_nat_eq_self)

lemma trim_map_toupper: "trim (map toupper str) = map toupper (trim str)"
proof -
  have tw: "takeWhile isspace (map toupper xs) = map toupper (takeWhile isspace xs)" for xs
    by (induction xs) simp_all
  show ?thesis by (simp add: trim_def rev_map tw Let_def take_map drop_map)
qed

lemma trim_pad:
  assumes "\<forall>c \<in> set pre. isspace c" and "\<forall>c \<in> set post. isspace c"
  shows "trim (pre @ str @ post) = trim str"
proof (cases rule: trim_decompose [of str])
  case Blank
  then have "\<forall>c \<in> set (pre @ str @ post). isspace c" using assms by auto
  then show ?thesis using Blank trim_spaces by metis
next
  case (Core p c q)
  have "trim ((pre @ p) @ c @ (q @ post)) = c"
    using assms Core by (intro trim_core) auto
  then show ?thesis using Core by (simp add: trim_core)
qed

text \<open>
  A command is recognised whatever its case and whatever white space surrounds it, and the answer to a request
  depends on nothing else.
\<close>

theorem process_insensitive:
  assumes "\<forall>c \<in> set pre. isspace c" and "\<forall>c \<in> set post. isspace c" and "map toupper r = map toupper s"
  shows "process (pre @ r @ post) = process s"
proof -
  have "toUpper (trim r) = toUpper (trim s)"
    using assms(3) by (simp add: toUpper_def trim_map_toupper [symmetric])
  then show ?thesis by (simp add: process_def trim_pad [OF assms(1,2)])
qed

theorem process_insensitive_witness:
  "process ''  pInG '' = process ''ping'' \<and> process ''ping'' = ''OK PONG''"
proof
  have "map toupper ''pInG'' = map toupper ''ping''" by code_simp
  from process_insensitive [OF _ _ this, of "''  ''" "'' ''"]
  show "process ''  pInG '' = process ''ping''" by (simp add: isspace_def)
  show "process ''ping'' = ''OK PONG''" by code_simp
qed

end
