(* ===== verification/Modbus_Plugin.thy ===== *)
theory Modbus_Plugin
  imports Connection_State Reconnect_Backoff
begin

section \<open>The Modbus TCP plugin and the RTU transport\<close>

text \<open>
  \<open>plugins/modbus_plugin/modbus_plugin.cpp\<close> and \<open>modbus_rtu_transport.cpp\<close>. The plugin polls holding registers and
  writes the converted values into the device manager, driving the connection state machine and the reconnect
  backoff. libmodbus is not part of the repository: the results of its calls are arguments, the calls that own
  or release a resource are recorded. \<open>double\<close> arithmetic (whose contraction and rounding belong to the platform) is
  the argument \<open>fp\<close>; \<open>double\<close> and \<open>float\<close> values are bit patterns. An operation returns \<open>None\<close> where the code
  would dereference a null pointer or let a constructor's exception escape; the invariant below excludes this.
\<close>

unbundle bit_operations_syntax

datatype modbus_data_type = Mb_UInt16 | Mb_Int16 | Mb_UInt32 | Mb_Int32 | Mb_Float32

record modbus_tag_config =
  mt_name :: string
  mt_registerAddress :: int
  mt_dataType :: modbus_data_type
  mt_scale :: u64
  mt_offset :: u64

record modbus_tcp_config =
  mc_host :: string
  mc_port :: int
  mc_slaveId :: int
  mc_communicationTimeoutMs :: int
  mc_reconnectInitialDelayMs :: int
  mc_reconnectMaximumDelayMs :: int
  mc_deviceId :: string
  mc_deviceName :: string
  mc_tags :: "modbus_tag_config list"

record fp_ops =
  fp_of_int :: "int \<Rightarrow> u64"
  fp_of_float :: "u32 \<Rightarrow> u64"
  fp_mul :: "u64 \<Rightarrow> u64 \<Rightarrow> u64"
  fp_add :: "u64 \<Rightarrow> u64 \<Rightarrow> u64"

text \<open>\<open>std::isfinite\<close> on a binary64 pattern: the exponent field is not all ones.\<close>

definition isfinite :: "u64 \<Rightarrow> bool" where
  "isfinite d \<longleftrightarrow> drop_bit 52 d AND 0x7FF \<noteq> 0x7FF"

fun registerCount :: "modbus_data_type \<Rightarrow> int" where
  "registerCount Mb_UInt16 = 1"
| "registerCount Mb_Int16 = 1"
| "registerCount Mb_UInt32 = 2"
| "registerCount Mb_Int32 = 2"
| "registerCount Mb_Float32 = 2"

text \<open>The loop of \<open>validateConfig\<close>; \<open>tagNames\<close> is the set of names seen so far.\<close>

fun validateTags :: "string list \<Rightarrow> modbus_tag_config list \<Rightarrow> bool" where
  "validateTags tagNames [] = True"
| "validateTags tagNames (t # ts) =
     (let count = registerCount (mt_dataType t) in
      if mt_name t = '''' \<or> mt_name t \<in> set tagNames \<or> count = 0 \<or> mt_registerAddress t < 0 \<or>
         mt_registerAddress t > 65535 - (count - 1) \<or> \<not> isfinite (mt_scale t) \<or> \<not> isfinite (mt_offset t)
      then False
      else validateTags (mt_name t # tagNames) ts)"

definition modbus_validateConfig :: "modbus_tcp_config \<Rightarrow> bool" where
  "modbus_validateConfig c \<longleftrightarrow>
     \<not> (mc_host c = '''' \<or> mc_port c \<le> 0 \<or> mc_port c > 65535 \<or> mc_slaveId c \<le> 0 \<or> mc_slaveId c > 247 \<or>
        mc_communicationTimeoutMs c \<le> 0 \<or> mc_reconnectInitialDelayMs c \<le> 0 \<or>
        mc_reconnectMaximumDelayMs c < mc_reconnectInitialDelayMs c \<or> mc_deviceId c = '''' \<or> mc_tags c = []) \<and>
     validateTags [] (mc_tags c)"

definition combine_words :: "u16 \<Rightarrow> u16 \<Rightarrow> u32" where
  "combine_words hi lo = push_bit 16 (ucast hi) OR ucast lo"

fun modbus_raw :: "fp_ops \<Rightarrow> u16 \<times> u16 \<Rightarrow> modbus_data_type \<Rightarrow> u64" where
  "modbus_raw fp (r0, r1) Mb_UInt16 = fp_of_int fp (uint r0)"
| "modbus_raw fp (r0, r1) Mb_Int16 = fp_of_int fp (sint r0)"
| "modbus_raw fp (r0, r1) Mb_UInt32 = fp_of_int fp (uint (combine_words r0 r1))"
| "modbus_raw fp (r0, r1) Mb_Int32 = fp_of_int fp (sint (combine_words r0 r1))"
| "modbus_raw fp (r0, r1) Mb_Float32 = fp_of_float fp (combine_words r0 r1)"

definition modbus_decodeValue :: "fp_ops \<Rightarrow> u16 \<times> u16 \<Rightarrow> modbus_tag_config \<Rightarrow> u64 option" where
  "modbus_decodeValue fp registers config =
     (let rawValue = modbus_raw fp registers (mt_dataType config);
          engineeringValue = fp_add fp (fp_mul fp rawValue (mt_scale config)) (mt_offset config)
      in if \<not> isfinite rawValue \<or> \<not> isfinite engineeringValue then None else Some engineeringValue)"

subsection \<open>The plugin object\<close>

datatype modbus_call = Mb_new | Mb_free | Mb_connect | Mb_close

record modbus_plugin =
  mp_config :: modbus_tcp_config
  mp_dm :: device_manager
  mp_stateMachine :: "csm option"
  mp_backoff :: "backoff option"
  mp_context :: bool
  mp_connected :: bool
  mp_calls :: "modbus_call list"

definition mp_log :: "modbus_call \<Rightarrow> modbus_plugin \<Rightarrow> modbus_plugin" where
  "mp_log c p = p\<lparr>mp_calls := mp_calls p @ [c]\<rparr>"

definition new_modbus_plugin :: "device_manager \<Rightarrow> modbus_tcp_config \<Rightarrow> modbus_plugin" where
  "new_modbus_plugin dm config = \<lparr>mp_config = config, mp_dm = dm, mp_stateMachine = None, mp_backoff = None,
     mp_context = False, mp_connected = False, mp_calls = []\<rparr>"

text \<open>\<open>stateMachine_->transitionTo(s)\<close>.\<close>

definition mp_transitionTo :: "mono_time \<Rightarrow> connection_state \<Rightarrow> modbus_plugin \<Rightarrow> (bool \<times> modbus_plugin) option" where
  "mp_transitionTo now s p =
     do { m \<leftarrow> mp_stateMachine p;
          let (ok, m', dm') = transitionTo now s (m, mp_dm p);
          Some (ok, p\<lparr>mp_stateMachine := Some m', mp_dm := dm'\<rparr>) }"

definition mp_markAll :: "wall_time \<Rightarrow> quality \<Rightarrow> modbus_plugin \<Rightarrow> modbus_plugin" where
  "mp_markAll wall q p = p\<lparr>mp_dm := snd (updateAllTagQualities wall (mc_deviceId (mp_config p)) q (mp_dm p))\<rparr>"

definition mp_recordFailure :: "mono_time \<Rightarrow> modbus_plugin \<Rightarrow> modbus_plugin option" where
  "mp_recordFailure now p = map_option (\<lambda>b. p\<lparr>mp_backoff := Some (recordFailure now b)\<rparr>) (mp_backoff p)"

definition mp_resetBackoff :: "modbus_plugin \<Rightarrow> modbus_plugin option" where
  "mp_resetBackoff p = map_option (\<lambda>b. p\<lparr>mp_backoff := Some (reset_backoff b)\<rparr>) (mp_backoff p)"

text \<open>Results of libmodbus calls; \<open>mr_read i address count\<close> answers the read of the \<open>i\<close>-th tag.\<close>

record modbus_results =
  mr_new_tcp :: bool
  mr_set_slave :: bool
  mr_connect :: bool
  mr_read :: "nat \<Rightarrow> int \<Rightarrow> int \<Rightarrow> int \<times> u16 \<times> u16"

text \<open>\<open>now\<close> is the steady clock when the state machine is built.\<close>

definition modbus_initialize :: "modbus_results \<Rightarrow> mono_time \<Rightarrow> modbus_plugin \<Rightarrow> (bool \<times> modbus_plugin) option" where
  "modbus_initialize lib now p =
     (let c = mp_config p in
      if mp_context p then Some (True, p)
      else if \<not> modbus_validateConfig c then Some (False, p)
      else if \<not> mr_new_tcp lib then Some (False, p)
      else if \<not> mr_set_slave lib then Some (False, mp_log Mb_free (mp_log Mb_new p))
      else
       (let (ok, dm') = (if hasDevice (mp_dm p) (mc_deviceId c) then (True, mp_dm p)
              else addDevice (default_device\<lparr>dev_id := mc_deviceId c, dev_name := mc_deviceName c,
                     dev_protocol := ''modbus-tcp''\<rparr>) (mp_dm p));
            p1 = (mp_log Mb_new p)\<lparr>mp_dm := dm'\<rparr> in
        if \<not> ok then Some (False, mp_log Mb_free p1)
        else
         (case new_csm (Some dm') (mc_deviceId c) (mc_communicationTimeoutMs c) now of
            Inl _ \<Rightarrow> None
          | Inr m \<Rightarrow>
             (case new_backoff (mc_reconnectInitialDelayMs c) (mc_reconnectMaximumDelayMs c) of
                Inl _ \<Rightarrow> None
              | Inr b \<Rightarrow>
                 Some (True, p1\<lparr>mp_context := True, mp_stateMachine := Some m, mp_backoff := Some b\<rparr>)))))"

text \<open>
  \<open>clock i\<close> is the \<open>i\<close>-th reading of the steady clock during the call; \<open>wall i\<close> is the system clock when the \<open>i\<close>-th
  tag is stored, \<open>mark\<close> when all tags are marked.
\<close>

definition connectTransport :: "modbus_results \<Rightarrow> (nat \<Rightarrow> mono_time) \<Rightarrow> wall_time \<Rightarrow> modbus_plugin \<Rightarrow>
    (bool \<times> modbus_plugin) option" where
  "connectTransport lib clock mark p =
     (if mp_connected p then Some (True, p)
      else do {
        (ok, p1) \<leftarrow> mp_transitionTo (clock 1) State_Connecting p;
        if \<not> ok then Some (False, p1)
        else (let p2 = mp_log Mb_connect p1 in
          if \<not> mr_connect lib then do {
            (_, p3) \<leftarrow> mp_transitionTo (clock 2) State_Error p2;
            p4 \<leftarrow> mp_recordFailure (clock 3) (mp_markAll mark Quality_Disconnected p3);
            Some (False, p4) }
          else do {
            (ok', p3) \<leftarrow> mp_transitionTo (clock 2) State_Connected (p2\<lparr>mp_connected := True\<rparr>);
            if \<not> ok' then do {
              p4 \<leftarrow> mp_recordFailure (clock 3) ((mp_log Mb_close p3)\<lparr>mp_connected := False\<rparr>);
              Some (False, p4) }
            else do {
              p4 \<leftarrow> mp_resetBackoff p3;
              Some (True, p4) } }) })"

text \<open>One pass over the configured tags, from the \<open>i\<close>-th on: all succeeded, a response came, the manager.\<close>

fun pollTags :: "fp_ops \<Rightarrow> modbus_results \<Rightarrow> (nat \<Rightarrow> wall_time) \<Rightarrow> string \<Rightarrow> nat \<Rightarrow> modbus_tag_config list \<Rightarrow>
    bool \<times> bool \<times> device_manager \<Rightarrow> bool \<times> bool \<times> device_manager" where
  "pollTags fp lib wall deviceId i [] s = s"
| "pollTags fp lib wall deviceId i (t # ts) (allSucceeded, receivedResponse, dm) =
     (let expectedCount = registerCount (mt_dataType t);
          (actualCount, registers) = mr_read lib i (mt_registerAddress t) expectedCount;
          tag = default_tag\<lparr>tag_name := mt_name t\<rparr>
      in pollTags fp lib wall deviceId (Suc i) ts
          (if actualCount \<noteq> expectedCount
           then (False, receivedResponse, snd (updateTag (wall i) deviceId (tag\<lparr>tag_quality := Quality_Timeout\<rparr>) dm))
           else (case modbus_decodeValue fp registers t of
              None \<Rightarrow> (False, True, snd (updateTag (wall i) deviceId (tag\<lparr>tag_quality := Quality_Invalid\<rparr>) dm))
            | Some v \<Rightarrow>
                (let (ok, dm') = updateTag (wall i) deviceId (tag\<lparr>tag_val := Val_Double v, tag_quality := Quality_Good\<rparr>) dm
                 in (allSucceeded \<and> ok, True, dm')))))"

text \<open>\<open>pollOnce\<close> once a connection exists.\<close>

definition pollConnected :: "fp_ops \<Rightarrow> modbus_results \<Rightarrow> (nat \<Rightarrow> mono_time) \<Rightarrow> (nat \<Rightarrow> wall_time) \<Rightarrow> wall_time \<Rightarrow>
    modbus_plugin \<Rightarrow> (bool \<times> modbus_plugin) option" where
  "pollConnected fp lib clock wall mark p =
     (let (allSucceeded, receivedResponse, dm') =
            pollTags fp lib wall (mc_deviceId (mp_config p)) 0 (mc_tags (mp_config p)) (True, False, mp_dm p) in
      case mp_stateMachine p of
        None \<Rightarrow> None
      | Some m \<Rightarrow>
          if receivedResponse
          then (let (_, m', dm'') = markActivity (clock 4) (m, dm')
                in Some (allSucceeded, p\<lparr>mp_stateMachine := Some m', mp_dm := dm''\<rparr>))
          else (let (timedOut, m', dm'') = checkTimeout (clock 4) (m, dm');
                    p2 = p\<lparr>mp_stateMachine := Some m', mp_dm := dm''\<rparr>
                in if timedOut
                   then map_option (\<lambda>p3. (allSucceeded, p3))
                          (mp_recordFailure (clock 5) ((mp_log Mb_close (mp_markAll mark Quality_Timeout p2))\<lparr>mp_connected := False\<rparr>))
                   else Some (allSucceeded, p2)))"

definition pollOnce :: "fp_ops \<Rightarrow> modbus_results \<Rightarrow> (nat \<Rightarrow> mono_time) \<Rightarrow> (nat \<Rightarrow> wall_time) \<Rightarrow> wall_time \<Rightarrow>
    modbus_plugin \<Rightarrow> (bool \<times> modbus_plugin) option" where
  "pollOnce fp lib clock wall mark p =
     (if mp_connected p then pollConnected fp lib clock wall mark p
      else (case mp_backoff p of
              None \<Rightarrow> Some (False, p)
            | Some b \<Rightarrow>
                if \<not> canRetry (clock 0) b then Some (False, p)
                else do {
                  (ok, p1) \<leftarrow> connectTransport lib clock mark p;
                  if \<not> ok then Some (False, p1) else pollConnected fp lib clock wall mark p1 }))"

definition modbus_start :: "fp_ops \<Rightarrow> modbus_results \<Rightarrow> (nat \<Rightarrow> mono_time) \<Rightarrow> (nat \<Rightarrow> wall_time) \<Rightarrow> wall_time \<Rightarrow> modbus_plugin \<Rightarrow>
    (bool \<times> modbus_plugin) option" where
  "modbus_start fp lib clock wall mark p =
     (if mp_connected p then Some (True, p)
      else do {
        (ready, p1) \<leftarrow> (if mp_context p then Some (True, p) else modbus_initialize lib (clock 0) p);
        if \<not> ready then Some (False, p1)
        else do {
          b \<leftarrow> mp_backoff p1;
          if \<not> canRetry (clock 0) b then Some (False, p1)
          else do {
            (ok, p2) \<leftarrow> connectTransport lib clock mark p1;
            if \<not> ok then Some (False, p2)
            else do {
              (_, p3) \<leftarrow> pollOnce fp lib clock wall mark p2;
              Some (True, p3) } } } })"

definition modbus_stop :: "mono_time \<Rightarrow> wall_time \<Rightarrow> modbus_plugin \<Rightarrow> modbus_plugin" where
  "modbus_stop now mark p =
     (let p1 = (if mp_connected p then (mp_log Mb_close p)\<lparr>mp_connected := False\<rparr> else p);
          p2 = (case mp_stateMachine p1 of
                  None \<Rightarrow> p1
                | Some m \<Rightarrow>
                    if csm_state m = State_Disconnected then p1
                    else (let (_, m', dm') = transitionTo now State_Disconnected (m, mp_dm p1)
                          in mp_markAll mark Quality_Disconnected (p1\<lparr>mp_stateMachine := Some m', mp_dm := dm'\<rparr>)))
      in (case mp_backoff p2 of None \<Rightarrow> p2 | Some b \<Rightarrow> p2\<lparr>mp_backoff := Some (reset_backoff b)\<rparr>))"

definition modbus_destroy :: "mono_time \<Rightarrow> wall_time \<Rightarrow> modbus_plugin \<Rightarrow> modbus_plugin" where
  "modbus_destroy now mark p =
     (let p1 = modbus_stop now mark p in if mp_context p1 then (mp_log Mb_free p1)\<lparr>mp_context := False\<rparr> else p1)"

subsection \<open>The RTU transport\<close>

record modbus_rtu_config =
  rc_serialDevice :: string
  rc_baudRate :: int
  rc_parity :: char
  rc_dataBits :: int
  rc_stopBits :: int
  rc_slaveId :: int

record modbus_rtu =
  rtu_config :: modbus_rtu_config
  rtu_context :: bool
  rtu_connected :: bool
  rtu_calls :: "modbus_call list"

definition rtu_log :: "modbus_call \<Rightarrow> modbus_rtu \<Rightarrow> modbus_rtu" where
  "rtu_log c t = t\<lparr>rtu_calls := rtu_calls t @ [c]\<rparr>"

definition new_rtu :: "modbus_rtu_config \<Rightarrow> modbus_rtu" where
  "new_rtu config = \<lparr>rtu_config = config, rtu_context = False, rtu_connected = False, rtu_calls = []\<rparr>"

definition rtu_validateConfig :: "modbus_rtu \<Rightarrow> bool" where
  "rtu_validateConfig t \<longleftrightarrow>
     (let c = rtu_config t;
          parityValid = (rc_parity c = CHR ''N'' \<or> rc_parity c = CHR ''E'' \<or> rc_parity c = CHR ''O'')
      in rc_serialDevice c \<noteq> '''' \<and> rc_baudRate c > 0 \<and> parityValid \<and> rc_dataBits c \<ge> 5 \<and> rc_dataBits c \<le> 8 \<and>
         (rc_stopBits c = 1 \<or> rc_stopBits c = 2) \<and> rc_slaveId c \<ge> 1 \<and> rc_slaveId c \<le> 247)"

text \<open>\<open>newRtu\<close>, \<open>setSlave\<close> and \<open>opened\<close> are the results of the libmodbus calls.\<close>

definition rtu_connect :: "bool \<Rightarrow> bool \<Rightarrow> bool \<Rightarrow> modbus_rtu \<Rightarrow> bool \<times> modbus_rtu" where
  "rtu_connect newRtu setSlave opened t =
     (if rtu_connected t then (True, t)
      else if \<not> rtu_validateConfig t then (False, t)
      else
       (let (ready, t1) =
              (if rtu_context t then (True, t)
               else if \<not> newRtu then (False, t)
               else if \<not> setSlave then (False, rtu_log Mb_free (rtu_log Mb_new t))
               else (True, (rtu_log Mb_new t)\<lparr>rtu_context := True\<rparr>)) in
        if \<not> ready then (False, t1)
        else (let t2 = rtu_log Mb_connect t1 in
          if \<not> opened then (False, t2) else (True, t2\<lparr>rtu_connected := True\<rparr>))))"

definition rtu_disconnect :: "modbus_rtu \<Rightarrow> modbus_rtu" where
  "rtu_disconnect t = (if \<not> rtu_connected t then t else (rtu_log Mb_close t)\<lparr>rtu_connected := False\<rparr>)"

definition rtu_destroy :: "modbus_rtu \<Rightarrow> modbus_rtu" where
  "rtu_destroy t =
     (let t1 = rtu_disconnect t in if rtu_context t1 then (rtu_log Mb_free t1)\<lparr>rtu_context := False\<rparr> else t1)"

text \<open>\<open>rd address count\<close> is libmodbus' answer: the count it returned and the registers it stored in the zeroed vector.\<close>

definition readHoldingRegisters :: "(int \<Rightarrow> int \<Rightarrow> int \<times> u16 list) \<Rightarrow> int \<Rightarrow> int \<Rightarrow> modbus_rtu \<Rightarrow> u16 list option" where
  "readHoldingRegisters rd address count t =
     (if \<not> rtu_connected t then None
      else if address < 0 \<or> count \<le> 0 \<or> count > 125 \<or> address > 65535 - (count - 1) then None
      else (let (actualCount, registers) = rd address count in
            if actualCount \<noteq> count then None else Some (take (nat count) (registers @ replicate (nat count) 0))))"

subsection \<open>Decoding\<close>

lemma uint_combine_words: "uint (combine_words hi lo) = uint hi * 65536 + uint lo"
proof -
  have "push_bit 16 (ucast hi :: u32) AND ucast lo = 0"
    by (rule bit_word_eqI) (auto simp: bit_simps dest: bit_imp_le_length)
  then have "combine_words hi lo = push_bit 16 (ucast hi) + ucast lo"
    by (simp add: combine_words_def disjunctive_add_eq_or)
  moreover have "uint hi < 65536" "uint lo < 65536"
    using uint_lt2p [of hi] uint_lt2p [of lo] by simp_all
  ultimately show ?thesis
    by (simp add: uint_word_ariths unsigned_push_bit_eq push_bit_eq_mult unsigned_ucast_eq take_bit_eq_mod)
qed

text \<open>Two's complement reading of the combined words, the high word first.\<close>

definition signed_of :: "nat \<Rightarrow> int \<Rightarrow> int" where
  "signed_of n x = (if x < 2 ^ (n - 1) then x else x - 2 ^ n)"

lemma signed_mod:
  fixes x h :: int
  assumes "0 \<le> x" and "x < 2 * h"
  shows "(x + h) mod (2 * h) - h = (if x < h then x else x - 2 * h)"
proof (cases "x < h")
  case False
  have "(x + h) mod (2 * h) = ((x - h) + 2 * h) mod (2 * h)" by (simp add: algebra_simps)
  also have "\<dots> = (x - h) mod (2 * h)" by (rule mod_add_self2)
  also have "\<dots> = x - h" using assms False by (intro mod_pos_pos_trivial) simp_all
  finally show ?thesis using False by simp
qed (use assms in simp)

lemma sint_signed_of:
  "sint (w :: 16 word) = signed_of 16 (uint w)" "sint (v :: 32 word) = signed_of 32 (uint v)"
  using uint_lt2p [of w] uint_lt2p [of v] signed_mod [of "uint w" "2 ^ 15"] signed_mod [of "uint v" "2 ^ 31"]
  by (simp_all add: signed_of_def sint_uint signed_take_bit_eq_take_bit_shift take_bit_eq_mod)

subsection \<open>Polling\<close>

text \<open>The tag that reading and decoding the \<open>i\<close>-th configured tag should leave behind.\<close>

definition polled_tag :: "fp_ops \<Rightarrow> modbus_results \<Rightarrow> (nat \<Rightarrow> wall_time) \<Rightarrow> nat \<Rightarrow> modbus_tag_config \<Rightarrow> tag" where
  "polled_tag fp lib wall i t =
     (let n = registerCount (mt_dataType t); (c, regs) = mr_read lib i (mt_registerAddress t) n in
      \<lparr>tag_name = mt_name t,
       tag_val = (if c \<noteq> n then Val_Monostate
                  else case modbus_decodeValue fp regs t of None \<Rightarrow> Val_Monostate | Some v \<Rightarrow> Val_Double v),
       tag_quality = (if c \<noteq> n then Quality_Timeout
                      else case modbus_decodeValue fp regs t of None \<Rightarrow> Quality_Invalid | Some v \<Rightarrow> Quality_Good),
       tag_timestamp = wall i\<rparr>)"

text \<open>The \<open>i\<close>-th read was answered with as many registers as asked for.\<close>

definition answered :: "modbus_results \<Rightarrow> nat \<Rightarrow> modbus_tag_config \<Rightarrow> bool" where
  "answered lib i t \<longleftrightarrow>
     fst (mr_read lib i (mt_registerAddress t) (registerCount (mt_dataType t))) = registerCount (mt_dataType t)"

lemma hasDevice_updateTag: "hasDevice (snd (updateTag w k t dm)) k' = hasDevice dm k'"
  by (auto simp: hasDevice_def findDevice_def updateTag_def um_find_set split: option.splits)

lemma updateTag_Some: "hasDevice dm k \<Longrightarrow> tag_name t \<noteq> '''' \<Longrightarrow> fst (updateTag w k t dm)"
  by (simp add: updateTag_result)

lemma pollTags_step:
  assumes "hasDevice dm k" and "mt_name t \<noteq> ''''"
  shows "\<exists>dm'. pollTags fp lib wall k i (t # ts) (a, r, dm) =
      pollTags fp lib wall k (Suc i) ts
        (a \<and> tag_quality (polled_tag fp lib wall i t) = Quality_Good, r \<or> answered lib i t, dm') \<and>
    hasDevice dm' k \<and>
    (\<forall>k' n. lookupTag dm' k' n =
      (if k' = k \<and> n = mt_name t then Some (polled_tag fp lib wall i t) else lookupTag dm k' n))"
proof -
  obtain c r0 where rd: "mr_read lib i (mt_registerAddress t) (registerCount (mt_dataType t)) = (c, r0)"
    by (metis surj_pair)
  let ?tag = "(polled_tag fp lib wall i t)\<lparr>tag_timestamp := 0\<rparr>"
  let ?dm' = "snd (updateTag (wall i) k ?tag dm)"
  have ok: "fst (updateTag (wall i) k ?tag dm)"
    using assms by (intro updateTag_Some) (simp_all add: polled_tag_def Let_def case_prod_beta)
  have ts: "?tag\<lparr>tag_timestamp := wall i\<rparr> = polled_tag fp lib wall i t" and nm: "tag_name ?tag = mt_name t"
    by (simp_all add: polled_tag_def Let_def case_prod_beta)
  have "pollTags fp lib wall k i (t # ts) (a, r, dm) =
      pollTags fp lib wall k (Suc i) ts
        (a \<and> tag_quality (polled_tag fp lib wall i t) = Quality_Good, r \<or> answered lib i t, ?dm')"
    using ok
    by (auto simp: rd polled_tag_def answered_def default_tag_def Let_def case_prod_beta split: option.splits)
  moreover have "lookupTag ?dm' k' n =
      (if k' = k \<and> n = mt_name t then Some (polled_tag fp lib wall i t) else lookupTag dm k' n)" for k' n
    using ok by (simp add: lookupTag_updateTag ts nm)
  ultimately show ?thesis using assms(1) hasDevice_updateTag by blast
qed

lemma validateTags_names:
  "validateTags seen ts \<Longrightarrow>
     distinct (map mt_name ts) \<and> '''' \<notin> set (map mt_name ts) \<and> set (map mt_name ts) \<inter> set seen = {}"
  by (induction seen ts rule: validateTags.induct) (auto simp: Let_def split: if_splits)

lemma pollTags_spec:
  assumes "hasDevice dm k" and "distinct (map mt_name ts)" and "'''' \<notin> set (map mt_name ts)"
    and "pollTags fp lib wall k i ts (a, r, dm) = (a', r', dm')"
  shows "a' = (a \<and> (\<forall>j < length ts. tag_quality (polled_tag fp lib wall (i + j) (ts ! j)) = Quality_Good)) \<and>
    r' = (r \<or> (\<exists>j < length ts. answered lib (i + j) (ts ! j))) \<and> hasDevice dm' k \<and>
    (\<forall>j < length ts. lookupTag dm' k (mt_name (ts ! j)) = Some (polled_tag fp lib wall (i + j) (ts ! j))) \<and>
    (\<forall>k' n. k' \<noteq> k \<or> n \<notin> set (map mt_name ts) \<longrightarrow> lookupTag dm' k' n = lookupTag dm k' n)"
  using assms
proof (induction ts arbitrary: i a r dm)
  case (Cons t ts)
  from Cons.prems(3) have "mt_name t \<noteq> ''''" by auto
  from pollTags_step [OF Cons.prems(1) this, of fp lib wall i ts a r] obtain dm1 where
    s: "pollTags fp lib wall k i (t # ts) (a, r, dm) =
        pollTags fp lib wall k (Suc i) ts
          (a \<and> tag_quality (polled_tag fp lib wall i t) = Quality_Good, r \<or> answered lib i t, dm1)"
    and h: "hasDevice dm1 k"
    and l: "\<And>k' n. lookupTag dm1 k' n =
      (if k' = k \<and> n = mt_name t then Some (polled_tag fp lib wall i t) else lookupTag dm k' n)"
    by blast
  have t: "mt_name t \<notin> set (map mt_name ts)" using Cons.prems(2) by simp
  have p: "pollTags fp lib wall k (Suc i) ts
      (a \<and> tag_quality (polled_tag fp lib wall i t) = Quality_Good, r \<or> answered lib i t, dm1) = (a', r', dm')"
    using Cons.prems(4) s by simp
  have d: "distinct (map mt_name ts)" "'''' \<notin> set (map mt_name ts)" using Cons.prems(2,3) by simp_all
  note ih = Cons.IH [OF h d p]
  have "lookupTag dm' k (mt_name t) = Some (polled_tag fp lib wall i t)" using ih t l by simp
  with ih show ?case
    using l by (simp add: All_less_Suc2 Ex_less_Suc2)
qed simp

subsection \<open>Invariant of the plugin object\<close>

text \<open>
  The context, the state machine and the backoff exist together; a connected plugin's machine is in \<open>Connected\<close>;
  every context ever created is alive or was freed.
\<close>

definition mp_inv :: "modbus_plugin \<Rightarrow> bool" where
  "mp_inv p \<longleftrightarrow>
     (if mp_context p
      then \<exists>m b. mp_stateMachine p = Some m \<and> mp_backoff p = Some b \<and> backoff_wf b \<and>
             csm_deviceId m = mc_deviceId (mp_config p) \<and> (mp_connected p \<longrightarrow> csm_state m = State_Connected)
      else mp_stateMachine p = None \<and> mp_backoff p = None \<and> \<not> mp_connected p) \<and>
     count_list (mp_calls p) Mb_new = count_list (mp_calls p) Mb_free + (if mp_context p then 1 else 0)"

lemma mp_log_fields [simp]:
  "mp_config (mp_log c p) = mp_config p" "mp_dm (mp_log c p) = mp_dm p"
  "mp_stateMachine (mp_log c p) = mp_stateMachine p" "mp_backoff (mp_log c p) = mp_backoff p"
  "mp_context (mp_log c p) = mp_context p" "mp_connected (mp_log c p) = mp_connected p"
  "mp_calls (mp_log c p) = mp_calls p @ [c]"
  by (simp_all add: mp_log_def)

lemma mp_markAll_fields [simp]:
  "mp_config (mp_markAll w q p) = mp_config p" "mp_stateMachine (mp_markAll w q p) = mp_stateMachine p"
  "mp_backoff (mp_markAll w q p) = mp_backoff p" "mp_context (mp_markAll w q p) = mp_context p"
  "mp_connected (mp_markAll w q p) = mp_connected p" "mp_calls (mp_markAll w q p) = mp_calls p"
  by (simp_all add: mp_markAll_def)

lemma mp_transitionTo_eq:
  assumes "mp_stateMachine p = Some m"
  shows "\<exists>ok m' dm'. mp_transitionTo now s p = Some (ok, p\<lparr>mp_stateMachine := Some m', mp_dm := dm'\<rparr>) \<and>
    csm_deviceId m' = csm_deviceId m \<and> csm_state m' = (if ok then s else csm_state m)"
proof -
  obtain ok m' dm' where t: "transitionTo now s (m, mp_dm p) = (ok, m', dm')" by (metis prod_cases3)
  have "csm_deviceId m' = csm_deviceId m" "csm_state m' = (if ok then s else csm_state m)"
    using transitionTo_frame(1) [of now s "(m, mp_dm p)"] transitionTo_state [of now s "(m, mp_dm p)"] by (simp_all add: t)
  then show ?thesis using assms t by (auto simp: mp_transitionTo_def)
qed

lemma mp_inv_new: "mp_inv (new_modbus_plugin dm config)"
  by (simp add: mp_inv_def new_modbus_plugin_def)

lemma modbus_initialize_total:
  assumes "mp_inv p"
  shows "\<exists>p'. modbus_initialize lib now p = Some (mp_context p', p') \<and> mp_inv p' \<and> mp_config p' = mp_config p \<and>
    mp_connected p' = mp_connected p"
proof (cases "mp_context p \<or> \<not> modbus_validateConfig (mp_config p) \<or> \<not> mr_new_tcp lib \<or> \<not> mr_set_slave lib")
  case True
  then show ?thesis
    using assms
    by (cases "mp_context p"; cases "modbus_validateConfig (mp_config p)"; cases "mr_new_tcp lib")
      (simp_all add: modbus_initialize_def mp_inv_def Let_def)
next
  case False
  let ?c = "mp_config p" and ?id = "mc_deviceId (mp_config p)"
  let ?d = "default_device\<lparr>dev_id := ?id, dev_name := mc_deviceName ?c, dev_protocol := ''modbus-tcp''\<rparr>"
  have v: "mc_communicationTimeoutMs ?c > 0" "?id \<noteq> ''''" "mc_reconnectInitialDelayMs ?c > 0"
    "mc_reconnectInitialDelayMs ?c \<le> mc_reconnectMaximumDelayMs ?c"
    using False by (auto simp: modbus_validateConfig_def)
  obtain ok dm' where e: "(if hasDevice (mp_dm p) ?id then (True, mp_dm p) else addDevice ?d (mp_dm p)) = (ok, dm')"
    by (metis surj_pair)
  obtain b where b: "new_backoff (mc_reconnectInitialDelayMs ?c) (mc_reconnectMaximumDelayMs ?c) = Inr b"
    using v by (simp add: new_backoff_def)
  show ?thesis
  proof (cases ok)
    case True
    then obtain d where "findDevice dm' ?id = Some d"
      using e by (auto simp: hasDevice_def findDevice_def addDevice_def um_find_emplace split: if_splits)
    then obtain m where m: "new_csm (Some dm') ?id (mc_communicationTimeoutMs ?c) now = Inr m" "csm_deviceId m = ?id"
      using v by (simp add: new_csm_def)
    show ?thesis
      using assms False True e m b backoff_wf_new [OF b]
      by (simp add: modbus_initialize_def mp_inv_def Let_def)
  next
    case nok: False
    then show ?thesis using assms False e by (simp add: modbus_initialize_def mp_inv_def Let_def)
  qed
qed

lemma connectTransport_total:
  assumes "mp_inv p" and "mp_context p"
  shows "\<exists>p'. connectTransport lib clock mark p = Some (mp_connected p', p') \<and> mp_inv p' \<and> mp_context p' \<and>
    mp_config p' = mp_config p"
proof (cases "mp_connected p")
  case True
  then show ?thesis using assms by (simp add: connectTransport_def)
next
  case False
  obtain m b where m: "mp_stateMachine p = Some m" "mp_backoff p = Some b" "backoff_wf b"
    "csm_deviceId m = mc_deviceId (mp_config p)"
    using assms by (auto simp: mp_inv_def)
  have n: "count_list (mp_calls p) Mb_new = Suc (count_list (mp_calls p) Mb_free)"
    using assms by (simp add: mp_inv_def)
  obtain ok m1 dm1 where t1: "mp_transitionTo (clock 1) State_Connecting p =
      Some (ok, p\<lparr>mp_stateMachine := Some m1, mp_dm := dm1\<rparr>)" "csm_deviceId m1 = csm_deviceId m"
    using mp_transitionTo_eq [OF m(1)] by blast
  let ?p2 = "mp_log Mb_connect (p\<lparr>mp_stateMachine := Some m1, mp_dm := dm1\<rparr>)"
  have s2: "mp_stateMachine ?p2 = Some m1" "mp_stateMachine (?p2\<lparr>mp_connected := True\<rparr>) = Some m1" by simp_all
  obtain ok2 m2 dm2 where t2: "mp_transitionTo (clock 2) State_Error ?p2 =
      Some (ok2, ?p2\<lparr>mp_stateMachine := Some m2, mp_dm := dm2\<rparr>)" "csm_deviceId m2 = csm_deviceId m1"
    using mp_transitionTo_eq [OF s2(1)] by blast
  obtain ok3 m3 dm3 where t3: "mp_transitionTo (clock 2) State_Connected (?p2\<lparr>mp_connected := True\<rparr>) =
      Some (ok3, ?p2\<lparr>mp_connected := True, mp_stateMachine := Some m3, mp_dm := dm3\<rparr>)"
      "csm_deviceId m3 = csm_deviceId m1" "csm_state m3 = (if ok3 then State_Connected else csm_state m1)"
    using mp_transitionTo_eq [OF s2(2)] by blast
  show ?thesis
    using False assms(2) m n t1 t2 t3
    by (cases ok; cases "mr_connect lib"; cases ok3)
      (simp_all add: connectTransport_def Let_def mp_recordFailure_def mp_resetBackoff_def mp_inv_def
        backoff_wf_recordFailure backoff_wf_reset)
qed

lemma checkTimeout_keeps:
  assumes "checkTimeout now (m, dm) = (r, m', dm')"
  shows "csm_deviceId m' = csm_deviceId m" and "\<not> r \<Longrightarrow> m' = m \<and> dm' = dm"
proof -
  have "(m', dm') = (if r then snd (transitionTo now State_Timeout (m, dm)) else (m, dm))"
    using checkTimeout_unfold [of now "(m, dm)"] assms by simp
  then show "csm_deviceId m' = csm_deviceId m" "\<not> r \<Longrightarrow> m' = m \<and> dm' = dm"
    using transitionTo_frame(1) [of now State_Timeout "(m, dm)"] by (cases r; auto; metis fst_conv)+
qed

lemma markActivity_keeps:
  "markActivity now (m, dm) = (r, m', dm') \<Longrightarrow> csm_deviceId m' = csm_deviceId m \<and> csm_state m' = csm_state m \<and> dm' = dm"
  by (auto simp: markActivity_def split: if_splits)

lemma pollConnected_total:
  assumes "mp_inv p" and "mp_connected p"
  shows "\<exists>ok p'. pollConnected fp lib clock wall mark p = Some (ok, p') \<and> mp_inv p' \<and> mp_context p' \<and>
    mp_config p' = mp_config p"
proof -
  obtain m b where m: "mp_context p" "mp_stateMachine p = Some m" "mp_backoff p = Some b" "backoff_wf b"
    "csm_deviceId m = mc_deviceId (mp_config p)" "csm_state m = State_Connected"
    "count_list (mp_calls p) Mb_new = Suc (count_list (mp_calls p) Mb_free)"
    using assms by (auto simp: mp_inv_def split: if_splits)
  obtain a r dm1 where t: "pollTags fp lib wall (mc_deviceId (mp_config p)) 0 (mc_tags (mp_config p)) (True, False, mp_dm p) =
      (a, r, dm1)" by (metis prod_cases3)
  obtain o1 m1 dm2 where a: "markActivity (clock 4) (m, dm1) = (o1, m1, dm2)" by (metis prod_cases3)
  obtain o2 m2 dm3 where c: "checkTimeout (clock 4) (m, dm1) = (o2, m2, dm3)" by (metis prod_cases3)
  show ?thesis
    using assms(2) m markActivity_keeps [OF a] checkTimeout_keeps [OF c]
    by (cases r; cases o2)
      (simp_all add: pollConnected_def t a c mp_recordFailure_def mp_inv_def backoff_wf_recordFailure)
qed

lemma pollOnce_total:
  assumes "mp_inv p"
  shows "\<exists>ok p'. pollOnce fp lib clock wall mark p = Some (ok, p') \<and> mp_inv p' \<and> mp_config p' = mp_config p"
proof (cases "mp_connected p")
  case True
  then show ?thesis using pollConnected_total [OF assms True, of fp lib clock wall mark] by (auto simp: pollOnce_def)
next
  case False
  show ?thesis
  proof (cases "mp_backoff p")
    case None
    then show ?thesis using False assms by (auto simp: pollOnce_def)
  next
    case (Some b)
    then have "mp_context p" using assms by (auto simp: mp_inv_def split: if_splits)
    from connectTransport_total [OF assms this, of lib clock mark] obtain p1 where
      p1: "connectTransport lib clock mark p = Some (mp_connected p1, p1)" "mp_inv p1" "mp_config p1 = mp_config p"
      by blast
    show ?thesis
      using False Some assms p1 pollConnected_total [OF p1(2), of fp lib clock wall mark]
      by (cases "canRetry (clock 0) b"; cases "mp_connected p1") (auto simp: pollOnce_def)
  qed
qed

lemma modbus_start_total:
  assumes "mp_inv p"
  shows "\<exists>ok p'. modbus_start fp lib clock wall mark p = Some (ok, p') \<and> mp_inv p' \<and> mp_config p' = mp_config p"
proof (cases "mp_connected p")
  case True
  then show ?thesis using assms by (auto simp: modbus_start_def)
next
  case False
  obtain p1 where p1: "(if mp_context p then Some (True, p) else modbus_initialize lib (clock 0) p) = Some (mp_context p1, p1)"
    "mp_inv p1" "mp_config p1 = mp_config p"
    using assms modbus_initialize_total [OF assms, of lib "clock 0"] by (cases "mp_context p") auto
  show ?thesis
  proof (cases "mp_context p1")
    case ctx: True
    obtain b where b: "mp_backoff p1 = Some b" using p1(2) ctx by (auto simp: mp_inv_def)
    obtain p2 where p2: "connectTransport lib clock mark p1 = Some (mp_connected p2, p2)" "mp_inv p2" "mp_config p2 = mp_config p1"
      using connectTransport_total [OF p1(2) ctx, of lib clock mark] by blast
    show ?thesis
      using False ctx b p1 p2 pollOnce_total [OF p2(2), of fp lib clock wall mark]
      by (cases "canRetry (clock 0) b"; cases "mp_connected p2") (auto simp: modbus_start_def)
  qed (use False p1 in \<open>auto simp: modbus_start_def\<close>)
qed

lemma modbus_stop_inv:
  assumes "mp_inv p"
  shows "mp_inv (modbus_stop now mark p)" and "\<not> mp_connected (modbus_stop now mark p)"
    and "mp_config (modbus_stop now mark p) = mp_config p" and "mp_context (modbus_stop now mark p) = mp_context p"
proof -
  have frame: "csm_deviceId (fst (snd (transitionTo now State_Disconnected (m, dm)))) = csm_deviceId m" for m dm
    by simp
  show "mp_inv (modbus_stop now mark p)" "\<not> mp_connected (modbus_stop now mark p)"
    "mp_config (modbus_stop now mark p) = mp_config p" "mp_context (modbus_stop now mark p) = mp_context p"
    using assms frame
    by (auto simp: modbus_stop_def mp_inv_def Let_def case_prod_beta backoff_wf_reset split: option.splits if_splits)
qed

subsection \<open>Any sequence of calls\<close>

text \<open>What happens to a plugin: the calls of its owner, and changes of the device manager by others.\<close>

datatype mp_event =
    Mp_initialize modbus_results mono_time
  | Mp_start modbus_results "nat \<Rightarrow> mono_time" "nat \<Rightarrow> wall_time" wall_time
  | Mp_poll modbus_results "nat \<Rightarrow> mono_time" "nat \<Rightarrow> wall_time" wall_time
  | Mp_stop mono_time wall_time
  | Mp_devices device_manager

fun mp_apply :: "fp_ops \<Rightarrow> mp_event \<Rightarrow> modbus_plugin \<Rightarrow> modbus_plugin option" where
  "mp_apply fp (Mp_initialize lib now) p = map_option snd (modbus_initialize lib now p)"
| "mp_apply fp (Mp_start lib clock wall mark) p = map_option snd (modbus_start fp lib clock wall mark p)"
| "mp_apply fp (Mp_poll lib clock wall mark) p = map_option snd (pollOnce fp lib clock wall mark p)"
| "mp_apply fp (Mp_stop now mark) p = Some (modbus_stop now mark p)"
| "mp_apply fp (Mp_devices dm) p = Some (p\<lparr>mp_dm := dm\<rparr>)"

fun mp_run :: "fp_ops \<Rightarrow> mp_event list \<Rightarrow> modbus_plugin \<Rightarrow> modbus_plugin option" where
  "mp_run fp [] p = Some p"
| "mp_run fp (e # es) p = Option.bind (mp_apply fp e p) (mp_run fp es)"

lemma mp_apply_total: "mp_inv p \<Longrightarrow> \<exists>p'. mp_apply fp e p = Some p' \<and> mp_inv p'"
proof (cases e)
  case (Mp_initialize lib now)
  then show "mp_inv p \<Longrightarrow> ?thesis" using modbus_initialize_total [of p lib now] by auto
next
  case (Mp_start lib clock wall mark)
  then show "mp_inv p \<Longrightarrow> ?thesis" using modbus_start_total [of p fp lib clock wall mark] by auto
next
  case (Mp_poll lib clock wall mark)
  then show "mp_inv p \<Longrightarrow> ?thesis" using pollOnce_total [of p fp lib clock wall mark] by auto
qed (auto simp: modbus_stop_inv, auto simp: mp_inv_def split: if_splits)

lemma mp_run_total: "mp_inv p \<Longrightarrow> \<exists>p'. mp_run fp es p = Some p' \<and> mp_inv p'"
proof (induction es arbitrary: p)
  case (Cons e es)
  then show ?case using mp_apply_total [of p fp e] by auto
qed simp

text \<open>
  C34. Whatever the owner calls in whatever order, whatever libmodbus answers and whatever others do to the device
  manager, the plugin never dereferences a null state machine or backoff and no constructor throws; a plugin that
  says it is connected has its state machine in \<open>Connected\<close>; and the destructor frees every context that was
  created exactly once.
\<close>

theorem modbus_lifecycle_safe:
  "\<exists>p. mp_run fp es (new_modbus_plugin dm config) = Some p \<and> mp_inv p \<and>
     (let q = modbus_destroy now mark p in
      \<not> mp_connected q \<and> count_list (mp_calls q) Mb_new = count_list (mp_calls q) Mb_free)"
proof -
  obtain p where p: "mp_run fp es (new_modbus_plugin dm config) = Some p" "mp_inv p"
    using mp_run_total [OF mp_inv_new] by blast
  from modbus_stop_inv [OF p(2), of now mark] p(2) have
    "\<not> mp_connected (modbus_destroy now mark p) \<and>
     count_list (mp_calls (modbus_destroy now mark p)) Mb_new = count_list (mp_calls (modbus_destroy now mark p)) Mb_free"
    by (auto simp: modbus_destroy_def Let_def mp_inv_def)
  with p show ?thesis by auto
qed

lemma polled_unanswered:
  "\<not> answered lib i t \<Longrightarrow> tag_quality (polled_tag fp lib wall i t) = Quality_Timeout"
  by (simp add: answered_def polled_tag_def Let_def case_prod_beta)

lemma polled_good:
  "tag_quality (polled_tag fp lib wall i t) = Quality_Good \<longleftrightarrow>
     answered lib i t \<and> (\<exists>v. tag_val (polled_tag fp lib wall i t) = Val_Double v)"
  by (auto simp: answered_def polled_tag_def Let_def case_prod_beta split: option.splits)

lemma checkTimeout_tags: "checkTimeout now (m, dm) = (r, m', dm') \<Longrightarrow> lookupTag dm' k n = lookupTag dm k n"
proof -
  assume c: "checkTimeout now (m, dm) = (r, m', dm')"
  have "lookupTag (snd (updateConnectionState k' s dm)) k n = lookupTag dm k n" for k' s
    by (cases "findDevice dm k'") (auto simp: lookupTag_def updateConnectionState_find findTag_def)
  moreover have "snd (snd (transitionTo now State_Timeout (m, dm))) = dm \<or>
      (\<exists>k' s. snd (snd (transitionTo now State_Timeout (m, dm))) = snd (updateConnectionState k' s dm))"
    by (cases rule: transitionTo_cases [of State_Timeout m now dm]) auto
  moreover have "dm' = (if r then snd (snd (transitionTo now State_Timeout (m, dm))) else dm)"
    using checkTimeout_unfold [of now "(m, dm)"] c by (cases r; auto; metis snd_conv)
  ultimately show ?thesis by auto
qed


text \<open>A connected plugin with one 16-bit tag whose read is answered with 42.\<close>

definition demo_fp :: fp_ops where
  "demo_fp = \<lparr>fp_of_int = word_of_int, fp_of_float = ucast, fp_mul = (\<lambda>a b. a), fp_add = (\<lambda>a b. a)\<rparr>"

definition demo_tag_config :: modbus_tag_config where
  "demo_tag_config = \<lparr>mt_name = ''t'', mt_registerAddress = 0, mt_dataType = Mb_UInt16,
     mt_scale = 0x3FF0000000000000, mt_offset = 0\<rparr>"

definition demo_config :: modbus_tcp_config where
  "demo_config = \<lparr>mc_host = ''h'', mc_port = 1502, mc_slaveId = 1, mc_communicationTimeoutMs = 3000,
     mc_reconnectInitialDelayMs = 500, mc_reconnectMaximumDelayMs = 30000, mc_deviceId = ''d'', mc_deviceName = ''D'',
     mc_tags = [demo_tag_config]\<rparr>"

definition demo_plugin :: modbus_plugin where
  "demo_plugin = \<lparr>mp_config = demo_config, mp_dm = [(''d'', default_device\<lparr>dev_id := ''d'', dev_state := State_Connected\<rparr>)],
     mp_stateMachine = Some \<lparr>csm_deviceId = ''d'', csm_timeout = 3000, csm_lastActivity = 0, csm_state = State_Connected\<rparr>,
     mp_backoff = Some \<lparr>bo_initialDelay = 500, bo_maximumDelay = 30000, bo_nextDelay = 500, bo_retryAt = 0,
       bo_failureCount = 0\<rparr>, mp_context = True, mp_connected = True, mp_calls = [Mb_new, Mb_connect]\<rparr>"

definition demo_lib :: modbus_results where
  "demo_lib = \<lparr>mr_new_tcp = True, mr_set_slave = True, mr_connect = True, mr_read = (\<lambda>i a n. (n, 42, 0))\<rparr>"


text \<open>
  Registers are combined high word first: a 32-bit tag reads \<open>65536 * r0 + r1\<close>, signed types as two's
  complement of their width; a reading is refused exactly when the raw or the scaled number is not finite.
\<close>

theorem modbus_decode_spec:
  "modbus_decodeValue fp (r0, r1) c =
     (let raw = (case mt_dataType c of
            Mb_UInt16 \<Rightarrow> fp_of_int fp (uint r0)
          | Mb_Int16 \<Rightarrow> fp_of_int fp (signed_of 16 (uint r0))
          | Mb_UInt32 \<Rightarrow> fp_of_int fp (65536 * uint r0 + uint r1)
          | Mb_Int32 \<Rightarrow> fp_of_int fp (signed_of 32 (65536 * uint r0 + uint r1))
          | Mb_Float32 \<Rightarrow> fp_of_float fp (word_of_int (65536 * uint r0 + uint r1)));
        v = fp_add fp (fp_mul fp raw (mt_scale c)) (mt_offset c)
      in if isfinite raw \<and> isfinite v then Some v else None)"
proof -
  have "combine_words r0 r1 = word_of_int (65536 * uint r0 + uint r1)"
    by (metis uint_combine_words word_of_int_uint mult.commute)
  moreover have "uint (combine_words r0 r1) = 65536 * uint r0 + uint r1"
    by (simp add: uint_combine_words)
  ultimately show ?thesis
    by (cases "mt_dataType c") (simp_all add: modbus_decodeValue_def sint_signed_of Let_def)
qed

subsection \<open>The RTU transport\<close>

definition rtu_inv :: "modbus_rtu \<Rightarrow> bool" where
  "rtu_inv t \<longleftrightarrow> (rtu_connected t \<longrightarrow> rtu_context t \<and> rtu_validateConfig t) \<and>
     count_list (rtu_calls t) Mb_new = count_list (rtu_calls t) Mb_free + (if rtu_context t then 1 else 0)"

lemma rtu_inv_new: "rtu_inv (new_rtu c)"
  by (simp add: rtu_inv_def new_rtu_def)

lemma rtu_inv_connect: "rtu_inv t \<Longrightarrow> rtu_inv (snd (rtu_connect a b c t))"
  by (auto simp: rtu_inv_def rtu_connect_def rtu_log_def rtu_validateConfig_def Let_def split: if_splits)

lemma rtu_inv_disconnect: "rtu_inv t \<Longrightarrow> rtu_inv (rtu_disconnect t) \<and> \<not> rtu_connected (rtu_disconnect t)"
  by (auto simp: rtu_inv_def rtu_disconnect_def rtu_log_def rtu_validateConfig_def)

lemma rtu_destroy_frees:
  "rtu_inv t \<Longrightarrow> count_list (rtu_calls (rtu_destroy t)) Mb_new = count_list (rtu_calls (rtu_destroy t)) Mb_free"
  using rtu_inv_disconnect [of t] by (auto simp: rtu_destroy_def rtu_inv_def Let_def rtu_log_def)

text \<open>
  \<open>readHoldingRegisters\<close> asks libmodbus only for 1 to 125 registers inside the 16-bit address space, and a
  successful read returns exactly as many registers as asked for.
\<close>

theorem rtu_read_in_range:
  assumes "readHoldingRegisters rd address count t = Some regs"
  shows "rtu_connected t \<and> 0 \<le> address \<and> 1 \<le> count \<and> count \<le> 125 \<and> address + count \<le> 65536 \<and>
    fst (rd address count) = count \<and> int (length regs) = count"
  using assms by (auto simp: readHoldingRegisters_def case_prod_beta split: if_splits)

theorem rtu_read_in_range_witness:
  "let t = new_rtu \<lparr>rc_serialDevice = ''/dev/ttyS0'', rc_baudRate = 9600, rc_parity = CHR ''N'', rc_dataBits = 8,
         rc_stopBits = 1, rc_slaveId = 1\<rparr>;
       t' = snd (rtu_connect True True True t)
   in readHoldingRegisters (\<lambda>a n. (n, [7, 8])) 65534 2 t' = Some [7, 8] \<and> rtu_connected t'"
proof -
  let ?t' = "snd (rtu_connect True True True (new_rtu \<lparr>rc_serialDevice = ''/dev/ttyS0'', rc_baudRate = 9600,
      rc_parity = CHR ''N'', rc_dataBits = 8, rc_stopBits = 1, rc_slaveId = 1\<rparr>))"
  have "readHoldingRegisters (\<lambda>a n. (n, [7, 8])) 65534 2 ?t' = Some [7, 8]"
    by (simp add: readHoldingRegisters_def rtu_connect_def rtu_validateConfig_def new_rtu_def rtu_log_def)
  from rtu_read_in_range [OF this] this show ?thesis by simp
qed

end
