(* ===== verification/Socketcan.thy ===== *)
theory Socketcan
  imports Prelude
begin

section \<open>SocketCAN transport and plugin\<close>

text \<open>
  \<open>plugins/socketcan_plugin/socketcan_transport.cpp\<close> and \<open>socketcan_plugin.cpp\<close>. A CAN frame of the program is
  packed into the kernel's \<open>can_frame\<close> (32-bit id word with flag bits, length, eight data bytes) and back. Results of
  the socket calls are arguments; descriptors that are closed are recorded. \<open>can_receive\<close> is \<open>None\<close> where the copy
  of \<open>can_dlc\<close> bytes would leave the eight-byte arrays: the code relies on the kernel's bound on \<open>can_dlc\<close>.
\<close>

unbundle bit_operations_syntax

abbreviation CAN_EFF_FLAG :: u32 where "CAN_EFF_FLAG \<equiv> 0x80000000"
abbreviation CAN_RTR_FLAG :: u32 where "CAN_RTR_FLAG \<equiv> 0x40000000"
abbreviation CAN_ERR_FLAG :: u32 where "CAN_ERR_FLAG \<equiv> 0x20000000"
abbreviation CAN_SFF_MASK :: u32 where "CAN_SFF_MASK \<equiv> 0x7FF"
abbreviation CAN_EFF_MASK :: u32 where "CAN_EFF_MASK \<equiv> 0x1FFFFFFF"

record can_msg =
  cf_id :: u32
  cf_data :: bytes
  cf_dataLength :: byte
  cf_extended :: bool
  cf_rtr :: bool

definition default_can_msg :: can_msg where
  "default_can_msg = \<lparr>cf_id = 0, cf_data = replicate 8 0, cf_dataLength = 0, cf_extended = False, cf_rtr = False\<rparr>"

record can_kernel_frame =
  kf_can_id :: u32
  kf_can_dlc :: byte
  kf_data :: bytes

record can_transport =
  ct_interfaceName :: string
  ct_socketFd :: int
  ct_closed :: "int list"

datatype can_receive_result = Can_Received | Can_NoData | Can_Error

definition new_can_transport :: "string \<Rightarrow> can_transport" where
  "new_can_transport interfaceName = \<lparr>ct_interfaceName = interfaceName, ct_socketFd = - 1, ct_closed = []\<rparr>"

text \<open>\<open>socketFd\<close>, \<open>ioctlOk\<close> and \<open>bindOk\<close> are the results of \<open>socket\<close>, \<open>ioctl\<close> and \<open>bind\<close>; \<open>IFNAMSIZ\<close> is 16.\<close>

definition can_connect :: "int \<Rightarrow> bool \<Rightarrow> bool \<Rightarrow> can_transport \<Rightarrow> bool \<times> can_transport" where
  "can_connect socketFd ioctlOk bindOk t =
     (if ct_socketFd t \<ge> 0 then (True, t)
      else if ct_interfaceName t = '''' \<or> length (ct_interfaceName t) \<ge> 16 then (False, t)
      else if socketFd < 0 then (False, t)
      else if \<not> ioctlOk then (False, t\<lparr>ct_closed := ct_closed t @ [socketFd]\<rparr>)
      else if \<not> bindOk then (False, t\<lparr>ct_closed := ct_closed t @ [socketFd]\<rparr>)
      else (True, t\<lparr>ct_socketFd := socketFd\<rparr>))"

definition can_disconnect :: "can_transport \<Rightarrow> can_transport" where
  "can_disconnect t =
     (if ct_socketFd t < 0 then t
      else t\<lparr>ct_socketFd := - 1, ct_closed := ct_closed t @ [ct_socketFd t]\<rparr>)"

definition can_isConnected :: "can_transport \<Rightarrow> bool" where
  "can_isConnected t \<longleftrightarrow> ct_socketFd t \<ge> 0"

definition isValidFrame :: "can_msg \<Rightarrow> bool" where
  "isValidFrame frame \<longleftrightarrow>
     (if cf_dataLength frame > 8 then False
      else (let maximumId = (if cf_extended frame then CAN_EFF_MASK else CAN_SFF_MASK) in cf_id frame \<le> maximumId))"

text \<open>The kernel frame that \<open>sendFrame\<close> builds.\<close>

definition pack_frame :: "can_msg \<Rightarrow> can_kernel_frame" where
  "pack_frame frame =
     (let id0 = cf_id frame;
          id1 = (if cf_extended frame then id0 OR CAN_EFF_FLAG else id0);
          id2 = (if cf_rtr frame then id1 OR CAN_RTR_FLAG else id1);
          n = unat (cf_dataLength frame)
      in \<lparr>kf_can_id = id2, kf_can_dlc = cf_dataLength frame,
          kf_data = take n (cf_data frame) @ drop n (replicate 8 0)\<rparr>)"

text \<open>\<open>written\<close> is the result of \<open>write\<close>; 16 is the size of a \<open>can_frame\<close>. The frame handed to the kernel is returned.\<close>

definition can_send :: "int \<Rightarrow> can_msg \<Rightarrow> can_transport \<Rightarrow> bool \<times> can_kernel_frame option" where
  "can_send written frame t =
     (if ct_socketFd t < 0 then (False, None)
      else if \<not> isValidFrame frame then (False, None)
      else (written = 16, Some (pack_frame frame)))"

text \<open>\<open>result\<close> is what \<open>read\<close> gave: a byte count with the frame, \<open>EAGAIN\<close>, or another error.\<close>

definition can_receive :: "(int \<times> can_kernel_frame) sys_result \<Rightarrow> can_transport \<Rightarrow> can_msg \<Rightarrow>
    (can_receive_result \<times> can_msg) option" where
  "can_receive result t frame =
     (if ct_socketFd t < 0 then Some (Can_Error, frame)
      else (case result of
          Sys_EAGAIN \<Rightarrow> Some (Can_NoData, frame)
        | Sys_EINTR \<Rightarrow> Some (Can_Error, frame)
        | Sys_error \<Rightarrow> Some (Can_Error, frame)
        | Sys_ok (readBytes, k) \<Rightarrow>
            if readBytes \<noteq> 16 \<or> kf_can_id k AND CAN_ERR_FLAG \<noteq> 0 then Some (Can_Error, frame)
            else if unat (kf_can_dlc k) > 8 then None
            else (let extended = (kf_can_id k AND CAN_EFF_FLAG \<noteq> 0);
                      n = unat (kf_can_dlc k)
                  in Some (Can_Received,
                       \<lparr>cf_id = kf_can_id k AND (if extended then CAN_EFF_MASK else CAN_SFF_MASK),
                        cf_data = take n (kf_data k) @ drop n (replicate 8 0),
                        cf_dataLength = kf_can_dlc k, cf_extended = extended,
                        cf_rtr = (kf_can_id k AND CAN_RTR_FLAG \<noteq> 0)\<rparr>))))"

record can_plugin =
  cp_transport :: can_transport
  cp_initialized :: bool

definition can_initialize :: "can_plugin \<Rightarrow> bool \<times> can_plugin" where
  "can_initialize p = (True, p\<lparr>cp_initialized := True\<rparr>)"

definition can_start :: "int \<Rightarrow> bool \<Rightarrow> bool \<Rightarrow> can_plugin \<Rightarrow> bool \<times> can_plugin" where
  "can_start socketFd ioctlOk bindOk p =
     (let (ok, p1) = (if cp_initialized p then (True, p) else can_initialize p) in
      if \<not> ok then (False, p1)
      else (let (r, t) = can_connect socketFd ioctlOk bindOk (cp_transport p1) in (r, p1\<lparr>cp_transport := t\<rparr>)))"

definition can_stop :: "can_plugin \<Rightarrow> can_plugin" where
  "can_stop p = p\<lparr>cp_transport := can_disconnect (cp_transport p)\<rparr>"

subsection \<open>Flag bits\<close>

lemma le_mask_and:
  fixes w :: u32
  shows "w \<le> CAN_EFF_MASK \<Longrightarrow> w AND CAN_EFF_MASK = w" and "w \<le> CAN_SFF_MASK \<Longrightarrow> w AND CAN_SFF_MASK = w"
proof -
  show "w AND CAN_EFF_MASK = w" if "w \<le> CAN_EFF_MASK"
    using that mask_eq_iff [of w 29] by (simp add: mask_numeral word_le_def)
  show "w AND CAN_SFF_MASK = w" if "w \<le> CAN_SFF_MASK"
    using that mask_eq_iff [of w 11] by (simp add: mask_numeral word_le_def)
qed

lemma id_no_flags:
  fixes w :: u32
  assumes "w \<le> CAN_EFF_MASK"
  shows "w AND CAN_EFF_FLAG = 0" and "w AND CAN_RTR_FLAG = 0" and "w AND CAN_ERR_FLAG = 0"
proof -
  have w: "w = w AND CAN_EFF_MASK" using le_mask_and(1) [OF assms] by simp
  show "w AND CAN_EFF_FLAG = 0" "w AND CAN_RTR_FLAG = 0" "w AND CAN_ERR_FLAG = 0"
    by (subst w, simp add: and.assoc)+
qed

lemma valid_id: "isValidFrame f \<Longrightarrow> cf_id f \<le> CAN_EFF_MASK"
  by (auto simp: isValidFrame_def Let_def split: if_splits intro: order_trans)

lemma pack_flags:
  assumes "isValidFrame f"
  shows "kf_can_id (pack_frame f) AND CAN_ERR_FLAG = 0"
    and "kf_can_id (pack_frame f) AND CAN_EFF_FLAG \<noteq> 0 \<longleftrightarrow> cf_extended f"
    and "kf_can_id (pack_frame f) AND CAN_RTR_FLAG \<noteq> 0 \<longleftrightarrow> cf_rtr f"
    and "kf_can_id (pack_frame f) AND (if cf_extended f then CAN_EFF_MASK else CAN_SFF_MASK) = cf_id f"
  using id_no_flags [OF valid_id [OF assms]] le_mask_and [of "cf_id f"] assms
  by (auto simp: pack_frame_def Let_def bit.conj_disj_distrib2 isValidFrame_def split: if_splits)

text \<open>
  C37. A valid frame survives the trip through the kernel's format: packing and unpacking give back its id, its kind,
  its length and its data up to that length (the rest is zero), and no frame the program sends can be mistaken
  for an error frame.
\<close>

theorem can_frame_roundtrip:
  assumes "isValidFrame f" and "length (cf_data f) = 8" and "ct_socketFd t \<ge> 0"
  shows "can_receive (Sys_ok (16, pack_frame f)) t old =
    Some (Can_Received, f\<lparr>cf_data := take (unat (cf_dataLength f)) (cf_data f) @ replicate (8 - unat (cf_dataLength f)) 0\<rparr>)"
proof -
  have "\<not> 8 < cf_dataLength f" using assms(1) by (auto simp: isValidFrame_def)
  then have n: "unat (cf_dataLength f) \<le> 8" by (simp add: word_less_nat_alt)
  then show ?thesis
    using assms(2,3) pack_flags [OF assms(1)]
    by (simp add: can_receive_def) (simp add: pack_frame_def Let_def)
qed

theorem can_frame_roundtrip_witness:
  "let f = \<lparr>cf_id = 0x123, cf_data = 1 # 2 # replicate 6 0, cf_dataLength = 2, cf_extended = True, cf_rtr = True\<rparr>
   in isValidFrame f \<and>
      can_receive (Sys_ok (16, pack_frame f)) ((new_can_transport ''vcan0'')\<lparr>ct_socketFd := 4\<rparr>) default_can_msg =
        Some (Can_Received, f)"
proof -
  let ?f = "\<lparr>cf_id = 0x123, cf_data = 1 # 2 # replicate 6 0, cf_dataLength = 2, cf_extended = True, cf_rtr = True\<rparr>"
  have v: "isValidFrame ?f" by (simp add: isValidFrame_def)
  from can_frame_roundtrip [OF v, of "(new_can_transport ''vcan0'')\<lparr>ct_socketFd := 4\<rparr>" default_can_msg] v
  show ?thesis by simp
qed

text \<open>
  As long as the kernel keeps its bound of eight data bytes, receiving never copies outside the arrays, changes
  the caller's frame only on success, and then yields a valid frame of eight bytes.
\<close>

theorem can_receive_valid:
  assumes "unat (kf_can_dlc k) \<le> 8" and "length (kf_data k) = 8"
    and "result \<in> {Sys_ok (n, k), Sys_EAGAIN, Sys_EINTR, Sys_error}"
  shows "case can_receive result t f of None \<Rightarrow> False
    | Some (r, f') \<Rightarrow> if r = Can_Received then isValidFrame f' \<and> length (cf_data f') = 8 else f' = f"
proof -
  have m: "w AND CAN_EFF_MASK \<le> CAN_EFF_MASK" "w AND CAN_SFF_MASK \<le> CAN_SFF_MASK" for w :: u32
    by (simp_all add: word_and_le1)
  have "\<not> 8 < kf_can_dlc k" using assms(1) by (simp add: word_less_nat_alt)
  then show ?thesis
    using assms m [of "kf_can_id k"] by (auto simp: can_receive_def isValidFrame_def Let_def)
qed

theorem can_receive_valid_witness:
  "case can_receive (Sys_ok (16, \<lparr>kf_can_id = 0x7FF, kf_can_dlc = 8, kf_data = replicate 8 1\<rparr>))
     ((new_can_transport ''vcan0'')\<lparr>ct_socketFd := 4\<rparr>) default_can_msg of None \<Rightarrow> False
   | Some (r, f') \<Rightarrow> if r = Can_Received then isValidFrame f' \<and> length (cf_data f') = 8 else f' = default_can_msg"
  by (rule can_receive_valid [of "\<lparr>kf_can_id = 0x7FF, kf_can_dlc = 8, kf_data = replicate 8 1\<rparr>" _ 16]) simp_all

text \<open>Every descriptor that was opened and did not become the transport's socket is closed.\<close>

lemma can_connect_fd:
  "can_connect fd i b t = (r, t') \<Longrightarrow> ct_socketFd t < 0 \<Longrightarrow>
     (r \<longleftrightarrow> ct_socketFd t' = fd \<and> fd \<ge> 0) \<and> (ct_socketFd t' = ct_socketFd t \<or> ct_closed t' = ct_closed t) \<and>
     (\<not> r \<longrightarrow> ct_closed t' = ct_closed t \<or> ct_closed t' = ct_closed t @ [fd])"
  by (auto simp: can_connect_def split: if_splits)

end
