(* ===== verification/Plugin_Manager.thy ===== *)
theory Plugin_Manager
  imports Prelude
begin

section \<open>The plugin manager\<close>

text \<open>
  \<open>src/plugin_manager.cpp\<close>. A loaded plugin is a library handle, an instance and a started flag, kept under the
  plugin's name. The dynamic linker and the plugins are not part of this component: what they answer is an argument,
  what the manager does to them is the trace \<open>pm_trace\<close>. A library may be opened twice with the same handle and an
  instance address may be reused, so resources are counted. The entries of the map never hold null pointers
  (\<open>loadPlugin\<close> checks them before it emplaces), so the null checks of \<open>unloadPlugin\<close> always succeed.
\<close>

datatype pl_event =
    Pl_dlopen nat | Pl_dlclose nat | Pl_create nat | Pl_destroy nat | Pl_started nat | Pl_stop nat

record loaded_plugin =
  lp_handle :: nat
  lp_instance :: nat
  lp_path :: string
  lp_started :: bool

record plugin_manager =
  pm_plugins :: "(string, loaded_plugin) umap"
  pm_trace :: "pl_event list"

definition new_plugin_manager :: plugin_manager where
  "new_plugin_manager = \<lparr>pm_plugins = [], pm_trace = []\<rparr>"

definition pm_log :: "pl_event list \<Rightarrow> plugin_manager \<Rightarrow> plugin_manager" where
  "pm_log es pm = pm\<lparr>pm_trace := pm_trace pm @ es\<rparr>"

definition pm_put :: "string \<Rightarrow> loaded_plugin \<Rightarrow> plugin_manager \<Rightarrow> plugin_manager" where
  "pm_put name lp pm = pm\<lparr>pm_plugins := um_set name lp (pm_plugins pm)\<rparr>"

text \<open>The answers \<open>loadPlugin\<close> gets; \<open>None\<close> is a null pointer. A C string has no NUL inside.\<close>

record load_results =
  lr_dlopen :: "nat option"
  lr_createPlugin :: bool
  lr_destroyPlugin :: bool
  lr_instance :: "nat option"
  lr_name :: "string option"
  lr_initialize :: bool

definition loadPlugin :: "load_results \<Rightarrow> string \<Rightarrow> plugin_manager \<Rightarrow> bool \<times> plugin_manager" where
  "loadPlugin res path pm =
     (if path = '''' then (False, pm)
      else (case lr_dlopen res of
        None \<Rightarrow> (False, pm)
      | Some handle \<Rightarrow>
          if \<not> lr_createPlugin res \<or> \<not> lr_destroyPlugin res then (False, pm_log [Pl_dlopen handle, Pl_dlclose handle] pm)
          else (case lr_instance res of
            None \<Rightarrow> (False, pm_log [Pl_dlopen handle, Pl_dlclose handle] pm)
          | Some inst \<Rightarrow>
              (let rejected = (False, pm_log [Pl_dlopen handle, Pl_create inst, Pl_destroy inst, Pl_dlclose handle] pm) in
               case lr_name res of
                 None \<Rightarrow> rejected
               | Some name \<Rightarrow>
                   if name = '''' then rejected
                   else if um_find (pm_plugins pm) name \<noteq> None then rejected
                   else if \<not> lr_initialize res then rejected
                   else (True, pm_log [Pl_dlopen handle, Pl_create inst]
                     (pm\<lparr>pm_plugins := um_emplace name
                        \<lparr>lp_handle = handle, lp_instance = inst, lp_path = path, lp_started = False\<rparr> (pm_plugins pm)\<rparr>))))))"

text \<open>\<open>closeOk\<close> says whether \<open>dlclose\<close> of a handle succeeds.\<close>

definition unloadPlugin :: "(nat \<Rightarrow> bool) \<Rightarrow> string \<Rightarrow> plugin_manager \<Rightarrow> bool \<times> plugin_manager" where
  "unloadPlugin closeOk name pm =
     (case um_find (pm_plugins pm) name of
        None \<Rightarrow> (False, pm)
      | Some lp \<Rightarrow>
          (let pm1 = (if lp_started lp
                      then pm_put name (lp\<lparr>lp_started := False\<rparr>) (pm_log [Pl_stop (lp_instance lp)] pm) else pm);
               pm2 = pm_log [Pl_destroy (lp_instance lp), Pl_dlclose (lp_handle lp)] pm1
           in (closeOk (lp_handle lp), pm2\<lparr>pm_plugins := um_erase name (pm_plugins pm2)\<rparr>)))"

definition getPlugin :: "string \<Rightarrow> plugin_manager \<Rightarrow> nat option" where
  "getPlugin name pm = map_option lp_instance (um_find (pm_plugins pm) name)"

definition hasPlugin :: "string \<Rightarrow> plugin_manager \<Rightarrow> bool" where
  "hasPlugin name pm \<longleftrightarrow> um_find (pm_plugins pm) name \<noteq> None"

text \<open>\<open>startOk\<close> says what an instance's \<open>start()\<close> returns; a start that fails is not recorded.\<close>

definition startPlugin :: "(nat \<Rightarrow> bool) \<Rightarrow> string \<Rightarrow> plugin_manager \<Rightarrow> bool \<times> plugin_manager" where
  "startPlugin startOk name pm =
     (case um_find (pm_plugins pm) name of
        None \<Rightarrow> (False, pm)
      | Some lp \<Rightarrow>
          if lp_started lp then (True, pm)
          else if \<not> startOk (lp_instance lp) then (False, pm)
          else (True, pm_put name (lp\<lparr>lp_started := True\<rparr>) (pm_log [Pl_started (lp_instance lp)] pm)))"

definition stopPlugin :: "string \<Rightarrow> plugin_manager \<Rightarrow> plugin_manager" where
  "stopPlugin name pm =
     (case um_find (pm_plugins pm) name of
        None \<Rightarrow> pm
      | Some lp \<Rightarrow>
          if \<not> lp_started lp then pm
          else pm_put name (lp\<lparr>lp_started := False\<rparr>) (pm_log [Pl_stop (lp_instance lp)] pm))"

text \<open>The loop of \<open>startAll\<close> over the keys of the map, with the names it has started so far.\<close>

fun startLoop :: "(nat \<Rightarrow> bool) \<Rightarrow> string list \<Rightarrow> string list \<Rightarrow> plugin_manager \<Rightarrow> bool \<times> plugin_manager" where
  "startLoop startOk startedPlugins [] pm = (True, pm)"
| "startLoop startOk startedPlugins (name # names) pm =
     (case um_find (pm_plugins pm) name of
        None \<Rightarrow> startLoop startOk startedPlugins names pm
      | Some lp \<Rightarrow>
          if lp_started lp then startLoop startOk startedPlugins names pm
          else if \<not> startOk (lp_instance lp) then (False, fold stopPlugin startedPlugins pm)
          else startLoop startOk (startedPlugins @ [name]) names
                 (pm_put name (lp\<lparr>lp_started := True\<rparr>) (pm_log [Pl_started (lp_instance lp)] pm)))"

definition startAll :: "(nat \<Rightarrow> bool) \<Rightarrow> plugin_manager \<Rightarrow> bool \<times> plugin_manager" where
  "startAll startOk pm = startLoop startOk [] (um_keys (pm_plugins pm)) pm"

definition stopAll :: "plugin_manager \<Rightarrow> plugin_manager" where
  "stopAll pm = fold stopPlugin (um_keys (pm_plugins pm)) pm"

lemma pm_log_plugins [simp]: "pm_plugins (pm_log es pm) = pm_plugins pm"
  by (simp add: pm_log_def)

lemma pm_put_plugins [simp]: "pm_plugins (pm_put n lp pm) = um_set n lp (pm_plugins pm)"
  by (simp add: pm_put_def)

lemma delete_update_self: "um_erase k (um_set k v m) = um_erase k m"
  by (induction m) auto

lemma unloadPlugin_plugins: "pm_plugins (snd (unloadPlugin c n pm)) = um_erase n (pm_plugins pm)"
  by (auto simp: unloadPlugin_def Let_def delete_update_self delete_notin_dom map_of_eq_None_iff split: option.splits)

text \<open>\<open>begin()->first\<close> is the first key of the list.\<close>

function unloadAll :: "(nat \<Rightarrow> bool) \<Rightarrow> plugin_manager \<Rightarrow> plugin_manager" where
  "unloadAll closeOk pm =
     (case pm_plugins pm of
        [] \<Rightarrow> pm
      | (name, lp) # _ \<Rightarrow> unloadAll closeOk (snd (unloadPlugin closeOk name pm)))"
  by pat_completeness auto
termination
proof (relation "measure (\<lambda>(c, pm). length (pm_plugins pm))")
  fix c and pm :: plugin_manager and x21 :: "string \<times> loaded_plugin" and x22 name lp
  assume e: "pm_plugins pm = x21 # x22" "(name, lp) = x21"
  have "length (um_erase name x22) \<le> length x22"
    by (simp add: AList.delete_eq)
  then show "((c, snd (unloadPlugin c name pm)), c, pm) \<in> measure (\<lambda>(c, pm). length (pm_plugins pm))"
    using e by (auto simp: unloadPlugin_plugins)
qed simp

declare unloadAll.simps [simp del]

subsection \<open>Resources are balanced\<close>

text \<open>
  For every handle, instance and running plugin: what was acquired was released, or is held by exactly as many
  entries of the map as are missing in the trace.
\<close>

definition pm_inv :: "plugin_manager \<Rightarrow> bool" where
  "pm_inv pm \<longleftrightarrow> um_wf (pm_plugins pm) \<and>
     (\<forall>h. count_list (pm_trace pm) (Pl_dlopen h) =
        count_list (pm_trace pm) (Pl_dlclose h) + um_count (\<lambda>lp. lp_handle lp = h) (pm_plugins pm)) \<and>
     (\<forall>i. count_list (pm_trace pm) (Pl_create i) =
        count_list (pm_trace pm) (Pl_destroy i) + um_count (\<lambda>lp. lp_instance lp = i) (pm_plugins pm)) \<and>
     (\<forall>i. count_list (pm_trace pm) (Pl_started i) =
        count_list (pm_trace pm) (Pl_stop i) + um_count (\<lambda>lp. lp_instance lp = i \<and> lp_started lp) (pm_plugins pm))"

lemma pm_trace_log [simp]: "pm_trace (pm_log es pm) = pm_trace pm @ es"
  by (simp add: pm_log_def)

lemma pm_trace_put [simp]: "pm_trace (pm_put n lp pm) = pm_trace pm"
  by (simp add: pm_put_def)

lemma pm_inv_new: "pm_inv new_plugin_manager"
  by (simp add: pm_inv_def new_plugin_manager_def)

lemma pm_inv_load: "pm_inv pm \<Longrightarrow> pm_inv (snd (loadPlugin res path pm))"
  by (auto simp: loadPlugin_def pm_inv_def Let_def um_count_emplace um_wf_emplace split: option.splits)

lemma pm_inv_flag:
  assumes inv: "pm_inv pm" and lp: "um_find (pm_plugins pm) n = Some lp" and flag: "lp_started lp = (\<not> s)"
  shows "pm_inv (pm_put n (lp\<lparr>lp_started := s\<rparr>)
    (pm_log [if s then Pl_started (lp_instance lp) else Pl_stop (lp_instance lp)] pm))"
proof -
  note c = um_count_set [OF lp, of _ "lp\<lparr>lp_started := s\<rparr>"]
  show ?thesis
    unfolding pm_inv_def
  proof (intro conjI allI)
    fix x
    let ?t = "pm_trace (pm_put n (lp\<lparr>lp_started := s\<rparr>)
        (pm_log [if s then Pl_started (lp_instance lp) else Pl_stop (lp_instance lp)] pm))"
      and ?m = "pm_plugins (pm_put n (lp\<lparr>lp_started := s\<rparr>)
        (pm_log [if s then Pl_started (lp_instance lp) else Pl_stop (lp_instance lp)] pm))"
    show "um_wf ?m" using inv by (simp add: pm_inv_def um_wf_set)
    show "count_list ?t (Pl_dlopen x) = count_list ?t (Pl_dlclose x) + um_count (\<lambda>lp. lp_handle lp = x) ?m"
      using inv c [of "\<lambda>lp. lp_handle lp = x"] by (cases s) (simp_all add: pm_inv_def)
    show "count_list ?t (Pl_create x) = count_list ?t (Pl_destroy x) + um_count (\<lambda>lp. lp_instance lp = x) ?m"
      using inv c [of "\<lambda>lp. lp_instance lp = x"] by (cases s) (simp_all add: pm_inv_def)
    show "count_list ?t (Pl_started x) =
        count_list ?t (Pl_stop x) + um_count (\<lambda>lp. lp_instance lp = x \<and> lp_started lp) ?m"
      using inv flag c [of "\<lambda>lp. lp_instance lp = x \<and> lp_started lp"]
      by (cases s; cases "lp_instance lp = x") (simp_all add: pm_inv_def)
  qed
qed

lemma pm_inv_stop: "pm_inv pm \<Longrightarrow> pm_inv (stopPlugin n pm)"
  using pm_inv_flag [of pm n _ False] by (auto simp: stopPlugin_def split: option.splits)

lemma pm_inv_start: "pm_inv pm \<Longrightarrow> pm_inv (snd (startPlugin ok n pm))"
  using pm_inv_flag [of pm n _ True] by (auto simp: startPlugin_def split: option.splits)

lemma pm_inv_fold_stop: "pm_inv pm \<Longrightarrow> pm_inv (fold stopPlugin ns pm)"
  by (induction ns arbitrary: pm) (simp_all add: pm_inv_stop)

lemma pm_inv_startLoop: "pm_inv pm \<Longrightarrow> pm_inv (snd (startLoop ok st ns pm))"
proof (induction ok st ns pm rule: startLoop.induct)
  case (2 ok st n ns pm)
  then show ?case
    using pm_inv_flag [of pm n _ True] by (auto simp: pm_inv_fold_stop split: option.splits)
qed simp

lemma unloadPlugin_stopped:
  assumes "um_find (pm_plugins pm) n = Some lp"
  shows "unloadPlugin c n pm =
    (c (lp_handle lp),
     (pm_log [Pl_destroy (lp_instance lp), Pl_dlclose (lp_handle lp)] (stopPlugin n pm))
       \<lparr>pm_plugins := um_erase n (pm_plugins (stopPlugin n pm))\<rparr>)"
  using assms by (simp add: unloadPlugin_def stopPlugin_def Let_def pm_put_def pm_log_def)

lemma pm_inv_unload:
  assumes "pm_inv pm" shows "pm_inv (snd (unloadPlugin c n pm))"
proof (cases "um_find (pm_plugins pm) n")
  case None
  then show ?thesis using assms by (simp add: unloadPlugin_def)
next
  case (Some lp)
  let ?pm = "stopPlugin n pm"
  have inv: "pm_inv ?pm" using assms by (rule pm_inv_stop)
  have lp: "um_find (pm_plugins ?pm) n = Some (lp\<lparr>lp_started := False\<rparr>)"
    using Some by (auto simp: stopPlugin_def um_find_set)
  have wf: "um_wf (pm_plugins ?pm)" using inv by (simp add: pm_inv_def)
  note c = um_count_erase [OF wf lp]
  show ?thesis
    unfolding pm_inv_def unloadPlugin_stopped [OF Some] snd_conv
  proof (intro conjI allI)
    fix x
    let ?pm' = "(pm_log [Pl_destroy (lp_instance lp), Pl_dlclose (lp_handle lp)] ?pm)\<lparr>pm_plugins := um_erase n (pm_plugins ?pm)\<rparr>"
    show "um_wf (pm_plugins ?pm')" using wf by (simp add: um_wf_erase)
    show "count_list (pm_trace ?pm') (Pl_dlopen x) =
        count_list (pm_trace ?pm') (Pl_dlclose x) + um_count (\<lambda>lp. lp_handle lp = x) (pm_plugins ?pm')"
      using inv c [of "\<lambda>lp. lp_handle lp = x"] by (cases "lp_handle lp = x") (simp_all add: pm_inv_def)
    show "count_list (pm_trace ?pm') (Pl_create x) =
        count_list (pm_trace ?pm') (Pl_destroy x) + um_count (\<lambda>lp. lp_instance lp = x) (pm_plugins ?pm')"
      using inv c [of "\<lambda>lp. lp_instance lp = x"] by (cases "lp_instance lp = x") (simp_all add: pm_inv_def)
    show "count_list (pm_trace ?pm') (Pl_started x) =
        count_list (pm_trace ?pm') (Pl_stop x) + um_count (\<lambda>lp. lp_instance lp = x \<and> lp_started lp) (pm_plugins ?pm')"
      using inv c [of "\<lambda>lp. lp_instance lp = x \<and> lp_started lp"] by (simp add: pm_inv_def)
  qed
qed

lemma pm_inv_unloadAll: "pm_inv pm \<Longrightarrow> pm_inv (unloadAll c pm)"
proof (induction c pm rule: unloadAll.induct)
  case (1 c pm)
  then show ?case
    by (subst unloadAll.simps) (auto simp: pm_inv_unload split: list.splits)
qed

lemma unloadAll_empty: "pm_plugins (unloadAll c pm) = []"
proof (induction c pm rule: unloadAll.induct)
  case (1 c pm)
  then show ?case by (subst unloadAll.simps) (auto split: list.splits)
qed

subsection \<open>Any sequence of calls\<close>

datatype pm_call =
    Pm_load load_results string | Pm_unload "nat \<Rightarrow> bool" string | Pm_start "nat \<Rightarrow> bool" string | Pm_stop string
  | Pm_startAll "nat \<Rightarrow> bool" | Pm_stopAll | Pm_unloadAll "nat \<Rightarrow> bool"

fun pm_apply :: "pm_call \<Rightarrow> plugin_manager \<Rightarrow> plugin_manager" where
  "pm_apply (Pm_load res path) pm = snd (loadPlugin res path pm)"
| "pm_apply (Pm_unload ok n) pm = snd (unloadPlugin ok n pm)"
| "pm_apply (Pm_start ok n) pm = snd (startPlugin ok n pm)"
| "pm_apply (Pm_stop n) pm = stopPlugin n pm"
| "pm_apply (Pm_startAll ok) pm = snd (startAll ok pm)"
| "pm_apply Pm_stopAll pm = stopAll pm"
| "pm_apply (Pm_unloadAll ok) pm = unloadAll ok pm"

lemma pm_inv_apply: "pm_inv pm \<Longrightarrow> pm_inv (pm_apply c pm)"
  by (cases c) (simp_all add: pm_inv_load pm_inv_unload pm_inv_start pm_inv_stop pm_inv_startLoop pm_inv_fold_stop
      pm_inv_unloadAll startAll_def stopAll_def)

lemma pm_inv_calls: "pm_inv pm \<Longrightarrow> pm_inv (fold pm_apply cs pm)"
  by (induction cs arbitrary: pm) (simp_all add: pm_inv_apply)

text \<open>
  C36. After any sequence of calls the destructor (\<open>unloadAll\<close>) terminates with an empty table, and then every library
  opened was closed, every instance created was destroyed and every plugin started was stopped, each exactly as
  often.
\<close>

theorem plugin_resources_released:
  "let pm = unloadAll ok (fold pm_apply cs new_plugin_manager); t = pm_trace pm in
     pm_plugins pm = [] \<and> count_list t (Pl_dlopen h) = count_list t (Pl_dlclose h) \<and>
     count_list t (Pl_create i) = count_list t (Pl_destroy i) \<and> count_list t (Pl_started i) = count_list t (Pl_stop i)"
  using pm_inv_unloadAll [OF pm_inv_calls [OF pm_inv_new], of ok cs] unloadAll_empty [of ok "fold pm_apply cs new_plugin_manager"]
  by (simp add: pm_inv_def Let_def)

subsection \<open>Starting all plugins is all or nothing\<close>

text \<open>The started flag of a plugin, as a client sees it.\<close>

definition pm_running :: "plugin_manager \<Rightarrow> string \<Rightarrow> bool" where
  "pm_running pm n \<longleftrightarrow> (case um_find (pm_plugins pm) n of None \<Rightarrow> False | Some lp \<Rightarrow> lp_started lp)"

text \<open>Everything about the plugins but the flags.\<close>

definition pm_static :: "plugin_manager \<Rightarrow> string \<Rightarrow> loaded_plugin option" where
  "pm_static pm n = map_option (\<lambda>lp. lp\<lparr>lp_started := False\<rparr>) (um_find (pm_plugins pm) n)"

lemma stopPlugin_running: "pm_running (stopPlugin n pm) m \<longleftrightarrow> pm_running pm m \<and> m \<noteq> n"
  by (auto simp: pm_running_def stopPlugin_def um_find_set split: option.splits)

lemma stopPlugin_static: "pm_static (stopPlugin n pm) = pm_static pm"
  by (auto simp: pm_static_def stopPlugin_def um_find_set fun_eq_iff split: option.splits)

lemma fold_stop_running: "pm_running (fold stopPlugin ns pm) m \<longleftrightarrow> pm_running pm m \<and> m \<notin> set ns"
  by (induction ns arbitrary: pm) (auto simp: stopPlugin_running)

lemma fold_stop_static: "pm_static (fold stopPlugin ns pm) = pm_static pm"
  by (induction ns arbitrary: pm) (simp_all add: stopPlugin_static)

lemma put_started:
  assumes "um_find (pm_plugins pm) n = Some lp"
  shows "pm_running (pm_put n (lp\<lparr>lp_started := True\<rparr>) (pm_log es pm)) m \<longleftrightarrow> pm_running pm m \<or> m = n"
    and "pm_static (pm_put n (lp\<lparr>lp_started := True\<rparr>) (pm_log es pm)) = pm_static pm"
  using assms by (auto simp: pm_running_def pm_static_def um_find_set fun_eq_iff)

lemma startLoop_spec:
  assumes "startLoop ok st ns pm = (r, pm')" and "\<forall>m \<in> set st. pm_running pm m"
  shows "pm_static pm' = pm_static pm \<and>
    (if r then (\<forall>m. pm_running pm' m \<longleftrightarrow> pm_running pm m \<or> m \<in> set ns \<and> hasPlugin m pm)
     else (\<forall>m. pm_running pm' m \<longleftrightarrow> pm_running pm m \<and> m \<notin> set st))"
  using assms
proof (induction ok st ns pm arbitrary: r pm' rule: startLoop.induct)
  case (2 ok st n ns pm)
  show ?case
  proof (cases "um_find (pm_plugins pm) n")
    case None
    then show ?thesis using 2 by (auto simp: hasPlugin_def)
  next
    case (Some lp)
    let ?pm1 = "pm_put n (lp\<lparr>lp_started := True\<rparr>) (pm_log [Pl_started (lp_instance lp)] pm)"
    have s: "pm_running ?pm1 m \<longleftrightarrow> pm_running pm m \<or> m = n" "pm_static ?pm1 = pm_static pm" for m
      using put_started [OF Some] by auto
    have h: "hasPlugin m ?pm1 \<longleftrightarrow> hasPlugin m pm" for m using Some by (simp add: hasPlugin_def um_find_set)
    have n: "pm_running pm n = lp_started lp" "hasPlugin n pm" using Some by (auto simp: pm_running_def hasPlugin_def)
    show ?thesis
    proof (cases "lp_started lp \<or> \<not> ok (lp_instance lp)")
      case True
      then show ?thesis using 2 Some n by (auto simp: fold_stop_running fold_stop_static split: if_splits)
    next
      case False
      then have "startLoop ok (st @ [n]) ns ?pm1 = (r, pm')" using 2(4) Some by simp
      moreover have "\<forall>m \<in> set (st @ [n]). pm_running ?pm1 m" using 2(5) s by auto
      ultimately have "pm_static pm' = pm_static ?pm1 \<and>
          (if r then (\<forall>m. pm_running pm' m \<longleftrightarrow> pm_running ?pm1 m \<or> m \<in> set ns \<and> hasPlugin m ?pm1)
           else (\<forall>m. pm_running pm' m \<longleftrightarrow> pm_running ?pm1 m \<and> m \<notin> set (st @ [n])))"
        using 2(3) [OF Some] False by simp
      then show ?thesis using s h n False by (auto split: if_splits)
    qed
  qed
qed auto

text \<open>
  C35. \<open>startAll\<close> is all or nothing: when it succeeds, every loaded plugin is running; when a start fails, exactly the
  plugins that were running before are running, because the ones it started are stopped again. Nothing else about
  the plugins changes.
\<close>

theorem startAll_all_or_nothing:
  "case startAll ok pm of (r, pm') \<Rightarrow>
     pm_static pm' = pm_static pm \<and> pm_running pm' n = (if r then hasPlugin n pm else pm_running pm n)"
proof -
  obtain r pm' where r: "startAll ok pm = (r, pm')" by fastforce
  have "hasPlugin n pm \<longleftrightarrow> n \<in> set (um_keys (pm_plugins pm))"
    by (simp add: hasPlugin_def map_of_eq_None_iff)
  moreover have "pm_running pm n \<Longrightarrow> hasPlugin n pm"
    by (auto simp: hasPlugin_def pm_running_def split: option.splits)
  ultimately show ?thesis
    using startLoop_spec [OF r [unfolded startAll_def]] r by (auto split: if_splits)
qed

lemma stopAll_stops: "\<not> pm_running (stopAll pm) n"
proof -
  have "pm_running pm n \<Longrightarrow> n \<in> set (um_keys (pm_plugins pm))"
    by (force simp: pm_running_def dest: map_of_SomeD split: option.splits)
  then show ?thesis by (auto simp: stopAll_def fold_stop_running)
qed

end
