(* ===== verification/Modbus_Typing.thy ===== *)
theory Modbus_Typing
  imports Modbus_Plugin
begin

section \<open>The type of the values a Modbus device holds\<close>

text \<open>
  \<open>TagValue\<close> is a variant of thirteen types; what the Modbus plugin (\<open>modbus_plugin.cpp\<close>) stores is always of one of
  two: nothing, or a finite \<open>double\<close>. The judgement is on tags, and every operation of the plugin preserves it, whatever
  libmodbus answers.
\<close>

subsection \<open>The judgement\<close>

inductive modbus_typed :: "tag \<Rightarrow> bool" where
  typed_empty: "tag_val t = Val_Monostate \<Longrightarrow> tag_quality t \<noteq> Quality_Good \<Longrightarrow> modbus_typed t"
| typed_double: "tag_val t = Val_Double v \<Longrightarrow> isfinite v \<Longrightarrow> modbus_typed t"

inductive_cases modbus_typedE: "modbus_typed t"

definition device_typed :: "string \<Rightarrow> device_manager \<Rightarrow> bool" where
  "device_typed k dm \<longleftrightarrow> (\<forall>n t. lookupTag dm k n = Some t \<longrightarrow> modbus_typed t)"

abbreviation plugin_typed :: "string \<Rightarrow> modbus_plugin \<Rightarrow> bool" where
  "plugin_typed k p \<equiv> device_typed k (mp_dm p)"

lemma typed_good_valid: "modbus_typed t \<Longrightarrow> tag_quality t = Quality_Good \<Longrightarrow> tag_isValid t"
  by (auto simp: tag_isValid_def elim: modbus_typedE)

lemma typed_timestamp: "modbus_typed t \<Longrightarrow> modbus_typed (t\<lparr>tag_timestamp := w\<rparr>)"
  by (auto elim!: modbus_typedE intro: modbus_typed.intros)

lemma typed_marked: "modbus_typed t \<Longrightarrow> q \<noteq> Quality_Good \<Longrightarrow> modbus_typed (t\<lparr>tag_quality := q, tag_timestamp := w\<rparr>)"
  by (auto elim!: modbus_typedE intro: modbus_typed.intros)

lemma decode_finite: "modbus_decodeValue fp regs t = Some v \<Longrightarrow> isfinite v"
  by (auto simp: modbus_decodeValue_def Let_def split: if_splits)

subsection \<open>The device manager\<close>

lemma device_typed_updateTag: "device_typed k dm \<Longrightarrow> modbus_typed t \<Longrightarrow> device_typed k (snd (updateTag w k' t dm))"
  by (auto simp: device_typed_def lookupTag_updateTag typed_timestamp)

lemma device_typed_mark: "device_typed k dm \<Longrightarrow> q \<noteq> Quality_Good \<Longrightarrow> device_typed k (snd (updateAllTagQualities w k' q dm))"
  by (auto simp: device_typed_def lookupTag_setQualities typed_marked)

lemma device_typed_state: "device_typed k dm \<Longrightarrow> device_typed k (snd (updateConnectionState k' s dm))"
  by (cases "findDevice dm k'") (auto simp: device_typed_def lookupTag_def updateConnectionState_find findTag_def split: if_splits)

lemma device_typed_add: "device_typed k dm \<Longrightarrow> dev_tags d = [] \<Longrightarrow> device_typed k (snd (addDevice d dm))"
  by (auto simp: device_typed_def lookupTag_def addDevice_def findDevice_def findTag_def um_find_emplace split: if_splits bind_splits)

lemma device_typed_transition:
  assumes "device_typed k dm" and "transitionTo now s (m, dm) = (ok, m', dm')"
  shows "device_typed k dm'"
  using assms device_typed_state [OF assms(1), of "csm_deviceId m" s]
  by (auto simp: transitionTo_def Let_def split: if_splits prod.splits)

lemma device_typed_timeout:
  "device_typed k dm \<Longrightarrow> checkTimeout now (m, dm) = (r, m', dm') \<Longrightarrow> device_typed k dm'"
  by (auto simp: checkTimeout_def split: if_splits intro: device_typed_transition)

lemma device_typed_pollTags:
  "device_typed k dm \<Longrightarrow> pollTags fp lib wall d i ts (a, r, dm) = (a', r', dm') \<Longrightarrow> device_typed k dm'"
proof (induction ts arbitrary: i a r dm)
  case (Cons t ts)
  let ?tag = "default_tag\<lparr>tag_name := mt_name t\<rparr>"
  have e: "modbus_typed (?tag\<lparr>tag_quality := q\<rparr>)" if "q \<noteq> Quality_Good" for q
    using that by (intro typed_empty) (simp_all add: default_tag_def)
  have v: "modbus_typed (?tag\<lparr>tag_val := Val_Double v, tag_quality := Quality_Good\<rparr>)" if "modbus_decodeValue fp regs t = Some v" for regs v
    using decode_finite [OF that] by (intro typed_double [of _ v]) simp_all
  obtain c regs where rd: "mr_read lib i (mt_registerAddress t) (registerCount (mt_dataType t)) = (c, regs)" by (metis surj_pair)
  show ?case
    using Cons.prems Cons.IH device_typed_updateTag [OF Cons.prems(1) e, of Quality_Timeout "wall i" d]
      device_typed_updateTag [OF Cons.prems(1) e, of Quality_Invalid "wall i" d]
      device_typed_updateTag [OF Cons.prems(1) v [of regs], of _ "wall i" d]
    by (auto simp: rd Let_def case_prod_beta split: if_splits option.splits)
qed simp

subsection \<open>The plugin\<close>

lemma typed_mp_transitionTo:
  "mp_transitionTo now s p = Some (ok, p') \<Longrightarrow> plugin_typed k p \<Longrightarrow> plugin_typed k p'"
  by (auto simp: mp_transitionTo_def Let_def split: prod.splits bind_splits intro: device_typed_transition)

lemma typed_markAll: "plugin_typed k p \<Longrightarrow> q \<noteq> Quality_Good \<Longrightarrow> plugin_typed k (mp_markAll w q p)"
  by (simp add: mp_markAll_def device_typed_mark)

lemma typed_backoff:
  "mp_recordFailure now p = Some p' \<Longrightarrow> mp_dm p' = mp_dm p"
  "mp_resetBackoff p = Some p' \<Longrightarrow> mp_dm p' = mp_dm p"
  by (auto simp: mp_recordFailure_def mp_resetBackoff_def)

lemma typed_initialize:
  "modbus_initialize lib now p = Some (ok, p') \<Longrightarrow> plugin_typed k p \<Longrightarrow> plugin_typed k p'"
  using device_typed_add [of k "mp_dm p" "default_device\<lparr>dev_id := mc_deviceId (mp_config p),
      dev_name := mc_deviceName (mp_config p), dev_protocol := ''modbus-tcp''\<rparr>"]
  by (auto simp: modbus_initialize_def Let_def default_device_def case_prod_beta split: if_splits sum.splits)

lemma typed_connectTransport:
  assumes "connectTransport lib clock mark p = Some (ok, p')" and "plugin_typed k p"
  shows "plugin_typed k p'"
proof (cases "mp_connected p")
  case True
  then show ?thesis using assms by (simp add: connectTransport_def)
next
  case False
  obtain ok1 p1 where t1: "mp_transitionTo (clock 1) State_Connecting p = Some (ok1, p1)"
    using assms(1) False by (auto simp: connectTransport_def split: bind_splits)
  from typed_mp_transitionTo [OF t1 assms(2)] have p1: "plugin_typed k p1" .
  let ?p2 = "mp_log Mb_connect p1"
  consider "\<not> ok1" | "ok1" "\<not> mr_connect lib" | "ok1" "mr_connect lib" by blast
  then show ?thesis
  proof cases
    case 1 then show ?thesis using assms(1) False t1 p1 by (simp add: connectTransport_def)
  next
    case 2
    then obtain x p3 p4 where s: "mp_transitionTo (clock 2) State_Error ?p2 = Some (x, p3)"
      "mp_recordFailure (clock 3) (mp_markAll mark Quality_Disconnected p3) = Some p4" "p' = p4"
      using assms(1) False t1 by (auto simp: connectTransport_def Let_def split: bind_splits)
    have "plugin_typed k ?p2" using p1 by simp
    from typed_mp_transitionTo [OF s(1) this] typed_markAll [of k p3 Quality_Disconnected mark] typed_backoff(1) [OF s(2)] p1 s(3)
    show ?thesis by simp
  next
    case 3
    then obtain ok3 p3 where s: "mp_transitionTo (clock 2) State_Connected (?p2\<lparr>mp_connected := True\<rparr>) = Some (ok3, p3)"
      using assms(1) False t1 by (auto simp: connectTransport_def Let_def split: bind_splits)
    have "plugin_typed k (?p2\<lparr>mp_connected := True\<rparr>)" using p1 by simp
    from typed_mp_transitionTo [OF s this] have p3: "plugin_typed k p3" using p1 by simp_all
    show ?thesis using assms(1) False t1 3 s p3
      by (cases ok3) (auto simp: connectTransport_def Let_def split: bind_splits dest!: typed_backoff)
  qed
qed

lemma typed_pollConnected:
  "pollConnected fp lib clock wall mark p = Some (ok, p') \<Longrightarrow> plugin_typed k p \<Longrightarrow> plugin_typed k p'"
proof -
  assume c: "pollConnected fp lib clock wall mark p = Some (ok, p')" and t: "plugin_typed k p"
  obtain a r dm1 where q: "pollTags fp lib wall (mc_deviceId (mp_config p)) 0 (mc_tags (mp_config p)) (True, False, mp_dm p) =
      (a, r, dm1)" by (metis prod_cases3)
  have d1: "device_typed k dm1" using device_typed_pollTags [OF t q] .
  obtain m where m: "mp_stateMachine p = Some m" using c by (auto simp: pollConnected_def q split: option.splits)
  obtain o1 m1 dm2 where ma: "markActivity (clock 4) (m, dm1) = (o1, m1, dm2)" by (metis prod_cases3)
  obtain o2 m2 dm3 where ct: "checkTimeout (clock 4) (m, dm1) = (o2, m2, dm3)" by (metis prod_cases3)
  have d3: "device_typed k dm3" using device_typed_timeout [OF d1 ct] .
  have "dm2 = dm1" using markActivity_keeps [OF ma] by simp
  then show ?thesis using c d1 d3 m device_typed_mark [OF d3, of Quality_Timeout mark "mc_deviceId (mp_config p)"]
    by (auto simp: pollConnected_def q ma ct mp_markAll_def Let_def split: if_splits dest!: typed_backoff(1))
qed

lemma typed_pollOnce:
  assumes "pollOnce fp lib clock wall mark p = Some (ok, p')" and "plugin_typed k p"
  shows "plugin_typed k p'"
proof (cases "mp_connected p")
  case True
  then show ?thesis using assms(1) by (intro typed_pollConnected [OF _ assms(2)]) (simp add: pollOnce_def)
next
  case False
  show ?thesis
  proof (cases "p' = p")
    case True then show ?thesis using assms(2) by simp
  next
    case changed: False
    then obtain b ok1 p1 where c: "mp_backoff p = Some b" "canRetry (clock 0) b"
      "connectTransport lib clock mark p = Some (ok1, p1)"
      using assms(1) False by (auto simp: pollOnce_def split: option.splits if_splits bind_splits)
    have p1: "plugin_typed k p1" using typed_connectTransport [OF c(3) assms(2)] .
    show ?thesis
    proof (cases ok1)
      case True
      then have "pollConnected fp lib clock wall mark p1 = Some (ok, p')" using assms(1) False c by (simp add: pollOnce_def)
      from typed_pollConnected [OF this p1] show ?thesis .
    next
      case nok: False
      then have "p' = p1" using assms(1) False c by (simp add: pollOnce_def)
      then show ?thesis using p1 by simp
    qed
  qed
qed

lemma typed_start:
  assumes "modbus_start fp lib clock wall mark p = Some (ok, p')" and "plugin_typed k p"
  shows "plugin_typed k p'"
proof (cases "mp_connected p")
  case True
  then show ?thesis using assms by (simp add: modbus_start_def)
next
  case False
  then obtain ready p1 where r: "(if mp_context p then Some (True, p) else modbus_initialize lib (clock 0) p) = Some (ready, p1)"
    using assms(1) by (auto simp: modbus_start_def split: bind_splits if_splits)
  then have p1: "plugin_typed k p1"
    using assms(2) typed_initialize [of lib "clock 0" p ready p1 k] by (cases "mp_context p") auto
  show ?thesis
  proof (cases "p' = p1")
    case True then show ?thesis using p1 by simp
  next
    case changed: False
    then obtain b ok2 p2 where c: "mp_backoff p1 = Some b" "canRetry (clock 0) b" "ready"
      "connectTransport lib clock mark p1 = Some (ok2, p2)"
      using assms(1) False r by (auto simp: modbus_start_def split: bind_splits if_splits)
    have p2: "plugin_typed k p2" using typed_connectTransport [OF c(4) p1] .
    show ?thesis
    proof (cases ok2)
      case True
      then obtain x where "pollOnce fp lib clock wall mark p2 = Some (x, p')"
        using assms(1) False r c by (auto simp: modbus_start_def split: bind_splits if_splits)
      from typed_pollOnce [OF this p2] show ?thesis .
    next
      case nok: False
      then have "p' = p2" using assms(1) False r c by (auto simp: modbus_start_def split: if_splits)
      then show ?thesis using p1 p2 by simp
    qed
  qed
qed

lemma typed_stop:
  assumes "plugin_typed k p"
  shows "plugin_typed k (modbus_stop now mark p)"
proof -
  have d: "device_typed k (snd (snd (transitionTo now State_Disconnected (m, mp_dm p))))" for m
    using device_typed_transition [OF assms] by (metis prod.collapse)
  show ?thesis
    using assms d by (auto simp: modbus_stop_def mp_markAll_def Let_def case_prod_beta device_typed_mark split: option.split)
qed

subsection \<open>Any sequence of calls\<close>

lemma typed_apply:
  assumes "mp_apply fp e p = Some p'" and "plugin_typed k p" and "\<And>dm. e = Mp_devices dm \<Longrightarrow> device_typed k dm"
  shows "plugin_typed k p'"
proof (cases e)
  case (Mp_initialize lib now) then show ?thesis using assms(1,2) by (auto intro: typed_initialize)
next
  case (Mp_start lib clock wall mark) then show ?thesis using assms(1,2) by (auto intro: typed_start)
next
  case (Mp_poll lib clock wall mark) then show ?thesis using assms(1,2) by (auto intro: typed_pollOnce)
qed (use assms typed_stop in auto)

lemma typed_run:
  "mp_run fp es p = Some p' \<Longrightarrow> plugin_typed k p \<Longrightarrow> (\<And>dm. Mp_devices dm \<in> set es \<Longrightarrow> device_typed k dm) \<Longrightarrow>
     plugin_typed k p'"
proof (induction es arbitrary: p)
  case (Cons e es)
  then obtain p1 where p1: "mp_apply fp e p = Some p1" "mp_run fp es p1 = Some p'" by (auto split: bind_splits)
  have "plugin_typed k p1" using Cons.prems(3) by (intro typed_apply [OF p1(1) Cons.prems(2)]) auto
  then show ?case using Cons.IH [OF p1(2)] Cons.prems(3) by auto
qed simp

text \<open>
  C23. Whatever the owner calls in whatever order and whatever libmodbus answers, as long as others keep to it too, each tag of
  a device holds nothing or a finite \<open>double\<close>, and a tag of quality \<open>Good\<close> holds a value: no register
  content makes the plugin store an infinity, a NaN or a value of another type, from its construction to its destruction.
\<close>

theorem modbus_tags_typed:
  assumes "mp_run fp es (new_modbus_plugin dm config) = Some p" and "device_typed k dm"
    and "\<forall>dm'. Mp_devices dm' \<in> set es \<longrightarrow> device_typed k dm'"
    and "lookupTag (mp_dm (modbus_destroy now mark p)) k n = Some t"
  shows "modbus_typed t \<and> (tag_quality t = Quality_Good \<longrightarrow> tag_isValid t)"
proof -
  have "plugin_typed k p" using typed_run [OF assms(1), of k] assms(2,3) by (simp add: new_modbus_plugin_def)
  then have "plugin_typed k (modbus_destroy now mark p)"
    using typed_stop [of k p now mark] by (simp add: modbus_destroy_def Let_def)
  then have "modbus_typed t" using assms(4) by (simp add: device_typed_def)
  then show ?thesis using typed_good_valid by blast
qed

theorem modbus_tags_typed_witness:
  "\<exists>p t. mp_run demo_fp [Mp_start demo_lib (\<lambda>i. 7) (\<lambda>i. 9) 9] (new_modbus_plugin [] demo_config) = Some p \<and>
     lookupTag (mp_dm (modbus_destroy 8 8 p)) ''d'' ''t'' = Some t \<and> modbus_typed t \<and> tag_val t = Val_Double 42"
proof -
  let ?es = "[Mp_start demo_lib (\<lambda>i. 7) (\<lambda>i. 9) 9]"
  have "Option.bind (mp_run demo_fp ?es (new_modbus_plugin [] demo_config))
      (\<lambda>p. map_option tag_val (lookupTag (mp_dm (modbus_destroy 8 8 p)) ''d'' ''t'')) = Some (Val_Double 42)"
    by code_simp
  then obtain p t where p: "mp_run demo_fp ?es (new_modbus_plugin [] demo_config) = Some p"
    "lookupTag (mp_dm (modbus_destroy 8 8 p)) ''d'' ''t'' = Some t" "tag_val t = Val_Double 42"
    by (auto split: bind_splits)
  have "device_typed ''d'' []" by (simp add: device_typed_def lookupTag_def findDevice_def)
  from modbus_tags_typed [OF p(1) this _ p(2)] p show ?thesis by auto
qed

end
