(* ===== verification/Wakeup.thy ===== *)
theory Wakeup
  imports Event_Loop
begin

section \<open>Waking and stopping the event loop\<close>

text \<open>
  \<open>src/wakeup.cpp\<close>, and what \<open>src/event_loop.cpp\<close> does with it: the eventfd that lets another thread end
  \<open>epoll_wait\<close>. The counter of the eventfd is explicit. The loop thread and the threads that call \<open>stop\<close> interleave;
  a step of the loop is a test of \<open>running_\<close>, one \<open>epoll_wait\<close>, or the dispatch of the batch it returned, of which only
  the callback of the wake-up channel is of interest here (\<open>Event_Loop\<close> has the others).
\<close>

subsection \<open>The eventfd\<close>

datatype wakeup_error = Wu_NoEventFd | Wu_ChannelRefused

text \<open>Constructor: the descriptor (or the exception), the loop, and the descriptors it closed.\<close>

definition new_wakeup :: "'c \<Rightarrow> int \<Rightarrow> bool \<Rightarrow> 'c event_loop \<Rightarrow> (wakeup_error + int) \<times> 'c event_loop \<times> int list" where
  "new_wakeup onRead eventFd permitted l =
     (if eventFd < 0 then (Inl Wu_NoEventFd, l, [])
      else (let (added, l') = addChannel permitted (setReadCallback onRead (setEvents EPOLLIN (new_channel eventFd))) l in
        if \<not> added then (Inl Wu_ChannelRefused, close_fd eventFd l', [eventFd])
        else (Inr eventFd, l', [])))"

definition destroy_wakeup :: "bool \<Rightarrow> int \<Rightarrow> 'c event_loop \<Rightarrow> 'c event_loop \<times> int list" where
  "destroy_wakeup permitted eventFd l =
     (if eventFd \<ge> 0 then (close_fd eventFd (snd (removeChannel permitted (new_channel eventFd) l)), [eventFd]) else (l, []))"

text \<open>A write of 1 adds to the counter, unless that would exceed its maximum (then \<open>EAGAIN\<close>, which is logged); a read
  takes the whole counter and resets it, and fails with \<open>EAGAIN\<close> when it is zero.\<close>

definition eventfd_max :: nat where
  "eventfd_max = 2 ^ 64 - 2"

definition wakeup_write :: "nat \<Rightarrow> nat" where
  "wakeup_write counter = (if counter < eventfd_max then Suc counter else counter)"

definition wakeup_handleRead :: "nat \<Rightarrow> nat" where
  "wakeup_handleRead counter = 0"

text \<open>
  The constructor and destructor of the event loop, with the descriptors they open and close. When the constructor of
  \<open>Wakeup\<close> throws, the one of \<open>EventLoop\<close> does too and its destructor does not run.
\<close>

datatype loop_error = Lo_NoEpoll | Lo_wakeup wakeup_error

record 'c owned_loop =
  ol_loop :: "'c event_loop"
  ol_epollFd :: int
  ol_eventFd :: int

definition make_event_loop :: "int \<Rightarrow> 'c \<Rightarrow> int \<Rightarrow> bool \<Rightarrow> (loop_error + 'c owned_loop) \<times> int list \<times> int list" where
  "make_event_loop epollFd onRead eventFd permitted =
     (if epollFd < 0 then (Inl Lo_NoEpoll, [], [])
      else (case new_wakeup onRead eventFd permitted new_event_loop of
              (Inl e, _, closed) \<Rightarrow> (Inl (Lo_wakeup e), epollFd # closed, closed)
            | (Inr fd, l, closed) \<Rightarrow> (Inr \<lparr>ol_loop = l, ol_epollFd = epollFd, ol_eventFd = fd\<rparr>, [epollFd, fd], closed)))"

definition destroy_event_loop :: "bool \<Rightarrow> 'c owned_loop \<Rightarrow> 'c event_loop \<times> int list" where
  "destroy_event_loop permitted ol =
     (let (l, closed) = destroy_wakeup permitted (ol_eventFd ol) ((ol_loop ol)\<lparr>el_running := False\<rparr>)
      in (l, if ol_epollFd ol \<ge> 0 then closed @ [ol_epollFd ol] else closed))"

text \<open>A loop that was constructed gives back both descriptors; one whose wake-up could not be set up leaks the epoll descriptor.\<close>

lemma event_loop_closes:
  assumes "make_event_loop epollFd onRead eventFd permitted = (Inr ol, opened, closed)"
  shows "closed = [] \<and> snd (destroy_event_loop permitted' ol) = rev opened"
  using assms by (auto simp: make_event_loop_def new_wakeup_def destroy_event_loop_def destroy_wakeup_def Let_def
    split: if_splits prod.splits)

lemma event_loop_constructor_leaks:
  assumes "make_event_loop epollFd onRead eventFd permitted = (Inl (Lo_wakeup e), opened, closed)" and "eventFd \<noteq> epollFd"
  shows "epollFd \<in> set opened \<and> epollFd \<notin> set closed"
  using assms by (auto simp: make_event_loop_def new_wakeup_def Let_def split: if_splits prod.splits)

subsection \<open>Interleavings\<close>

datatype loop_pc = Lp_start | Lp_check | Lp_wait | Lp_dispatch bool | Lp_ended

text \<open>\<open>ls_pending\<close> counts the calls of \<open>stop\<close> between the store to \<open>running_\<close> and the write to the eventfd.\<close>

record loop_state =
  ls_pc :: loop_pc
  ls_running :: bool
  ls_counter :: nat
  ls_pending :: nat

definition loop_initial :: loop_state where
  "loop_initial = \<lparr>ls_pc = Lp_start, ls_running = False, ls_counter = 0, ls_pending = 0\<rparr>"

text \<open>How an \<open>epoll_wait\<close> can return: with events (are descriptors other than the eventfd ready?), \<open>EINTR\<close>, an error.\<close>

datatype wait_end = We_events bool | We_EINTR | We_error

text \<open>A step of \<open>run\<close>; \<open>None\<close> while \<open>epoll_wait\<close> blocks and when \<open>run\<close> has returned.\<close>

definition loop_thread :: "wait_end \<Rightarrow> loop_state \<Rightarrow> loop_state option" where
  "loop_thread e s =
     (case ls_pc s of
        Lp_start \<Rightarrow> Some (s\<lparr>ls_running := True, ls_pc := Lp_check\<rparr>)
      | Lp_check \<Rightarrow> Some (if ls_running s then s\<lparr>ls_pc := Lp_wait\<rparr> else s\<lparr>ls_pc := Lp_ended\<rparr>)
      | Lp_wait \<Rightarrow>
          (case e of
             We_events other \<Rightarrow>
               if 0 < ls_counter s \<or> other then Some (s\<lparr>ls_pc := Lp_dispatch (0 < ls_counter s)\<rparr>) else None
           | We_EINTR \<Rightarrow> Some (s\<lparr>ls_pc := Lp_check\<rparr>)
           | We_error \<Rightarrow> Some (s\<lparr>ls_running := False, ls_pc := Lp_ended\<rparr>))
      | Lp_dispatch woken \<Rightarrow> Some (s\<lparr>ls_counter := if woken then wakeup_handleRead (ls_counter s) else ls_counter s, ls_pc := Lp_check\<rparr>)
      | Lp_ended \<Rightarrow> None)"

definition stop_flag :: "loop_state \<Rightarrow> loop_state" where
  "stop_flag s = s\<lparr>ls_running := False, ls_pending := Suc (ls_pending s)\<rparr>"

definition stop_wakeup :: "loop_state \<Rightarrow> loop_state" where
  "stop_wakeup s = s\<lparr>ls_counter := wakeup_write (ls_counter s), ls_pending := ls_pending s - 1\<rparr>"

inductive loop_reach :: "loop_state \<Rightarrow> bool" where
  lreach_initial: "loop_reach loop_initial"
| lreach_thread: "loop_reach s \<Longrightarrow> loop_thread e s = Some s' \<Longrightarrow> loop_reach s'"
| lreach_flag: "loop_reach s \<Longrightarrow> loop_reach (stop_flag s)"
| lreach_wakeup: "loop_reach s \<Longrightarrow> 0 < ls_pending s \<Longrightarrow> loop_reach (stop_wakeup s)"

fun run_thread :: "wait_end list \<Rightarrow> loop_state \<Rightarrow> loop_state option" where
  "run_thread [] s = Some s"
| "run_thread (e # es) s = (case loop_thread e s of None \<Rightarrow> None | Some s' \<Rightarrow> run_thread es s')"

subsection \<open>A completed stop ends the loop\<close>

text \<open>No wake-up is lost: a loop told to stop does not block.\<close>

definition wake_inv :: "loop_state \<Rightarrow> bool" where
  "wake_inv s \<longleftrightarrow> (ls_pc s = Lp_wait \<and> \<not> ls_running s \<longrightarrow> 0 < ls_counter s \<or> 0 < ls_pending s)"

lemma wakeup_write_pos: "0 < wakeup_write n"
  by (simp add: wakeup_write_def eventfd_max_def)

lemma loop_reach_inv: "loop_reach s \<Longrightarrow> wake_inv s"
proof (induction rule: loop_reach.induct)
  case (lreach_thread s e s')
  then show ?case by (auto simp: wake_inv_def loop_thread_def split: loop_pc.splits wait_end.splits if_splits)
qed (simp_all add: wake_inv_def loop_initial_def stop_flag_def stop_wakeup_def wakeup_write_pos)

fun pc_work :: "loop_pc \<Rightarrow> nat" where
  "pc_work Lp_start = 4"
| "pc_work Lp_wait = 3"
| "pc_work (Lp_dispatch _) = 2"
| "pc_work Lp_check = 1"
| "pc_work Lp_ended = 0"

lemma stopping_step:
  assumes "loop_thread e s = Some s'" and "\<not> ls_running s" and "ls_pc s \<noteq> Lp_start"
  shows "\<not> ls_running s' \<and> ls_pc s' \<noteq> Lp_start \<and> pc_work (ls_pc s') < pc_work (ls_pc s) \<and> ls_pending s' = ls_pending s"
  using assms by (auto simp: loop_thread_def split: loop_pc.splits wait_end.splits if_splits)

lemma stopping_run:
  "run_thread es s = Some s' \<Longrightarrow> wake_inv s \<Longrightarrow> \<not> ls_running s \<Longrightarrow> ls_pc s \<noteq> Lp_start \<Longrightarrow>
     wake_inv s' \<and> \<not> ls_running s' \<and> ls_pc s' \<noteq> Lp_start \<and> ls_pending s' = ls_pending s \<and>
     length es + pc_work (ls_pc s') \<le> pc_work (ls_pc s)"
proof (induction es arbitrary: s)
  case (Cons e es)
  then obtain t where t: "loop_thread e s = Some t" "run_thread es t = Some s'" by (auto split: option.splits)
  note st = stopping_step [OF t(1) Cons.prems(3,4)]
  have "wake_inv t" using t(1) Cons.prems(2-4) by (auto simp: wake_inv_def loop_thread_def split: loop_pc.splits wait_end.splits if_splits)
  then show ?case using Cons.IH [OF t(2)] st by auto
qed simp

text \<open>C17. A stop is not lost. Once \<open>run\<close> is under way and a call of \<open>stop\<close> has returned, in any interleaving, the loop is at
  most three steps from its end, and it never blocks on the way, even if no other descriptor ever becomes ready.\<close>

theorem stop_ends_loop:
  assumes "loop_reach s" and "ls_pc s \<noteq> Lp_start" and "\<not> ls_running s" and "ls_pending s = 0" and "run_thread es s = Some s'"
  shows "length es \<le> 3 \<and> (ls_pc s' = Lp_ended \<or> loop_thread (We_events False) s' \<noteq> None)"
proof -
  have r: "wake_inv s' \<and> \<not> ls_running s' \<and> ls_pc s' \<noteq> Lp_start \<and> ls_pending s' = ls_pending s \<and>
      length es + pc_work (ls_pc s') \<le> pc_work (ls_pc s)"
    by (rule stopping_run [OF assms(5) loop_reach_inv [OF assms(1)] assms(3,2)])
  have "pc_work (ls_pc s) \<le> 3" using assms(2) by (cases "ls_pc s") simp_all
  then have "length es \<le> 3" using r by simp
  moreover have "ls_pc s' = Lp_ended \<or> loop_thread (We_events False) s' \<noteq> None"
    using r assms(4) by (auto simp: wake_inv_def loop_thread_def split: loop_pc.splits)
  ultimately show ?thesis by blast
qed

text \<open>The loop waits, \<open>stop\<close> is called.\<close>

theorem stop_ends_loop_witness:
  "\<exists>s s'. loop_reach s \<and> ls_pc s = Lp_wait \<and> run_thread [We_events False] s = Some s' \<and> loop_thread (We_events False) s' \<noteq> None"
proof -
  let ?s = "loop_initial\<lparr>ls_running := True, ls_pc := Lp_wait\<rparr>"
  have "loop_reach (loop_initial\<lparr>ls_running := True, ls_pc := Lp_check\<rparr>)"
    by (rule lreach_thread [OF lreach_initial]) (simp add: loop_thread_def loop_initial_def)
  then have s: "loop_reach ?s" by (rule lreach_thread) (simp add: loop_thread_def loop_initial_def)
  have r: "loop_reach (stop_wakeup (stop_flag ?s))"
    by (rule lreach_wakeup [OF lreach_flag [OF s]]) (simp add: stop_flag_def)
  let ?t = "\<lparr>ls_pc = Lp_wait, ls_running = False, ls_counter = 1, ls_pending = 0\<rparr>"
  have t: "stop_wakeup (stop_flag ?s) = ?t"
    by (simp add: stop_wakeup_def stop_flag_def loop_initial_def wakeup_write_def eventfd_max_def)
  have s': "run_thread [We_events False] ?t = Some (?t\<lparr>ls_pc := Lp_dispatch True\<rparr>)" by (simp add: loop_thread_def)
  have "loop_thread (We_events False) (?t\<lparr>ls_pc := Lp_dispatch True\<rparr>) \<noteq> None"
    using stop_ends_loop [OF r [unfolded t] _ _ _ s'] by simp
  moreover have "ls_pc ?t = Lp_wait" by simp
  ultimately show ?thesis using r s' unfolding t by blast
qed

text \<open>A stop that returns before \<open>run\<close> starts is forgotten: \<open>run\<close> sets \<open>running_\<close> again and, the wake-up read, waits.\<close>

lemma early_stop_lost:
  "map_option ls_pc (run_thread [We_EINTR, We_EINTR, We_events False, We_EINTR, We_EINTR] (stop_wakeup (stop_flag loop_initial))) = Some Lp_wait \<and>
   map_option (loop_thread (We_events False))
     (run_thread [We_EINTR, We_EINTR, We_events False, We_EINTR, We_EINTR] (stop_wakeup (stop_flag loop_initial))) = Some None"
  by (simp add: loop_thread_def loop_initial_def stop_wakeup_def stop_flag_def wakeup_write_def wakeup_handleRead_def eventfd_max_def)

end
