(* ===== verification/Device_Scheduler.thy ===== *)
theory Device_Scheduler
  imports Event_Loop
begin

section \<open>Timers and the device scheduler\<close>

text \<open>
  \<open>src/timer.cpp\<close> and \<open>src/device_scheduler.cpp\<close>. A timer owns a \<open>timerfd\<close>, whose kernel setting is \<open>tm_spec\<close> (a zero
  \<open>it_value\<close> means disarmed), and a channel of the event loop. The scheduler owns one timer per task. The results of
  \<open>timerfd_create\<close>, \<open>timerfd_settime\<close> and \<open>epoll_ctl\<close> are arguments; disarming a valid \<open>timerfd\<close> with a zero
  setting cannot fail.
\<close>

subsection \<open>Timer\<close>

record itimerspec =
  it_value :: "u64 \<times> u64"
  it_interval :: "u64 \<times> u64"

definition disarmed :: itimerspec where
  "disarmed = \<lparr>it_value = (0, 0), it_interval = (0, 0)\<rparr>"

definition ms_to_timespec :: "u64 \<Rightarrow> u64 \<times> u64" where
  "ms_to_timespec ms = (ms div 1000, (ms mod 1000) * 1000000)"

record 'cb timer =
  tm_timerFd :: int
  tm_callback :: "'cb option"
  tm_spec :: itimerspec

datatype timer_error = Tm_NoTimerFd | Tm_ChannelRefused

text \<open>Constructor; \<open>mk fd\<close> is the channel's read callback, the third component the descriptors it closed.\<close>

definition new_timer :: "(int \<Rightarrow> 'c) \<Rightarrow> int \<Rightarrow> bool \<Rightarrow> 'c event_loop \<Rightarrow> (timer_error + 'cb timer) \<times> 'c event_loop \<times> int list" where
  "new_timer mk timerFd permitted l =
     (if timerFd < 0 then (Inl Tm_NoTimerFd, l, [])
      else (let (added, l') = addChannel permitted (setReadCallback (mk timerFd) (setEvents EPOLLIN (new_channel timerFd))) l in
        if \<not> added then (Inl Tm_ChannelRefused, close_fd timerFd l', [timerFd])
        else (Inr \<lparr>tm_timerFd = timerFd, tm_callback = None, tm_spec = disarmed\<rparr>, l', [])))"

definition timer_settime :: "bool \<Rightarrow> itimerspec \<Rightarrow> 'cb timer \<Rightarrow> bool \<times> 'cb timer" where
  "timer_settime ok spec t = (if ok then (True, t\<lparr>tm_spec := spec\<rparr>) else (False, t))"

definition startOnce :: "bool \<Rightarrow> u64 \<Rightarrow> 'cb \<Rightarrow> 'cb timer \<Rightarrow> bool \<times> 'cb timer" where
  "startOnce ok delayMs callback t =
     timer_settime ok \<lparr>it_value = ms_to_timespec delayMs, it_interval = (0, 0)\<rparr> (t\<lparr>tm_callback := Some callback\<rparr>)"

definition startPeriodic :: "bool \<Rightarrow> u64 \<Rightarrow> 'cb \<Rightarrow> 'cb timer \<Rightarrow> bool \<times> 'cb timer" where
  "startPeriodic ok intervalMs callback t =
     timer_settime ok \<lparr>it_value = ms_to_timespec intervalMs, it_interval = ms_to_timespec intervalMs\<rparr>
       (t\<lparr>tm_callback := Some callback\<rparr>)"

definition timer_stop :: "'cb timer \<Rightarrow> 'cb timer" where
  "timer_stop t = (if tm_timerFd t < 0 then t else t\<lparr>tm_spec := disarmed\<rparr>)"

text \<open>\<open>handleRead\<close>: the callback to run when eight bytes were read.\<close>

definition timer_handleRead :: "bool \<Rightarrow> 'cb timer \<Rightarrow> 'cb option" where
  "timer_handleRead readOk t = (if readOk then tm_callback t else None)"

definition destroy_timer :: "bool \<Rightarrow> 'cb timer \<Rightarrow> 'c event_loop \<Rightarrow> 'c event_loop \<times> int list" where
  "destroy_timer permitted t l =
     (let t' = timer_stop t in
      if tm_timerFd t' \<ge> 0 
      then (close_fd (tm_timerFd t') (snd (removeChannel permitted (new_channel (tm_timerFd t')) l)), [tm_timerFd t'])
      else (l, []))"

subsection \<open>Scheduler\<close>

record 'cb task =
  tk_intervalMs :: u64
  tk_callback :: 'cb
  tk_timer :: "'cb timer"

record ('cb, 'c) scheduler =
  ds_loop :: "'c event_loop"
  ds_tasks :: "(u64, 'cb task) umap"
  ds_nextTaskId :: u64
  ds_running :: bool
  ds_opened :: "int list"
  ds_closed :: "int list"

text \<open>\<open>None\<close> is the exception for a null event loop; the last two fields record the timer descriptors opened and closed.\<close>

definition new_scheduler :: "'c event_loop option \<Rightarrow> ('cb, 'c) scheduler option" where
  "new_scheduler loop = map_option (\<lambda>l. \<lparr>ds_loop = l, ds_tasks = [], ds_nextTaskId = 1, ds_running = False,
     ds_opened = [], ds_closed = []\<rparr>) loop"

record scheduler_results =
  sr_timerfd :: int
  sr_add :: bool
  sr_del :: bool
  sr_settime :: "u64 \<Rightarrow> bool"

definition startTask :: "bool \<Rightarrow> 'cb task \<Rightarrow> bool \<times> 'cb task" where
  "startTask ok task =
     (let (started, t) = startPeriodic ok (tk_intervalMs task) (tk_callback task) (tk_timer task)
      in (started, task\<lparr>tk_timer := t\<rparr>))"

definition stop_task :: "'cb task \<Rightarrow> 'cb task" where
  "stop_task task = task\<lparr>tk_timer := timer_stop (tk_timer task)\<rparr>"

text \<open>Erasing a task destroys its timer.\<close>

definition erase_task :: "bool \<Rightarrow> u64 \<Rightarrow> 'cb timer \<Rightarrow> ('cb, 'c) scheduler \<Rightarrow> ('cb, 'c) scheduler" where
  "erase_task permitted taskId t s =
     (let (l, closed) = destroy_timer permitted t (ds_loop s)
      in s\<lparr>ds_loop := l, ds_tasks := um_erase taskId (ds_tasks s), ds_closed := ds_closed s @ closed\<rparr>)"

definition addTask :: "scheduler_results \<Rightarrow> (int \<Rightarrow> 'c) \<Rightarrow> u64 \<Rightarrow> 'cb option \<Rightarrow> ('cb, 'c) scheduler \<Rightarrow>
    u64 \<times> ('cb, 'c) scheduler" where
  "addTask os mk intervalMs callback s =
     (case callback of
        None \<Rightarrow> (0, s)
      | Some cb \<Rightarrow>
          if intervalMs = 0 then (0, s)
          else (case new_timer mk (sr_timerfd os) (sr_add os) (ds_loop s) of
              (Inl _, l, closed) \<Rightarrow>
                (0, s\<lparr>ds_loop := l, ds_opened := ds_opened s @ closed, ds_closed := ds_closed s @ closed\<rparr>)
            | (Inr t, l, _) \<Rightarrow>
                (let taskId = ds_nextTaskId s;
                     task = \<lparr>tk_intervalMs = intervalMs, tk_callback = cb, tk_timer = t\<rparr>;
                     s1 = s\<lparr>ds_loop := l, ds_nextTaskId := taskId + 1, ds_opened := ds_opened s @ [tm_timerFd t],
                            ds_tasks := um_emplace taskId task (ds_tasks s)\<rparr>
                 in if \<not> ds_running s then (taskId, s1)
                    else (case um_find (ds_tasks s1) taskId of
                        None \<Rightarrow> (taskId, s1)
                      | Some entry \<Rightarrow>
                          (let (started, entry') = startTask (sr_settime os taskId) entry;
                               s2 = s1\<lparr>ds_tasks := um_set taskId entry' (ds_tasks s1)\<rparr>
                           in if started then (taskId, s2)
                              else (0, erase_task (sr_del os) taskId (tk_timer entry') s2))))))"

definition removeTask :: "scheduler_results \<Rightarrow> u64 \<Rightarrow> ('cb, 'c) scheduler \<Rightarrow> bool \<times> ('cb, 'c) scheduler" where
  "removeTask os taskId s =
     (case um_find (ds_tasks s) taskId of
        None \<Rightarrow> (False, s)
      | Some task \<Rightarrow> (True, erase_task (sr_del os) taskId (timer_stop (tk_timer task)) s))"

text \<open>The loop of \<open>start\<close>: it ends at the first task that does not start.\<close>

fun start_tasks :: "(u64 \<Rightarrow> bool) \<Rightarrow> (u64, 'cb task) umap \<Rightarrow> bool \<times> (u64, 'cb task) umap" where
  "start_tasks ok [] = (True, [])"
| "start_tasks ok ((taskId, task) # tasks) =
     (let (started, task') = startTask (ok taskId) task in
      if \<not> started then (False, (taskId, task') # tasks)
      else (let (all, tasks') = start_tasks ok tasks in (all, (taskId, task') # tasks')))"

definition scheduler_start :: "scheduler_results \<Rightarrow> ('cb, 'c) scheduler \<Rightarrow> bool \<times> ('cb, 'c) scheduler" where
  "scheduler_start os s =
     (if ds_running s then (True, s)
      else (let (all, tasks) = start_tasks (sr_settime os) (ds_tasks s) in
        if \<not> all then (False, s\<lparr>ds_tasks := um_each stop_task tasks\<rparr>)
        else (True, s\<lparr>ds_tasks := tasks, ds_running := True\<rparr>)))"

definition scheduler_stop :: "('cb, 'c) scheduler \<Rightarrow> ('cb, 'c) scheduler" where
  "scheduler_stop s = s\<lparr>ds_tasks := um_each stop_task (ds_tasks s), ds_running := False\<rparr>"

definition scheduler_isRunning :: "('cb, 'c) scheduler \<Rightarrow> bool" where
  "scheduler_isRunning s = ds_running s"

definition taskCount :: "('cb, 'c) scheduler \<Rightarrow> nat" where
  "taskCount s = length (ds_tasks s)"

text \<open>The destructor stops the scheduler, then destroys the timers of the remaining tasks.\<close>

definition destroy_scheduler :: "bool \<Rightarrow> ('cb, 'c) scheduler \<Rightarrow> ('cb, 'c) scheduler" where
  "destroy_scheduler permitted s =
     (let s1 = scheduler_stop s
      in fold (\<lambda>(taskId, task). erase_task permitted taskId (tk_timer task)) (ds_tasks s1) s1)"

subsection \<open>The running state decides which timers are armed\<close>

definition timespec_ns :: "u64 \<times> u64 \<Rightarrow> nat" where
  "timespec_ns ts = unat (fst ts) * 1000000000 + unat (snd ts)"

text \<open>The kernel setting is valid (nanoseconds below one second) and means the given number of milliseconds.\<close>

lemma ms_to_timespec_exact:
  "timespec_ns (ms_to_timespec ms) = unat ms * 1000000 \<and> unat (snd (ms_to_timespec ms)) < 1000000000"
proof -
  have m: "unat (ms mod 1000) < 1000" by (simp add: unat_mod)
  have n: "unat ((ms mod 1000) * 1000000) = unat (ms mod 1000) * 1000000"
    using m by (subst unat_mult_lem [THEN iffD1]) simp_all
  have "unat ms = 1000 * (unat ms div 1000) + unat ms mod 1000" by (rule mult_div_mod_eq [symmetric])
  then have "unat ms div 1000 * 1000000000 + unat ms mod 1000 * 1000000 = unat ms * 1000000" by linarith
  then show ?thesis using m unfolding timespec_ns_def ms_to_timespec_def fst_conv snd_conv n
    by (simp add: unat_div unat_mod)
qed

lemma ms_to_timespec_zero: "ms_to_timespec ms = (0, 0) \<longleftrightarrow> ms = 0"
  using ms_to_timespec_exact [of ms] by (auto simp: timespec_ns_def ms_to_timespec_def unat_eq_zero)

definition task_ok :: "bool \<Rightarrow> 'cb task \<Rightarrow> bool" where
  "task_ok running task \<longleftrightarrow> tk_intervalMs task \<noteq> 0 \<and> 0 \<le> tm_timerFd (tk_timer task) \<and>
     (if running
      then tm_callback (tk_timer task) = Some (tk_callback task) \<and>
        tm_spec (tk_timer task) =
          \<lparr>it_value = ms_to_timespec (tk_intervalMs task), it_interval = ms_to_timespec (tk_intervalMs task)\<rparr>
      else tm_spec (tk_timer task) = disarmed)"

definition task_fd :: "'cb task \<Rightarrow> int" where
  "task_fd task = tm_timerFd (tk_timer task)"

definition sched_inv :: "nat \<Rightarrow> ('cb, 'c) scheduler \<Rightarrow> bool" where
  "sched_inv n s \<longleftrightarrow> um_wf (ds_tasks s) \<and> 0 < ds_nextTaskId s \<and> unat (ds_nextTaskId s) \<le> Suc n \<and>
     (\<forall>i t. um_find (ds_tasks s) i = Some t \<longrightarrow> task_ok (ds_running s) t \<and> 0 < i \<and> i < ds_nextTaskId s) \<and>
     (\<forall>fd. count_list (ds_opened s) fd = count_list (ds_closed s) fd + um_count (\<lambda>t. task_fd t = fd) (ds_tasks s))"

lemma startTask_spec:
  assumes "startTask ok t = (started, t')" and "tk_intervalMs t \<noteq> 0" "0 \<le> task_fd t"
  shows "started = ok \<and> (ok \<longrightarrow> task_ok True t') \<and> task_fd t' = task_fd t \<and> tk_intervalMs t' = tk_intervalMs t \<and>
    task_ok False (stop_task t')"
  using assms by (auto simp: startTask_def startPeriodic_def timer_settime_def task_ok_def task_fd_def stop_task_def timer_stop_def
      split: if_splits)

lemma stop_task_ok: "task_ok r t \<Longrightarrow> task_ok False (stop_task t)"
  by (simp add: task_ok_def stop_task_def timer_stop_def)

lemma stop_task_fd [simp]: "task_fd (stop_task t) = task_fd t"
  by (simp add: task_fd_def stop_task_def timer_stop_def)

lemma um_count_each: "um_count P (um_each f m) = um_count (\<lambda>v. P (f v)) m"
  by (simp add: um_count_def um_each_def filter_map comp_def case_prod_beta)

lemma start_tasks_spec:
  "start_tasks ok ts = (all, ts') \<Longrightarrow> list_all (\<lambda>x. task_ok False (snd x)) ts \<Longrightarrow>
    um_keys ts' = um_keys ts \<and> um_count (\<lambda>t. task_fd t = fd) ts' = um_count (\<lambda>t. task_fd t = fd) ts \<and>
    list_all (\<lambda>x. if all then task_ok True (snd x) else task_ok False (stop_task (snd x))) ts'"
proof (induction ok ts arbitrary: all ts' rule: start_tasks.induct)
  case (2 ok i t ts)
  obtain st t1 where t1: "startTask (ok i) t = (st, t1)" by (metis surj_pair)
  obtain a ts1 where ts1: "start_tasks ok ts = (a, ts1)" by (metis surj_pair)
  have t: "task_ok False t" using "2.prems"(2) by simp
  then have s: "st = ok i \<and> (ok i \<longrightarrow> task_ok True t1) \<and> task_fd t1 = task_fd t \<and> task_ok False (stop_task t1)"
    using startTask_spec [OF t1] by (simp add: task_ok_def task_fd_def)
  show ?case
  proof (cases st)
    case False
    then have "all = False" "ts' = (i, t1) # ts" using "2.prems"(1) t1 by simp_all
    then show ?thesis using s "2.prems"(2) stop_task_ok by (auto simp: um_count_def list_all_iff)
  next
    case True
    then have r: "all = a" "ts' = (i, t1) # ts1" using "2.prems"(1) t1 ts1 by simp_all
    have "task_ok False (stop_task t1)" "task_ok True t1" using s True by simp_all
    with "2.IH" [OF t1 [symmetric] refl _ ts1] "2.prems"(2) True show ?thesis by (auto simp: r s um_count_def)
  qed
qed simp

lemma um_wf_keys: "um_keys m' = um_keys m \<Longrightarrow> um_wf m \<Longrightarrow> um_wf m'"
  by (simp add: um_wf_def)

lemma sched_inv_stop: "sched_inv n s \<Longrightarrow> sched_inv n (scheduler_stop s)"
  by (auto simp: sched_inv_def scheduler_stop_def um_find_each um_count_each intro: wf_intros stop_task_ok)

lemma sched_inv_start:
  assumes inv: "sched_inv n s" and r: "scheduler_start os s = (ok, s')"
  shows "sched_inv n s' \<and> ds_running s' = ok"
proof (cases "ds_running s")
  case True
  then show ?thesis using assms by (simp add: scheduler_start_def)
next
  case False
  obtain all ts where ts: "start_tasks (sr_settime os) (ds_tasks s) = (all, ts)" by (metis surj_pair)
  have wf: "um_wf (ds_tasks s)" using inv by (simp add: sched_inv_def)
  have pre: "list_all (\<lambda>x. task_ok False (snd x)) (ds_tasks s)"
    using inv wf False by (auto simp: sched_inv_def list_all_iff um_mem_find)
  have keys: "um_keys ts = um_keys (ds_tasks s)" using start_tasks_spec [OF ts pre] by blast
  then have dom: "dom (um_find ts) = dom (um_find (ds_tasks s))" by (simp add: um_keys_dom [symmetric])
  have wf': "um_wf ts" using um_wf_keys [OF keys wf] .
  have ids: "0 < i \<and> i < ds_nextTaskId s" if "um_find ts i = Some t" for i t
  proof -
    have "i \<in> dom (um_find (ds_tasks s))" using that dom by blast
    then show ?thesis using inv by (auto simp: sched_inv_def)
  qed
  have tasks: "if all then task_ok True t else task_ok False (stop_task t)" if "um_find ts i = Some t" for i t
    using start_tasks_spec [OF ts pre, of 0] um_find_mem [OF that] by (fastforce simp: list_all_iff split: if_splits)
  have cnt: "um_count (\<lambda>t. task_fd t = fd) ts = um_count (\<lambda>t. task_fd t = fd) (ds_tasks s)" for fd
    using start_tasks_spec [OF ts pre] by blast
  show ?thesis
  proof (cases all)
    case True
    then have "ok" "s' = s\<lparr>ds_tasks := ts, ds_running := True\<rparr>" using r False ts by (simp_all add: scheduler_start_def)
    then show ?thesis using inv wf' ids tasks cnt True by (simp add: sched_inv_def)
  next
    case ff: False
    then have "\<not> ok" "s' = s\<lparr>ds_tasks := um_each stop_task ts\<rparr>" using r False ts by (simp_all add: scheduler_start_def)
    then show ?thesis using inv wf' ids tasks cnt ff False
      by (auto simp: sched_inv_def um_find_each um_count_each intro: wf_intros)
  qed
qed

lemma sched_inv_erase:
  assumes inv: "um_wf (ds_tasks s)" and f: "um_find (ds_tasks s) i = Some t" and fd: "tm_timerFd t' = task_fd t" "0 \<le> task_fd t"
    and c: "\<And>fd. count_list (ds_opened s) fd = count_list (ds_closed s) fd + um_count (\<lambda>t. task_fd t = fd) (ds_tasks s)"
  shows "count_list (ds_opened (erase_task p i t' s)) fd =
      count_list (ds_closed (erase_task p i t' s)) fd + um_count (\<lambda>t. task_fd t = fd) (ds_tasks (erase_task p i t' s)) \<and>
    ds_tasks (erase_task p i t' s) = um_erase i (ds_tasks s) \<and> ds_running (erase_task p i t' s) = ds_running s \<and>
    ds_nextTaskId (erase_task p i t' s) = ds_nextTaskId s"
  using fd c [of fd] um_count_erase [OF inv f, of "\<lambda>t. task_fd t = fd"]
  by (auto simp: erase_task_def destroy_timer_def timer_stop_def Let_def split: if_splits prod.splits)

lemma sched_inv_remove:
  assumes inv: "sched_inv n s" and r: "removeTask os i s = (ok, s')"
  shows "sched_inv n s' \<and> (ok \<longleftrightarrow> um_find (ds_tasks s) i \<noteq> None) \<and> um_find (ds_tasks s') i = None"
proof (cases "um_find (ds_tasks s) i")
  case None
  then show ?thesis using assms by (simp add: removeTask_def)
next
  case (Some t)
  have wf: "um_wf (ds_tasks s)" and c: "\<And>fd. count_list (ds_opened s) fd = count_list (ds_closed s) fd + um_count (\<lambda>t. task_fd t = fd) (ds_tasks s)"
    and ok: "task_ok (ds_running s) t"
    using inv Some by (simp_all add: sched_inv_def)
  have fd: "tm_timerFd (timer_stop (tk_timer t)) = task_fd t" "0 \<le> task_fd t"
    using ok by (simp_all add: task_ok_def task_fd_def timer_stop_def)
  have s': "s' = erase_task (sr_del os) i (timer_stop (tk_timer t)) s" "ok" using r Some by (simp_all add: removeTask_def)
  note e = sched_inv_erase [OF wf Some fd c, of "sr_del os"]
  then show ?thesis using inv Some
    by (auto simp: sched_inv_def s' um_find_erase split: if_splits intro: wf_intros)
qed

lemma new_timer_fd: "new_timer mk fd p l = (Inr t, l', cl) \<Longrightarrow> tm_timerFd t = fd \<and> 0 \<le> fd \<and> tm_spec t = disarmed"
  by (auto simp: new_timer_def Let_def split: if_splits prod.splits)

lemma sched_inv_mono: "sched_inv n s \<Longrightarrow> n \<le> m \<Longrightarrow> sched_inv m s"
  by (auto simp: sched_inv_def)

text \<open>Registering a task in the state the scheduler is in.\<close>

lemma sched_inv_emplace:
  assumes inv: "sched_inv n s" and n: "Suc n < 2 ^ 64 - 1" and t: "task_ok (ds_running s) t"
  shows "sched_inv (Suc n) (s\<lparr>ds_loop := l, ds_nextTaskId := ds_nextTaskId s + 1,
    ds_opened := ds_opened s @ [task_fd t], ds_tasks := um_emplace (ds_nextTaskId s) t (ds_tasks s)\<rparr>)"
proof -
  have b: "unat (ds_nextTaskId s) \<le> Suc n" using inv by (simp add: sched_inv_def)
  then have nx: "ds_nextTaskId s \<noteq> - 1" using n by (auto simp: unsigned_minus_1_eq_mask mask_eq_exp_minus_1)
  then have lt: "ds_nextTaskId s < ds_nextTaskId s + 1" by (rule word_less_Suc)
  have u: "unat (ds_nextTaskId s + 1) = Suc (unat (ds_nextTaskId s))" using nx by (rule unat_plus_one)
  have new: "um_find (ds_tasks s) (ds_nextTaskId s) = None"
    using inv by (cases "um_find (ds_tasks s) (ds_nextTaskId s)") (auto simp: sched_inv_def)
  have "0 < ds_nextTaskId s" using inv by (simp add: sched_inv_def)
  then have pos: "0 < ds_nextTaskId s + 1" using lt by order
  have ids: "0 < i \<and> i < ds_nextTaskId s + 1" if "0 < i" "i < ds_nextTaskId s" for i using that lt by (metis order.strict_trans)
  show ?thesis
    using inv new pos ids lt u b t
    by (auto simp: sched_inv_def um_find_emplace um_count_emplace intro: wf_intros split: if_splits)
qed

lemma um_set_emplace: "um_find m k = None \<Longrightarrow> um_set k v' (um_emplace k v m) = um_emplace k v' m"
proof -
  have "map_of m k = None \<Longrightarrow> AList.update k v' (m @ [(k, v)]) = m @ [(k, v')]" by (induction m) (auto split: if_splits)
  then show "um_find m k = None \<Longrightarrow> ?thesis" by (simp add: um_emplace_def)
qed

lemma um_erase_emplace: "um_find m k = None \<Longrightarrow> um_erase k (um_emplace k v m) = m"
proof -
  have "map_of m k = None \<Longrightarrow> AList.delete k (m @ [(k, v)]) = m"
    by (induction m) (auto simp: AList.delete_eq split: if_splits)
  then show "um_find m k = None \<Longrightarrow> ?thesis" by (simp add: um_emplace_def)
qed

lemma um_emplace_new: "um_find m k = None \<Longrightarrow> um_find (um_emplace k v m) k = Some v"
  by (simp add: um_find_emplace)

text \<open>A task that could not be started is gone again: only its id is used up.\<close>

lemma sched_inv_withdraw:
  assumes inv: "sched_inv n s" and n: "Suc n < 2 ^ 64 - 1" and fd: "tm_timerFd t = f" "0 \<le> f"
  shows "sched_inv (Suc n) (erase_task p (ds_nextTaskId s) t (s\<lparr>ds_loop := l, ds_nextTaskId := ds_nextTaskId s + 1,
    ds_opened := ds_opened s @ [f], ds_tasks := um_emplace (ds_nextTaskId s) v (ds_tasks s)\<rparr>))"
proof -
  have new: "um_find (ds_tasks s) (ds_nextTaskId s) = None"
    using inv by (cases "um_find (ds_tasks s) (ds_nextTaskId s)") (auto simp: sched_inv_def)
  have nx: "ds_nextTaskId s \<noteq> - 1" using inv n by (auto simp: sched_inv_def unsigned_minus_1_eq_mask mask_eq_exp_minus_1)
  then have lt: "ds_nextTaskId s < ds_nextTaskId s + 1" by (rule word_less_Suc)
  have "0 < ds_nextTaskId s + 1" using lt by (metis order.strict_trans1 word_zero_le)
  moreover have "unat (ds_nextTaskId s + 1) \<le> Suc (unat (ds_nextTaskId s))" using nx by (simp add: unat_plus_one)
  moreover have "0 < i \<and> i < ds_nextTaskId s + 1" if "0 < i" "i < ds_nextTaskId s" for i
    using that lt by (metis order.strict_trans)
  ultimately show ?thesis using inv fd
    by (auto simp: sched_inv_def erase_task_def destroy_timer_def timer_stop_def Let_def um_erase_emplace [OF new] split: prod.splits)
qed

lemma sched_inv_add:
  fixes cb :: "'cb option"
  assumes inv: "sched_inv n s" and n: "Suc n < 2 ^ 64 - 1" and a: "addTask os mk ms cb s = (i, s')"
  shows "sched_inv (Suc n) s' \<and> ds_running s' = ds_running s \<and>
    (if i = 0 then ds_tasks s' = ds_tasks s
     else i = ds_nextTaskId s \<and> um_find (ds_tasks s) i = None \<and>
       (\<exists>t. ds_tasks s' = um_emplace i t (ds_tasks s) \<and> tk_intervalMs t = ms \<and> cb = Some (tk_callback t)))"
proof (cases "cb = None \<or> ms = 0")
  case True
  then have "i = 0 \<and> s' = s" using a by (auto simp: addTask_def split: option.splits)
  then show ?thesis using inv sched_inv_mono [of n s "Suc n"] by simp
next
  case False
  then obtain c where c: "cb = Some c" "ms \<noteq> 0" by auto
  have new: "um_find (ds_tasks s) (ds_nextTaskId s) = None"
    using inv by (cases "um_find (ds_tasks s) (ds_nextTaskId s)") (auto simp: sched_inv_def)
  have nz: "ds_nextTaskId s \<noteq> 0" using inv by (auto simp: sched_inv_def)
  obtain r :: "timer_error + 'cb timer" and l cl where r: "new_timer mk (sr_timerfd os) (sr_add os) (ds_loop s) = (r, l, cl)" by (metis prod_cases3)
  show ?thesis
  proof (cases r)
    case (Inl e)
    then have "i = 0" "s' = s\<lparr>ds_loop := l, ds_opened := ds_opened s @ cl, ds_closed := ds_closed s @ cl\<rparr>"
      using a c r by (simp_all add: addTask_def)
    then show ?thesis using inv sched_inv_mono [of n s "Suc n"] by (auto simp: sched_inv_def)
  next
    case (Inr t)
    note t = new_timer_fd [OF r [unfolded Inr]]
    let ?task = "\<lparr>tk_intervalMs = ms, tk_callback = c, tk_timer = t\<rparr>"
    let ?s1 = "\<lambda>v. s\<lparr>ds_loop := l, ds_nextTaskId := ds_nextTaskId s + 1,
      ds_opened := ds_opened s @ [tm_timerFd t], ds_tasks := um_emplace (ds_nextTaskId s) v (ds_tasks s)\<rparr>"
    obtain st entry where e: "startTask (sr_settime os (ds_nextTaskId s)) ?task = (st, entry)" by (metis surj_pair)
    note es = startTask_spec [OF e]
    have cbk: "tk_callback entry = c" using e by (auto simp: startTask_def split: prod.splits)
    show ?thesis
    proof (cases "ds_running s")
      case False
      then have "i = ds_nextTaskId s" "s' = ?s1 ?task" using a c r Inr by (auto simp: addTask_def Let_def)
      then show ?thesis
        using sched_inv_emplace [OF inv n, of ?task l] False t c new nz by (auto simp: task_ok_def task_fd_def)
    next
      case run: True
      have s2: "(?s1 ?task)\<lparr>ds_tasks := um_set (ds_nextTaskId s) entry (ds_tasks (?s1 ?task))\<rparr> = ?s1 entry"
        by (simp add: um_set_emplace [OF new])
      show ?thesis
      proof (cases st)
        case True
        then have "i = ds_nextTaskId s" "s' = ?s1 entry"
          using a c r Inr run e new by (auto simp: addTask_def Let_def um_emplace_new um_set_emplace)
        then show ?thesis
          using sched_inv_emplace [OF inv n, of entry l] es run True t c new nz cbk by (auto simp: task_fd_def)
      next
        case False
        then have i: "i = 0" "s' = erase_task (sr_del os) (ds_nextTaskId s) (tk_timer entry) (?s1 entry)"
          using a c r Inr run e new by (auto simp: addTask_def Let_def um_emplace_new um_set_emplace)
        have "tm_timerFd (tk_timer entry) = tm_timerFd t" using es t c by (simp add: task_fd_def)
        then show ?thesis
          using sched_inv_withdraw [OF inv n, of "tk_timer entry" "tm_timerFd t"] t i
          by (auto simp: erase_task_def um_erase_emplace [OF new] split: prod.splits)
      qed
    qed
  qed
qed

subsection \<open>Runs of the scheduler\<close>

datatype 'cb sched_op =
    Sc_add scheduler_results u64 "'cb option" | Sc_remove scheduler_results u64 | Sc_start scheduler_results | Sc_stop

fun sched_step :: "(int \<Rightarrow> 'c) \<Rightarrow> 'cb sched_op \<Rightarrow> ('cb, 'c) scheduler \<Rightarrow> ('cb, 'c) scheduler" where
  "sched_step mk (Sc_add os ms cb) s = snd (addTask os mk ms cb s)"
| "sched_step mk (Sc_remove os i) s = snd (removeTask os i s)"
| "sched_step mk (Sc_start os) s = snd (scheduler_start os s)"
| "sched_step mk Sc_stop s = scheduler_stop s"

lemma sched_inv_step: "sched_inv n s \<Longrightarrow> Suc n < 2 ^ 64 - 1 \<Longrightarrow> sched_inv (Suc n) (sched_step mk op s)"
proof (cases op)
  case (Sc_add os ms cb)
  assume "sched_inv n s" "Suc n < 2 ^ 64 - 1"
  from sched_inv_add [OF this prod.collapse [symmetric]] show ?thesis using Sc_add by simp
next
  case (Sc_remove os i)
  assume "sched_inv n s"
  from sched_inv_remove [OF this prod.collapse [symmetric], of os i] show ?thesis using Sc_remove by (simp add: sched_inv_mono [of n])
next
  case (Sc_start os)
  assume "sched_inv n s"
  from sched_inv_start [OF this prod.collapse [symmetric], of os] show ?thesis using Sc_start by (simp add: sched_inv_mono [of n])
next
  case Sc_stop
  assume "sched_inv n s"
  from sched_inv_stop [OF this] show ?thesis using Sc_stop by (simp add: sched_inv_mono [of n])
qed

lemma sched_inv_run:
  "sched_inv n s \<Longrightarrow> n + length ops < 2 ^ 64 - 1 \<Longrightarrow> sched_inv (n + length ops) (fold (sched_step mk) ops s)"
proof (induction ops arbitrary: n s)
  case (Cons op ops)
  then have "sched_inv (Suc n) (sched_step mk op s)" using sched_inv_step [OF Cons.prems(1), of mk op] Cons.prems(2) by simp
  with Cons.IH [of "Suc n"] Cons.prems(2) show ?case by simp
qed simp

lemma sched_inv_new: "new_scheduler (Some l) = Some s \<Longrightarrow> sched_inv 0 s"
  by (auto simp: new_scheduler_def sched_inv_def)

text \<open>
  C16. After any sequence of additions, removals, starts and stops, with any failures of the kernel calls, a timer is
  armed exactly while the scheduler runs: then each task's timer has the task's own interval, to the millisecond, and
  its own callback, and otherwise none is armed. Every \<open>timerfd\<close> opened was closed again or belongs to a task.
\<close>

theorem scheduler_timers_exact:
  assumes "new_scheduler (Some l) = Some s0" and "length ops < 2 ^ 64 - 1" and s: "s = fold (sched_step mk) ops s0"
  shows "(case um_find (ds_tasks s) i of
       None \<Rightarrow> True
     | Some t \<Rightarrow>
         if scheduler_isRunning s
         then timer_handleRead True (tk_timer t) = Some (tk_callback t) \<and>
           timespec_ns (it_value (tm_spec (tk_timer t))) = unat (tk_intervalMs t) * 1000000 \<and>
           timespec_ns (it_interval (tm_spec (tk_timer t))) = unat (tk_intervalMs t) * 1000000 \<and>
           it_value (tm_spec (tk_timer t)) \<noteq> (0, 0)
         else tm_spec (tk_timer t) = disarmed) \<and>
    count_list (ds_opened s) fd = count_list (ds_closed s) fd + um_count (\<lambda>t. task_fd t = fd) (ds_tasks s)"
proof -
  have "sched_inv (length ops) s" using sched_inv_run [OF sched_inv_new [OF assms(1)], of ops mk] assms(2) by (simp add: s)
  then show ?thesis
    using ms_to_timespec_exact ms_to_timespec_zero
    by (cases "um_find (ds_tasks s) i") (simp_all add: sched_inv_def task_ok_def scheduler_isRunning_def timer_handleRead_def)
qed

definition demo_os :: "bool \<Rightarrow> scheduler_results" where
  "demo_os ok = \<lparr>sr_timerfd = 8, sr_add = True, sr_del = True, sr_settime = (\<lambda>_. ok)\<rparr>"

theorem scheduler_timers_exact_witness:
  "\<exists>s t. s = fold (sched_step (\<lambda>fd. fd)) [Sc_add (demo_os True) 1500 (Some ''poll''), Sc_start (demo_os True)]
        (the (new_scheduler (Some new_event_loop))) \<and>
     um_find (ds_tasks s) 1 = Some t \<and> scheduler_isRunning s \<and>
     timespec_ns (it_interval (tm_spec (tk_timer t))) = unat (tk_intervalMs t) * 1000000"
proof -
  let ?s = "fold (sched_step (\<lambda>fd. fd)) [Sc_add (demo_os True) 1500 (Some ''poll''), Sc_start (demo_os True)]
        (the (new_scheduler (Some new_event_loop)))"
  have n: "new_scheduler (Some new_event_loop) = Some (the (new_scheduler (Some new_event_loop)))"
    by (simp add: new_scheduler_def)
  have r: "scheduler_isRunning ?s" "\<exists>t. um_find (ds_tasks ?s) 1 = Some t"
    by (simp_all add: new_scheduler_def addTask_def demo_os_def new_timer_def addChannel_def new_event_loop_def new_channel_def
        setReadCallback_def setEvents_def scheduler_start_def um_emplace_def startTask_def startPeriodic_def timer_settime_def
        scheduler_isRunning_def Let_def)
  then obtain t where "um_find (ds_tasks ?s) 1 = Some t" by blast
  then show ?thesis
    using r(1) scheduler_timers_exact [OF n, of "[Sc_add (demo_os True) 1500 (Some ''poll''), Sc_start (demo_os True)]" ?s "\<lambda>fd. fd" 1]
    by auto
qed

end
