(* ===== verification/Scheduler_Loop.thy ===== *)
theory Scheduler_Loop
  imports Device_Scheduler
begin

section \<open>The scheduler's tasks on the event loop\<close>

text \<open>
  How \<open>device_scheduler.cpp\<close>, \<open>timer.cpp\<close> and \<open>event_loop.cpp\<close> work together: each task has a timer, each timer a
  channel in the loop's table whose read callback is \<open>Timer::handleRead\<close>, which runs the task's callback. An expired
  \<open>timerfd\<close> is reported by \<open>epoll_wait\<close> as readable. The kernel gives a descriptor that is not in use.
\<close>

subsection \<open>Every task is on the loop\<close>

text \<open>\<open>mk fd\<close> is the read callback the timer installs; different tasks have different descriptors.\<close>

definition tasks_on_loop :: "(int \<Rightarrow> 'c) \<Rightarrow> ('cb, 'c) scheduler \<Rightarrow> bool" where
  "tasks_on_loop mk s \<longleftrightarrow> (\<forall>i t. um_find (ds_tasks s) i = Some t \<longrightarrow>
     (\<exists>c. um_find (el_channels (ds_loop s)) (task_fd t) = Some c \<and> ch_readCallback c = Some (mk (task_fd t))) \<and>
     (\<forall>j u. um_find (ds_tasks s) j = Some u \<and> task_fd u = task_fd t \<longrightarrow> j = i))"

fun fresh_fd :: "'cb sched_op \<Rightarrow> ('cb, 'c) scheduler \<Rightarrow> bool" where
  "fresh_fd (Sc_add os ms cb) s = list_all (\<lambda>x. task_fd (snd x) \<noteq> sr_timerfd os) (ds_tasks s)"
| "fresh_fd _ s = True"

lemma tasks_on_loop_tasks:
  assumes "tasks_on_loop mk s" and "ds_loop s' = ds_loop s"
    and "\<And>i t. um_find (ds_tasks s') i = Some t \<Longrightarrow> \<exists>u. um_find (ds_tasks s) i = Some u \<and> task_fd t = task_fd u"
  shows "tasks_on_loop mk s'"
  using assms unfolding tasks_on_loop_def by (metis (no_types))

lemma on_loop_stop: "tasks_on_loop mk s \<Longrightarrow> tasks_on_loop mk (scheduler_stop s)"
  by (erule tasks_on_loop_tasks) (auto simp: scheduler_stop_def um_find_each)

lemma startTask_fd: "startTask ok t = (st, t') \<Longrightarrow> task_fd t' = task_fd t"
  by (auto simp: startTask_def startPeriodic_def timer_settime_def task_fd_def split: if_splits)

lemma start_tasks_find:
  "start_tasks ok ts = (all, ts') \<Longrightarrow> um_find ts' i = Some t \<Longrightarrow> \<exists>u. um_find ts i = Some u \<and> task_fd t = task_fd u"
  by (induction ok ts arbitrary: all ts' rule: start_tasks.induct)
    (auto simp: Let_def split: prod.splits if_splits dest: startTask_fd)

lemma on_loop_start: "tasks_on_loop mk s \<Longrightarrow> tasks_on_loop mk (snd (scheduler_start os s))"
  by (erule tasks_on_loop_tasks)
    (auto simp: scheduler_start_def um_find_each Let_def split: if_splits prod.splits dest!: start_tasks_find)

text \<open>Destroying one timer leaves the channels of the others.\<close>

lemma destroy_timer_channels:
  "destroy_timer p t l = (l', cl) \<Longrightarrow> fd \<noteq> tm_timerFd t \<Longrightarrow> um_find (el_channels l') fd = um_find (el_channels l) fd"
  by (auto simp: destroy_timer_def timer_stop_def close_fd_def removeChannel_def new_channel_def um_find_erase Let_def split: if_splits)

lemma on_loop_erase:
  assumes "tasks_on_loop mk s" and "um_find (ds_tasks s) i = Some t" and "tm_timerFd t' = task_fd t"
  shows "tasks_on_loop mk (erase_task p i t' s)"
proof -
  obtain l cl where d: "destroy_timer p t' (ds_loop s) = (l, cl)" by (metis surj_pair)
  have "task_fd u \<noteq> task_fd t" if "um_find (ds_tasks s) j = Some u" "j \<noteq> i" for j u
    using assms(1,2) that unfolding tasks_on_loop_def by metis
  then have "um_find (el_channels l) (task_fd u) = um_find (el_channels (ds_loop s)) (task_fd u)"
    if "um_find (ds_tasks s) j = Some u" "j \<noteq> i" for j u
    using that destroy_timer_channels [OF d] assms(3) by metis
  then show ?thesis using assms(1) unfolding tasks_on_loop_def
    by (auto simp: erase_task_def d um_find_erase split: if_splits)
qed

lemma on_loop_remove: "tasks_on_loop mk s \<Longrightarrow> tasks_on_loop mk (snd (removeTask os i s))"
  by (cases "um_find (ds_tasks s) i") (auto simp: removeTask_def timer_stop_def task_fd_def intro!: on_loop_erase)

lemma on_loop_register:
  assumes "tasks_on_loop mk s" and "um_find (ds_tasks s) i = None" and "task_fd t = fd"
    and "\<And>j u. um_find (ds_tasks s) j = Some u \<Longrightarrow> task_fd u \<noteq> fd"
    and "el_channels l = um_set fd c (el_channels (ds_loop s))" and "ch_readCallback c = Some (mk fd)"
    and "ds_loop s' = l" and "ds_tasks s' = um_emplace i t (ds_tasks s)"
  shows "tasks_on_loop mk s'"
  unfolding tasks_on_loop_def
proof (intro allI impI)
  fix j u
  assume u: "um_find (ds_tasks s') j = Some u"
  show "(\<exists>c. um_find (el_channels (ds_loop s')) (task_fd u) = Some c \<and> ch_readCallback c = Some (mk (task_fd u))) \<and>
     (\<forall>j' u'. um_find (ds_tasks s') j' = Some u' \<and> task_fd u' = task_fd u \<longrightarrow> j' = j)"
  proof (cases "j = i")
    case True
    then have "u = t" using u assms(2,8) by (simp add: um_find_emplace)
    then show ?thesis using assms(2-8) True by (auto simp: um_find_set um_find_emplace split: if_splits)
  next
    case False
    then have o: "um_find (ds_tasks s) j = Some u" using u assms(8) by (simp add: um_find_emplace split: if_splits)
    then have "(\<exists>c. um_find (el_channels (ds_loop s)) (task_fd u) = Some c \<and> ch_readCallback c = Some (mk (task_fd u))) \<and>
        (\<forall>j' u'. um_find (ds_tasks s) j' = Some u' \<and> task_fd u' = task_fd u \<longrightarrow> j' = j)"
      using assms(1) unfolding tasks_on_loop_def by blast
    then show ?thesis using assms(2-8) assms(4) [OF o] by (auto simp: um_find_set um_find_emplace split: if_splits)
  qed
qed

lemma new_timer_channels:
  "new_timer mk fd p l = (Inr t, l', cl) \<Longrightarrow> tm_timerFd t = fd \<and>
     (\<exists>c. el_channels l' = um_set fd c (el_channels l) \<and> ch_readCallback c = Some (mk fd))"
  by (auto simp: new_timer_def addChannel_def setReadCallback_def setEvents_def new_channel_def Let_def split: if_splits)

lemma new_timer_refused: "new_timer mk fd p l = (Inl e, l', cl) \<Longrightarrow> el_channels l' = el_channels l"
  by (auto simp: new_timer_def addChannel_def close_fd_def Let_def split: if_splits)

lemma on_loop_add:
  fixes cb :: "'cb option"
  assumes loop: "tasks_on_loop mk s" and new: "um_find (ds_tasks s) (ds_nextTaskId s) = None"
    and fresh: "fresh_fd (Sc_add os ms cb) s"
  shows "tasks_on_loop mk (snd (addTask os mk ms cb s))"
proof (cases "cb = None \<or> ms = 0")
  case True
  then show ?thesis using loop by (auto simp: addTask_def split: option.splits)
next
  case False
  then obtain c where c: "cb = Some c" "ms \<noteq> 0" by auto
  obtain r :: "timer_error + 'cb timer" and l cl where r: "new_timer mk (sr_timerfd os) (sr_add os) (ds_loop s) = (r, l, cl)"
    by (metis prod_cases3)
  have fd: "task_fd u \<noteq> sr_timerfd os" if "um_find (ds_tasks s) j = Some u" for j u
    using fresh um_find_mem [OF that] by (auto simp: list_all_iff)
  show ?thesis
  proof (cases r)
    case (Inl e)
    then show ?thesis using loop new_timer_refused [OF r [unfolded Inl]] c r by (simp add: addTask_def tasks_on_loop_def)
  next
    case (Inr t)
    obtain ch where ch: "tm_timerFd t = sr_timerfd os" "el_channels l = um_set (sr_timerfd os) ch (el_channels (ds_loop s))"
      "ch_readCallback ch = Some (mk (sr_timerfd os))"
      using new_timer_channels [OF r [unfolded Inr]] by blast
    let ?task = "\<lparr>tk_intervalMs = ms, tk_callback = c, tk_timer = t\<rparr>"
    let ?s1 = "\<lambda>v. s\<lparr>ds_loop := l, ds_nextTaskId := ds_nextTaskId s + 1,
      ds_opened := ds_opened s @ [tm_timerFd t], ds_tasks := um_emplace (ds_nextTaskId s) v (ds_tasks s)\<rparr>"
    obtain st entry where e: "startTask (sr_settime os (ds_nextTaskId s)) ?task = (st, entry)" by (metis surj_pair)
    have reg: "tasks_on_loop mk (?s1 v)" if "task_fd v = sr_timerfd os" for v
      using that fd ch by (intro on_loop_register [OF loop new, of v "sr_timerfd os" l ch]) simp_all
    have fds: "task_fd ?task = sr_timerfd os" "task_fd entry = sr_timerfd os"
      using startTask_fd [OF e] ch(1) by (simp_all add: task_fd_def)
    have "snd (addTask os mk ms cb s) = (if \<not> ds_running s then ?s1 ?task else if st then ?s1 entry
        else erase_task (sr_del os) (ds_nextTaskId s) (tk_timer entry) (?s1 entry))"
      using c r Inr e new by (simp add: addTask_def Let_def um_emplace_new um_set_emplace)
    moreover have "tasks_on_loop mk (erase_task (sr_del os) (ds_nextTaskId s) (tk_timer entry) (?s1 entry))"
      using reg [OF fds(2)] new by (intro on_loop_erase [where t = entry]) (simp_all add: um_emplace_new task_fd_def)
    ultimately show ?thesis using reg fds by simp
  qed
qed

subsection \<open>Runs\<close>

text \<open>Runs of the scheduler in which the kernel never hands out a descriptor that is in use.\<close>

fun fresh_run :: "(int \<Rightarrow> 'c) \<Rightarrow> 'cb sched_op list \<Rightarrow> ('cb, 'c) scheduler \<Rightarrow> bool" where
  "fresh_run mk [] s = True"
| "fresh_run mk (op # ops) s \<longleftrightarrow> fresh_fd op s \<and> fresh_run mk ops (sched_step mk op s)"

lemma on_loop_run:
  "sched_inv n s \<Longrightarrow> n + length ops < 2 ^ 64 - 1 \<Longrightarrow> tasks_on_loop mk s \<Longrightarrow> fresh_run mk ops s \<Longrightarrow>
     tasks_on_loop mk (fold (sched_step mk) ops s)"
proof (induction ops arbitrary: n s)
  case (Cons op ops)
  have new: "um_find (ds_tasks s) (ds_nextTaskId s) = None"
    using Cons.prems(1) by (cases "um_find (ds_tasks s) (ds_nextTaskId s)") (auto simp: sched_inv_def)
  have "tasks_on_loop mk (sched_step mk op s)"
  proof (cases op)
    case (Sc_add os ms cb)
    then show ?thesis using on_loop_add [OF Cons.prems(3) new, of os ms cb] Cons.prems(4) by simp
  qed (use Cons.prems(3) in \<open>simp_all add: on_loop_remove on_loop_start on_loop_stop\<close>)
  then show ?case
    using Cons.IH [of "Suc n" "sched_step mk op s"] sched_inv_step [OF Cons.prems(1), of mk op] Cons.prems(2,4) by simp
qed simp

subsection \<open>One turn of the event loop\<close>

text \<open>
  The read callback of a timer's channel, in a world of the tasks, the results of the reads of the descriptors and the
  callbacks that ran: \<open>Timer::handleRead\<close> of the timer with this descriptor.
\<close>

type_synonym 'cb timer_world = "(u64, 'cb task) umap \<times> (int \<Rightarrow> bool) \<times> 'cb list"

definition timer_event :: "int \<Rightarrow> int event_loop \<times> 'cb timer_world \<Rightarrow> int event_loop \<times> 'cb timer_world" where
  "timer_event fd lw =
     (let (l, tasks, readOk, called) = lw in
      case find (\<lambda>x. task_fd (snd x) = fd) tasks of
        None \<Rightarrow> (l, tasks, readOk, called)
      | Some (i, t) \<Rightarrow>
          (case timer_handleRead (readOk fd) (tk_timer t) of
             None \<Rightarrow> (l, tasks, readOk, called)
           | Some cb \<Rightarrow> (l, tasks, readOk, called @ [cb])))"

lemma handleEvent_readable: "handleEvent (setRevents EPOLLIN c) = ch_readCallback c"
  by (simp add: handleEvent_def setRevents_def EPOLLIN_def EPOLLERR_def EPOLLHUP_def EPOLLRDHUP_def)

lemma find_task:
  assumes "tasks_on_loop mk s" and "um_wf (ds_tasks s)" and "um_find (ds_tasks s) i = Some t"
  shows "find (\<lambda>x. task_fd (snd x) = task_fd t) (ds_tasks s) = Some (i, t)"
proof -
  have mem: "(i, t) \<in> set (ds_tasks s)" using um_find_mem [OF assms(3)] .
  then obtain x where x: "find (\<lambda>x. task_fd (snd x) = task_fd t) (ds_tasks s) = Some x"
    by (cases "find (\<lambda>x. task_fd (snd x) = task_fd t) (ds_tasks s)") (auto simp: find_None_iff)
  then have "x \<in> set (ds_tasks s)" "task_fd (snd x) = task_fd t" by (auto simp: find_Some_iff in_set_conv_nth)
  then have "um_find (ds_tasks s) (fst x) = Some (snd x)" using um_mem_find [OF assms(2), of "fst x" "snd x"] by simp
  then have "fst x = i" using assms(1,3) \<open>task_fd (snd x) = task_fd t\<close> unfolding tasks_on_loop_def by blast
  then show ?thesis using x \<open>um_find (ds_tasks s) (fst x) = Some (snd x)\<close> assms(3) by (cases x) simp
qed

lemma dispatch_tasks:
  assumes "tasks_on_loop (\<lambda>fd. fd) s" and "um_wf (ds_tasks s)"
    and "\<forall>i t. um_find (ds_tasks s) i = Some t \<longrightarrow> tm_callback (tk_timer t) = Some (tk_callback t)"
    and "\<forall>i t. um_find (ds_tasks s) i = Some t \<longrightarrow>
      (\<exists>c. um_find (el_channels l) (task_fd t) = Some c \<and> ch_readCallback c = Some (task_fd t))"
    and "list_all (\<lambda>(i, t). um_find (ds_tasks s) i = Some t) due"
  shows "snd (dispatch timer_event (map (\<lambda>(i, t). (task_fd t, EPOLLIN)) due) (l, ds_tasks s, readOk, called)) =
    (ds_tasks s, readOk, called @ map (\<lambda>(i, t). tk_callback t) (filter (\<lambda>(i, t). readOk (task_fd t)) due))"
  using assms(4,5)
proof (induction due arbitrary: l called)
  case (Cons x due)
  obtain i t where x: "x = (i, t)" by fastforce
  then have t: "um_find (ds_tasks s) i = Some t" using Cons.prems(2) by simp
  then obtain c where c: "um_find (el_channels l) (task_fd t) = Some c" "ch_readCallback c = Some (task_fd t)"
    using Cons.prems(1) by blast
  let ?l = "l\<lparr>el_channels := um_set (task_fd t) (setRevents EPOLLIN c) (el_channels l)\<rparr>"
  have e: "timer_event (task_fd t) (?l, ds_tasks s, readOk, called) =
      (?l, ds_tasks s, readOk, if readOk (task_fd t) then called @ [tk_callback t] else called)"
    using assms(3) t by (simp add: timer_event_def find_task [OF assms(1,2) t] timer_handleRead_def)
  have "\<exists>c. um_find (el_channels ?l) (task_fd u) = Some c \<and> ch_readCallback c = Some (task_fd u)"
    if "um_find (ds_tasks s) j = Some u" for j u
    using Cons.prems(1) that c(2) by (auto simp: um_find_set setRevents_def)
  then show ?case
    using Cons.IH [of ?l] Cons.prems(2) c e by (simp add: x handleEvent_readable)
qed simp


definition two_tasks :: "string sched_op list" where
  "two_tasks = [Sc_add (demo_os True) 1500 (Some ''poll''), Sc_add ((demo_os True)\<lparr>sr_timerfd := 9\<rparr>) 200 (Some ''scan''),
     Sc_start (demo_os True)]"


end
