(* ===== verification/Socket_Server.thy ===== *)
theory Socket_Server
  imports Event_Loop "HOL-Library.Sublist"
begin

section \<open>What the two socket servers share\<close>

text \<open>
  \<open>TcpServer\<close> and \<open>UnixDomainServer\<close> keep the same state: a listening socket with its channel, and a table of clients,
  each with a channel of the event loop and a queue of output. They differ in the queue (bytes with an offset; whole
  messages). Here are the state, the operations whose code is the same in both (accepting, removing, stopping), a log of
  what the sockets did, and the invariants: every client's channel is registered in the loop with its mask, nothing
  else of the server is, and what was sent on a connection, followed by the queue, is what was queued on it.
\<close>

datatype server_cb = Srv_accept | Srv_read int | Srv_write int | Srv_error int | Srv_listenError | Srv_other nat

datatype 'a server_event = Sv_socket int | Sv_accept int | Sv_in int "'a list" | Sv_out int "'a list" | Sv_close int

text \<open>How the loop of a read or write handler ends.\<close>

datatype io_end = Io_done | Io_again | Io_failed | Io_closed

record 'q client =
  cl_channel :: "server_cb channel"
  cl_queue :: 'q

record ('q, 'a) server =
  sv_loop :: "server_cb event_loop"
  sv_listenFd :: int
  sv_listenChannel :: "server_cb channel option"
  sv_clients :: "(int, 'q client) umap"
  sv_log :: "'a server_event list"

definition new_server :: "server_cb event_loop \<Rightarrow> ('q, 'a) server" where
  "new_server l = \<lparr>sv_loop = l, sv_listenFd = - 1, sv_listenChannel = None, sv_clients = [], sv_log = []\<rparr>"

text \<open>The kernel's answers to \<open>EPOLL_CTL_ADD\<close> and \<open>EPOLL_CTL_DEL\<close> during one call, per descriptor.\<close>

record loop_results =
  lr_add :: "int \<Rightarrow> bool"
  lr_del :: "int \<Rightarrow> bool"

definition sv_logged :: "'a server_event list \<Rightarrow> ('q, 'a) server \<Rightarrow> ('q, 'a) server" where
  "sv_logged es s = s\<lparr>sv_log := sv_log s @ es\<rparr>"

definition sv_close :: "int \<Rightarrow> ('q, 'a) server \<Rightarrow> ('q, 'a) server" where
  "sv_close fd s = sv_logged [Sv_close fd] (s\<lparr>sv_loop := close_fd fd (sv_loop s)\<rparr>)"

definition set_queue :: "int \<Rightarrow> 'q \<Rightarrow> ('q, 'a) server \<Rightarrow> ('q, 'a) server" where
  "set_queue fd q s =
     (case um_find (sv_clients s) fd of
        None \<Rightarrow> s
      | Some c \<Rightarrow> s\<lparr>sv_clients := um_set fd (c\<lparr>cl_queue := q\<rparr>) (sv_clients s)\<rparr>)"

definition client_channel :: "int \<Rightarrow> server_cb channel" where
  "client_channel clientFd =
     setErrorCallback (Srv_error clientFd) (setWriteCallback (Srv_write clientFd) (setReadCallback (Srv_read clientFd)
       (setEvents (EPOLLIN OR EPOLLRDHUP) (new_channel clientFd))))"

text \<open>One iteration of \<open>handleAccept\<close> with a new connection.\<close>

definition accept_client :: "'q \<Rightarrow> loop_results \<Rightarrow> int \<Rightarrow> ('q, 'a) server \<Rightarrow> ('q, 'a) server" where
  "accept_client q0 os clientFd s =
     (let s1 = sv_logged [Sv_accept clientFd] s;
          (added, l) = addChannel (lr_add os clientFd) (client_channel clientFd) (sv_loop s1);
          s2 = s1\<lparr>sv_loop := l\<rparr>
      in if \<not> added then sv_close clientFd s2
         else s2\<lparr>sv_clients := um_emplace clientFd \<lparr>cl_channel = client_channel clientFd, cl_queue = q0\<rparr> (sv_clients s2)\<rparr>)"

fun handleAccept :: "'q \<Rightarrow> loop_results \<Rightarrow> int sys_result list \<Rightarrow> ('q, 'a) server \<Rightarrow> ('q, 'a) server option" where
  "handleAccept q0 os [] s = None"
| "handleAccept q0 os (r # rs) s =
     (case r of
        Sys_ok clientFd \<Rightarrow> handleAccept q0 os rs (accept_client q0 os clientFd s)
      | Sys_EINTR \<Rightarrow> handleAccept q0 os rs s
      | _ \<Rightarrow> Some s)"

definition removeClient :: "loop_results \<Rightarrow> int \<Rightarrow> ('q, 'a) server \<Rightarrow> ('q, 'a) server" where
  "removeClient os clientFd s =
     (case um_find (sv_clients s) clientFd of
        None \<Rightarrow> s
      | Some c \<Rightarrow>
          (let s1 = s\<lparr>sv_loop := snd (removeChannel (lr_del os clientFd) (cl_channel c) (sv_loop s))\<rparr>
           in (sv_close clientFd s1)\<lparr>sv_clients := um_erase clientFd (sv_clients s)\<rparr>))"

text \<open>The loop of \<open>stop\<close> over the clients, \<open>clients_.clear()\<close>, and the listening socket.\<close>

fun close_clients :: "loop_results \<Rightarrow> (int, 'q client) umap \<Rightarrow> ('q, 'a) server \<Rightarrow> ('q, 'a) server" where
  "close_clients os [] s = s"
| "close_clients os ((fd, c) # cs) s =
     close_clients os cs (sv_close fd (s\<lparr>sv_loop := snd (removeChannel (lr_del os fd) (cl_channel c) (sv_loop s))\<rparr>))"

definition close_listener :: "loop_results \<Rightarrow> ('q, 'a) server \<Rightarrow> ('q, 'a) server" where
  "close_listener os s =
     (let s1 = (case sv_listenChannel s of
                  None \<Rightarrow> s
                | Some c \<Rightarrow> s\<lparr>sv_loop := snd (removeChannel (lr_del os (sv_listenFd s)) c (sv_loop s)), sv_listenChannel := None\<rparr>)
      in if 0 \<le> sv_listenFd s1 then (sv_close (sv_listenFd s1) s1)\<lparr>sv_listenFd := - 1\<rparr> else s1)"

definition server_stop :: "loop_results \<Rightarrow> ('q, 'a) server \<Rightarrow> ('q, 'a) server" where
  "server_stop os s = close_listener os ((close_clients os (sv_clients s) s)\<lparr>sv_clients := []\<rparr>)"

definition listen_channel :: "int \<Rightarrow> server_cb channel" where
  "listen_channel fd = setErrorCallback Srv_listenError (setReadCallback Srv_accept (setEvents EPOLLIN (new_channel fd)))"

subsection \<open>What happened on a connection\<close>

text \<open>Per descriptor, since it was last accepted: what was queued for it and what was sent.\<close>

fun conn_in :: "int \<Rightarrow> 'a server_event list \<Rightarrow> 'a list \<Rightarrow> 'a list" where
  "conn_in fd [] acc = acc"
| "conn_in fd (Sv_accept x # es) acc = conn_in fd es (if x = fd then [] else acc)"
| "conn_in fd (Sv_in x xs # es) acc = conn_in fd es (if x = fd then acc @ xs else acc)"
| "conn_in fd (_ # es) acc = conn_in fd es acc"

fun conn_out :: "int \<Rightarrow> 'a server_event list \<Rightarrow> 'a list \<Rightarrow> 'a list" where
  "conn_out fd [] acc = acc"
| "conn_out fd (Sv_accept x # es) acc = conn_out fd es (if x = fd then [] else acc)"
| "conn_out fd (Sv_out x xs # es) acc = conn_out fd es (if x = fd then acc @ xs else acc)"
| "conn_out fd (_ # es) acc = conn_out fd es acc"

definition queued_on :: "int \<Rightarrow> ('q, 'a) server \<Rightarrow> 'a list" where "queued_on fd s = conn_in fd (sv_log s) []"
definition sent_on :: "int \<Rightarrow> ('q, 'a) server \<Rightarrow> 'a list" where "sent_on fd s = conn_out fd (sv_log s) []"

lemma conn_in_append [simp]: "conn_in fd (es @ fs) acc = conn_in fd fs (conn_in fd es acc)"
  by (induction fd es acc rule: conn_in.induct) auto

lemma conn_out_append [simp]: "conn_out fd (es @ fs) acc = conn_out fd fs (conn_out fd es acc)"
  by (induction fd es acc rule: conn_out.induct) auto

lemma queued_logged [simp]: "queued_on fd (sv_logged es s) = conn_in fd es (queued_on fd s)"
  and sent_logged [simp]: "sent_on fd (sv_logged es s) = conn_out fd es (sent_on fd s)"
  by (simp_all add: queued_on_def sent_on_def sv_logged_def)

subsection \<open>Invariants\<close>

text \<open>The mask under which the server has a descriptor registered.\<close>

definition registered :: "('q, 'a) server \<Rightarrow> int \<Rightarrow> u32 option" where
  "registered s fd =
     (case um_find (sv_clients s) fd of
        Some c \<Rightarrow> Some (ch_events (cl_channel c))
      | None \<Rightarrow> (case sv_listenChannel s of Some c \<Rightarrow> if fd = sv_listenFd s then Some (ch_events c) else None | None \<Rightarrow> None))"

text \<open>
  \<open>base\<close> is what other parts of the program have registered. The descriptor counts say that every socket that was
  created or accepted is open in the server's hands or was closed, once.
\<close>

definition server_inv :: "(int \<Rightarrow> u32 option) \<Rightarrow> ('q, 'a) server \<Rightarrow> bool" where
  "server_inv base s \<longleftrightarrow> um_wf (sv_clients s) \<and> loop_inv (sv_loop s) \<and>
     (\<forall>fd. um_find (el_interest (sv_loop s)) fd = (case registered s fd of Some e \<Rightarrow> Some e | None \<Rightarrow> base fd)) \<and>
     (\<forall>fd c. um_find (sv_clients s) fd = Some c \<longrightarrow> ch_fd (cl_channel c) = fd \<and> 0 \<le> fd \<and> fd \<noteq> sv_listenFd s \<and> base fd = None) \<and>
     (\<forall>c. sv_listenChannel s = Some c \<longrightarrow> 0 \<le> sv_listenFd s \<and> ch_fd c = sv_listenFd s) \<and>
     (0 \<le> sv_listenFd s \<longrightarrow> base (sv_listenFd s) = None) \<and>
     (\<forall>fd. count_list (sv_log s) (Sv_socket fd) + count_list (sv_log s) (Sv_accept fd) =
        count_list (sv_log s) (Sv_close fd) + (if um_find (sv_clients s) fd \<noteq> None then 1 else 0) +
        (if fd = sv_listenFd s \<and> 0 \<le> fd then 1 else 0))"

text \<open>A descriptor that the kernel can return for a new socket: it is not open.\<close>

definition fresh_fd :: "('q, 'a) server \<Rightarrow> int \<Rightarrow> bool" where
  "fresh_fd s fd \<longleftrightarrow> 0 \<le> fd \<and> um_find (sv_clients s) fd = None \<and> fd \<noteq> sv_listenFd s \<and>
     um_find (el_interest (sv_loop s)) fd = None"

fun fresh_accepts :: "'q \<Rightarrow> loop_results \<Rightarrow> int sys_result list \<Rightarrow> ('q, 'a) server \<Rightarrow> bool" where
  "fresh_accepts q0 os [] s \<longleftrightarrow> True"
| "fresh_accepts q0 os (Sys_ok fd # rs) s \<longleftrightarrow> fresh_fd s fd \<and> fresh_accepts q0 os rs (accept_client q0 os fd s)"
| "fresh_accepts q0 os (_ # rs) s \<longleftrightarrow> fresh_accepts q0 os rs s"

text \<open>The loop's calls can fail on \<open>EPOLL_CTL_ADD\<close> only: a registered descriptor can always be taken off.\<close>

definition dels_ok :: "loop_results \<Rightarrow> bool" where
  "dels_ok os \<longleftrightarrow> (\<forall>fd. lr_del os fd)"

lemma server_inv_new: "loop_inv l \<Longrightarrow> server_inv (um_find (el_interest l)) (new_server l)"
  by (simp add: server_inv_def new_server_def registered_def)

lemma client_channel_simps [simp]: "ch_fd (client_channel fd) = fd" "ch_events (client_channel fd) = EPOLLIN OR EPOLLRDHUP"
  by (simp_all add: client_channel_def setErrorCallback_def setWriteCallback_def setReadCallback_def setEvents_def new_channel_def)

lemma listen_channel_simps [simp]: "ch_fd (listen_channel fd) = fd" "ch_events (listen_channel fd) = EPOLLIN"
  by (simp_all add: listen_channel_def setErrorCallback_def setReadCallback_def setEvents_def new_channel_def)

lemma sv_close_simps [simp]:
  "sv_loop (sv_close fd s) = close_fd fd (sv_loop s)" "sv_clients (sv_close fd s) = sv_clients s"
  "sv_listenFd (sv_close fd s) = sv_listenFd s" "sv_listenChannel (sv_close fd s) = sv_listenChannel s"
  "sv_log (sv_close fd s) = sv_log s @ [Sv_close fd]"
  by (simp_all add: sv_close_def sv_logged_def)

lemma sv_logged_simps [simp]:
  "sv_loop (sv_logged es s) = sv_loop s" "sv_clients (sv_logged es s) = sv_clients s"
  "sv_listenFd (sv_logged es s) = sv_listenFd s" "sv_listenChannel (sv_logged es s) = sv_listenChannel s"
  "sv_log (sv_logged es s) = sv_log s @ es"
  by (simp_all add: sv_logged_def)

lemma registered_logged [simp]: "registered (sv_logged es s) fd = registered s fd"
  by (simp add: registered_def cong: option.case_cong)

text \<open>Only input and output was logged.\<close>

definition io_only :: "'a server_event list \<Rightarrow> bool" where
  "io_only es \<longleftrightarrow> list_all (\<lambda>e. case e of Sv_in _ _ \<Rightarrow> True | Sv_out _ _ \<Rightarrow> True | _ \<Rightarrow> False) es"

lemma io_only_count:
  "io_only es \<Longrightarrow> count_list es (Sv_socket fd) = 0 \<and> count_list es (Sv_accept fd) = 0 \<and> count_list es (Sv_close fd) = 0"
  by (auto simp: io_only_def list_all_iff count_list_0_iff)

lemma server_inv_logged: "server_inv base s \<Longrightarrow> io_only es \<Longrightarrow> server_inv base (sv_logged es s)"
  by (simp add: server_inv_def io_only_count)

lemma server_inv_set_queue: "server_inv base s \<Longrightarrow> server_inv base (set_queue fd q s)"
  by (auto simp: server_inv_def set_queue_def registered_def edgelink_simps split: option.splits intro: wf_intros)

lemma server_inv_accept:
  assumes inv: "server_inv base s" and fr: "fresh_fd s fd"
  shows "server_inv base (accept_client q0 os fd s)"
proof -
  obtain added l where a: "addChannel (lr_add os fd) (client_channel fd) (sv_loop s) = (added, l)" by (metis surj_pair)
  have li: "loop_inv (sv_loop s)" using inv by (simp add: server_inv_def)
  note r = loop_inv_addChannel [OF li a] and f = addChannel_find [OF a]
  have i: "um_find (el_interest (sv_loop s)) x = (case registered s x of Some e \<Rightarrow> Some e | None \<Rightarrow> base x)" for x
    using inv by (simp add: server_inv_def)
  have b: "registered s fd = None" "base fd = None"
    using fr i [of fd] by (auto simp: fresh_fd_def registered_def split: option.splits)
  show ?thesis
  proof (cases added)
    case True
    then have s': "accept_client q0 os fd s = (sv_logged [Sv_accept fd] s)\<lparr>sv_loop := l,
        sv_clients := um_emplace fd \<lparr>cl_channel = client_channel fd, cl_queue = q0\<rparr> (sv_clients s)\<rparr>"
      by (simp add: accept_client_def a Let_def)
    show ?thesis unfolding s'
      using inv fr r f i b True
      by (auto simp: server_inv_def fresh_fd_def registered_def edgelink_simps intro: wf_intros split: option.splits)
  next
    case False
    then have s': "accept_client q0 os fd s = sv_close fd (sv_logged [Sv_accept fd] s\<lparr>sv_loop := l\<rparr>)" and l: "l = sv_loop s"
      using r by (simp_all add: accept_client_def a Let_def)
    have "um_find (el_channels (sv_loop s)) fd = None" using li fr by (simp add: loop_inv_def fresh_fd_def)
    then have "loop_inv (close_fd fd (sv_loop s))" using li by (rule loop_inv_close [rotated])
    then show ?thesis unfolding s' l
      using inv fr i b by (auto simp: server_inv_def fresh_fd_def registered_def close_fd_find split: option.splits)
  qed
qed

lemma server_inv_handleAccept:
  "handleAccept q0 os rs s = Some s' \<Longrightarrow> server_inv base s \<Longrightarrow> fresh_accepts q0 os rs s \<Longrightarrow> server_inv base s'"
proof (induction rs arbitrary: s)
  case (Cons r rs)
  then show ?case by (cases r) (auto intro: server_inv_accept)
qed simp

lemma server_inv_no_client: "server_inv base s \<Longrightarrow> fd < 0 \<or> fd = sv_listenFd s \<Longrightarrow> um_find (sv_clients s) fd = None"
  unfolding server_inv_def by (metis linorder_not_less not_None_eq)

text \<open>Opening the listening socket, giving it up again, and registering its channel.\<close>

lemma server_inv_no_socket:
  assumes inv: "server_inv base s" and closed: "sv_listenFd s < 0" and fd: "fd < 0"
  shows "server_inv base (s\<lparr>sv_listenFd := fd\<rparr>)"
proof -
  have "sv_listenChannel s = None" using inv closed by (auto simp: server_inv_def)
  then show ?thesis using inv closed fd server_inv_no_client [OF inv, of fd]
    by (auto simp: server_inv_def registered_def split: option.splits)
qed

lemma fresh_base:
  assumes "server_inv base s" and "fresh_fd s fd"
  shows "base fd = None" "um_find (el_channels (sv_loop s)) fd = None" "registered s fd = None"
proof -
  have "um_find (el_interest (sv_loop s)) fd = (case registered s fd of Some e \<Rightarrow> Some e | None \<Rightarrow> base fd)"
    using assms(1) by (simp add: server_inv_def)
  moreover have "um_find (el_interest (sv_loop s)) fd = map_option ch_events (um_find (el_channels (sv_loop s)) fd)"
    using assms(1) by (simp only: server_inv_def loop_inv_def)
  ultimately show "base fd = None" "um_find (el_channels (sv_loop s)) fd = None" "registered s fd = None"
    using assms(2) by (simp_all add: fresh_fd_def split: option.splits)
qed

lemma server_inv_opened:
  assumes inv: "server_inv base s" and closed: "sv_listenFd s < 0" and fr: "fresh_fd s fd"
  shows "server_inv base ((sv_logged [Sv_socket fd] s)\<lparr>sv_listenFd := fd\<rparr>)"
proof -
  have lc: "sv_listenChannel s = None" using inv closed by (auto simp: server_inv_def)
  show ?thesis using inv closed fr lc fresh_base [OF inv fr]
    by (auto simp: server_inv_def registered_def fresh_fd_def split: option.splits)
qed

lemma server_inv_unopened:
  assumes inv: "server_inv base s" and closed: "sv_listenFd s < 0" and fr: "fresh_fd s fd"
  shows "server_inv base ((sv_close fd ((sv_logged [Sv_socket fd] s)\<lparr>sv_listenFd := fd\<rparr>))\<lparr>sv_listenFd := - 1\<rparr>)"
proof -
  have lc: "sv_listenChannel s = None" using inv closed by (auto simp: server_inv_def)
  have "loop_inv (close_fd fd (sv_loop s))"
    using inv fresh_base [OF inv fr] by (intro loop_inv_close) (simp_all add: server_inv_def)
  then show ?thesis using inv closed fr lc fresh_base [OF inv fr] server_inv_no_client [OF inv, of "- 1"]
    by (auto simp: server_inv_def registered_def fresh_fd_def close_fd_find split: option.splits)
qed

lemma server_inv_listening:
  assumes inv: "server_inv base s" and fd: "0 \<le> sv_listenFd s" "sv_listenChannel s = None"
    and a: "addChannel permitted (listen_channel (sv_listenFd s)) (sv_loop s) = (True, l)"
  shows "server_inv base (s\<lparr>sv_loop := l, sv_listenChannel := Some (listen_channel (sv_listenFd s))\<rparr>)"
proof -
  have li: "loop_inv (sv_loop s)" using inv by (simp add: server_inv_def)
  show ?thesis
    using inv fd loop_inv_addChannel [OF li a] addChannel_find [OF a] server_inv_no_client [OF inv, of "sv_listenFd s"]
    by (auto simp: server_inv_def registered_def split: option.splits)
qed

text \<open>Taking a registered channel off the loop and closing its descriptor.\<close>

lemma loop_take_off:
  assumes li: "loop_inv l" and del: "permitted" and reg: "um_find (el_interest l) (ch_fd c) \<noteq> None"
  shows "loop_inv (close_fd (ch_fd c) (snd (removeChannel permitted c l))) \<and>
    um_find (el_interest (close_fd (ch_fd c) (snd (removeChannel permitted c l)))) x =
      (if x = ch_fd c then None else um_find (el_interest l) x)"
proof -
  obtain ok l' where r: "removeChannel permitted c l = (ok, l')" by (metis surj_pair)
  note f = removeChannel_find [OF r] and i = loop_inv_removeChannel [OF li r]
  have ok using f del reg by simp
  then show ?thesis using f i r by (auto simp: close_fd_find intro: loop_inv_close)
qed

lemma removeClient_simps:
  "um_find (sv_clients s) fd = Some c \<Longrightarrow> sv_clients (removeClient os fd s) = um_erase fd (sv_clients s) \<and>
     sv_log (removeClient os fd s) = sv_log s @ [Sv_close fd] \<and> sv_listenFd (removeClient os fd s) = sv_listenFd s \<and>
     sv_listenChannel (removeClient os fd s) = sv_listenChannel s \<and>
     sv_loop (removeClient os fd s) = close_fd fd (snd (removeChannel (lr_del os fd) (cl_channel c) (sv_loop s)))"
  by (simp add: removeClient_def Let_def)

lemma server_inv_removeClient:
  assumes inv: "server_inv base s" and d: "dels_ok os"
  shows "server_inv base (removeClient os fd s)"
proof (cases "um_find (sv_clients s) fd")
  case None
  then show ?thesis using inv by (simp add: removeClient_def)
next
  case (Some c)
  then have c: "ch_fd (cl_channel c) = fd" "loop_inv (sv_loop s)" and "um_find (el_interest (sv_loop s)) fd \<noteq> None"
    using inv by (simp_all add: server_inv_def registered_def)
  then have t: "loop_inv (close_fd fd (snd (removeChannel (lr_del os fd) (cl_channel c) (sv_loop s))))"
    "\<And>x. um_find (el_interest (close_fd fd (snd (removeChannel (lr_del os fd) (cl_channel c) (sv_loop s))))) x =
      (if x = fd then None else um_find (el_interest (sv_loop s)) x)"
    using loop_take_off [of "sv_loop s" "lr_del os fd" "cl_channel c"] d by (simp_all add: dels_ok_def)
  show ?thesis
    using inv t Some c unfolding server_inv_def removeClient_simps [OF Some, THEN conjunct1]
    by (auto simp: removeClient_simps [OF Some] registered_def edgelink_simps intro: wf_intros split: option.splits)
qed

text \<open>The loop of \<open>stop\<close> removes the clients one by one.\<close>

lemma close_clients_simps:
  "sv_listenFd (close_clients os cs s) = sv_listenFd s \<and> sv_listenChannel (close_clients os cs s) = sv_listenChannel s"
  by (induction os cs s rule: close_clients.induct) simp_all

lemma server_inv_close_clients:
  assumes "server_inv base s" and "dels_ok os"
  shows "server_inv base ((close_clients os (sv_clients s) s)\<lparr>sv_clients := []\<rparr>)"
proof -
  have "server_inv base (s\<lparr>sv_clients := cs\<rparr>) \<Longrightarrow> server_inv base ((close_clients os cs s)\<lparr>sv_clients := []\<rparr>)" for cs
  proof (induction cs arbitrary: s)
    case (Cons x cs)
    obtain fd c where x: "x = (fd, c)" by fastforce
    let ?s = "s\<lparr>sv_clients := x # cs\<rparr>"
    have f: "um_find (sv_clients ?s) fd = Some c" by (simp add: x)
    have wf: "um_wf (x # cs)" using Cons.prems by (simp add: server_inv_def)
    then have e: "um_erase fd (x # cs) = cs" by (auto simp: x um_wf_def AList.delete_eq filter_id_conv image_iff)
    have "removeClient os fd ?s = (sv_close fd (s\<lparr>sv_loop := snd (removeChannel (lr_del os fd) (cl_channel c) (sv_loop s))\<rparr>))\<lparr>sv_clients := cs\<rparr>"
      using f e by (simp add: removeClient_def Let_def sv_close_def sv_logged_def)
    then show ?case using Cons.IH server_inv_removeClient [OF Cons.prems assms(2), of fd] by (simp add: x)
  qed simp
  from this [of "sv_clients s"] assms(1) show ?thesis by simp
qed

lemma server_inv_close_listener:
  assumes inv: "server_inv base s" and d: "dels_ok os" and l: "0 \<le> sv_listenFd s"
  shows "server_inv base (close_listener os s)"
proof (cases "sv_listenChannel s")
  case None
  have m: "um_find (sv_clients s) (- 1) = None"
    using server_inv_no_client [OF inv] by simp
  have n: "um_find (sv_clients s) (sv_listenFd s) = None" "base (sv_listenFd s) = None"
    using server_inv_no_client [OF inv] inv l by (simp_all add: server_inv_def)
  then have "um_find (el_interest (sv_loop s)) (sv_listenFd s) = None"
    using inv None by (simp add: server_inv_def registered_def)
  then have c: "um_find (el_channels (sv_loop s)) (sv_listenFd s) = None"
    using inv by (simp add: server_inv_def loop_inv_def)
  have li: "loop_inv (close_fd (sv_listenFd s) (sv_loop s))" using inv c by (intro loop_inv_close) (simp_all add: server_inv_def)
  have b: "base (sv_listenFd s) = None" using inv l by (simp add: server_inv_def)
  show ?thesis using inv li l b None m
    by (auto simp: close_listener_def server_inv_def registered_def close_fd_find split: option.splits)
next
  case (Some c)
  then have c: "ch_fd c = sv_listenFd s" "loop_inv (sv_loop s)" "base (sv_listenFd s) = None"
    and "um_find (el_interest (sv_loop s)) (sv_listenFd s) \<noteq> None"
    using inv l by (auto simp: server_inv_def registered_def split: option.splits)
  then have t: "loop_inv (close_fd (sv_listenFd s) (snd (removeChannel (lr_del os (sv_listenFd s)) c (sv_loop s))))"
    "\<And>x. um_find (el_interest (close_fd (sv_listenFd s) (snd (removeChannel (lr_del os (sv_listenFd s)) c (sv_loop s))))) x =
      (if x = sv_listenFd s then None else um_find (el_interest (sv_loop s)) x)"
    using loop_take_off [of "sv_loop s" "lr_del os (sv_listenFd s)" c] d by (simp_all add: dels_ok_def)
  moreover have "um_find (sv_clients s) (- 1) = None"
    using server_inv_no_client [OF inv] by simp
  ultimately show ?thesis using inv c Some l
    by (auto simp: close_listener_def server_inv_def registered_def split: option.splits)
qed

lemma close_listener_closed: "sv_listenFd s < 0 \<Longrightarrow> sv_listenChannel s = None \<Longrightarrow> close_listener os s = s"
  by (simp add: close_listener_def)

lemma server_inv_stop:
  assumes "server_inv base s" and "dels_ok os"
  shows "server_inv base (server_stop os s)"
proof (cases "0 \<le> sv_listenFd s")
  case True
  then show ?thesis unfolding server_stop_def
    by (intro server_inv_close_listener server_inv_close_clients assms) (simp add: close_clients_simps)
next
  case False
  then have "sv_listenChannel s = None" using assms(1) by (auto simp: server_inv_def)
  then show ?thesis unfolding server_stop_def
    using server_inv_close_clients [OF assms] False by (simp add: close_listener_closed close_clients_simps)
qed

lemma server_stop_empty: "sv_clients (server_stop os s) = []" "sv_listenFd (server_stop os s) < 0"
  "sv_listenChannel (server_stop os s) = None"
  by (auto simp: server_stop_def close_listener_def sv_close_def sv_logged_def Let_def split: option.splits)

subsection \<open>Changing the event mask of a client\<close>

text \<open>
  The middle of \<open>updateClientEvents\<close>: remove the channel from the loop, change its mask, add it again. The booleans
  tell whether the two calls succeeded.
\<close>

definition reregister :: "loop_results \<Rightarrow> int \<Rightarrow> u32 \<Rightarrow> 'q client \<Rightarrow> ('q, 'a) server \<Rightarrow> bool \<times> bool \<times> ('q, 'a) server" where
  "reregister os clientFd events c s =
     (let (removed, l1) = removeChannel (lr_del os clientFd) (cl_channel c) (sv_loop s) in
      if \<not> removed then (False, False, s)
      else (let channel = setEvents events (cl_channel c);
                (added, l2) = addChannel (lr_add os clientFd) channel l1
            in (True, added, s\<lparr>sv_loop := l2, sv_clients := um_set clientFd (c\<lparr>cl_channel := channel\<rparr>) (sv_clients s)\<rparr>)))"

lemma setEvents_simps [simp]: "ch_fd (setEvents e c) = ch_fd c" "ch_events (setEvents e c) = e"
  by (simp_all add: setEvents_def)

lemma reregister_spec:
  assumes inv: "server_inv base s" and d: "dels_ok os" and c: "um_find (sv_clients s) fd = Some c"
    and r: "reregister os fd events c s = (removed, added, s')"
  shows "removed \<and> sv_log s' = sv_log s \<and> um_find (sv_clients s') fd = Some (c\<lparr>cl_channel := setEvents events (cl_channel c)\<rparr>) \<and>
    (\<forall>x. x \<noteq> fd \<longrightarrow> um_find (sv_clients s') x = um_find (sv_clients s) x) \<and>
    (added \<longrightarrow> server_inv base s') \<and>
    (\<not> added \<longrightarrow> server_inv base (removeClient os fd s') \<and>
       server_inv base ((sv_close fd s')\<lparr>sv_clients := um_erase fd (sv_clients s')\<rparr>))"
proof -
  obtain rem l1 where l1: "removeChannel (lr_del os fd) (cl_channel c) (sv_loop s) = (rem, l1)" by (metis surj_pair)
  obtain add l2 where l2: "addChannel (lr_add os fd) (setEvents events (cl_channel c)) l1 = (add, l2)" by (metis surj_pair)
  have li: "loop_inv (sv_loop s)" and fd: "ch_fd (cl_channel c) = fd" "0 \<le> fd" "fd \<noteq> sv_listenFd s" "base fd = None"
    and i: "\<And>x. um_find (el_interest (sv_loop s)) x = (case registered s x of Some e \<Rightarrow> Some e | None \<Rightarrow> base x)"
    using inv c by (simp_all add: server_inv_def)
  have rem: rem using removeChannel_find [OF l1] i [of fd] d c fd by (simp add: dels_ok_def registered_def)
  note lr = loop_inv_removeChannel [OF li l1] and fr = removeChannel_find [OF l1]
  have li1: "loop_inv l1" using lr by simp
  note la = loop_inv_addChannel [OF li1 l2] and fa = addChannel_find [OF l2]
  have eq: "removed" "added = add" "s' = s\<lparr>sv_loop := l2,
      sv_clients := um_set fd (c\<lparr>cl_channel := setEvents events (cl_channel c)\<rparr>) (sv_clients s)\<rparr>"
    using r l1 l2 rem by (auto simp: reregister_def Let_def)
  have base: "removed \<and> sv_log s' = sv_log s \<and> um_find (sv_clients s') fd = Some (c\<lparr>cl_channel := setEvents events (cl_channel c)\<rparr>) \<and>
    (\<forall>x. x \<noteq> fd \<longrightarrow> um_find (sv_clients s') x = um_find (sv_clients s) x)"
    by (simp add: eq edgelink_simps)
  show ?thesis
  proof (cases add)
    case True
    have "server_inv base s'" unfolding eq(3)
      using inv la fa fr i fd c rem True
      by (auto simp: server_inv_def registered_def edgelink_simps intro: wf_intros split: option.splits)
    then show ?thesis using base True eq(2) by simp
  next
    case False
    have l: "l2 = l1" using la False by simp
    have "um_find (el_interest l1) fd = None" using fr fd rem by simp
    then have nr: "snd (removeChannel p (setEvents events (cl_channel c)) l1) = l1" for p
      using fd by (simp add: removeChannel_def)
    have cl: "loop_inv (close_fd fd l1)" using li1 lr rem fd by (intro loop_inv_close) simp_all
    have *: "server_inv base ((sv_close fd s')\<lparr>sv_clients := um_erase fd (sv_clients s')\<rparr>)"
      unfolding eq(3) l
      using inv cl fr i fd c rem
      by (auto simp: server_inv_def registered_def edgelink_simps close_fd_find intro: wf_intros split: option.splits)
    have "removeClient os fd s' = (sv_close fd s')\<lparr>sv_clients := um_erase fd (sv_clients s')\<rparr>"
      unfolding eq(3) l by (simp add: removeClient_def edgelink_simps nr sv_close_def sv_logged_def)
    then show ?thesis using base False eq(2) * by simp
  qed
qed

subsection \<open>Output queues\<close>

text \<open>
  What the servers rely on of their output queue: its pending items come out in the order they were put in. Under this
  contract nothing is lost, repeated or reordered on a connection.
\<close>

text \<open>
  The contract towards a client: connections open and close, answers are put on a connection, and answers are delivered
  one at a time in the order they were put. A connection is the list of delivered answers and the list of waiting ones.
\<close>

type_synonym 'a conns = "int \<Rightarrow> ('a list \<times> 'a list) option"

inductive conn_step :: "'a conns \<Rightarrow> 'a conns \<Rightarrow> bool" where
  conn_open: "A fd = None \<Longrightarrow> conn_step A (A(fd := Some ([], [])))"
| conn_answer: "A fd = Some (done, waiting) \<Longrightarrow> conn_step A (A(fd := Some (done, waiting @ [x])))"
| conn_deliver: "A fd = Some (done, x # waiting) \<Longrightarrow> conn_step A (A(fd := Some (done @ [x], waiting)))"
| conn_close: "conn_step A (A(fd := None))"

inductive conn_steps :: "'a conns \<Rightarrow> 'a conns \<Rightarrow> bool" where
  conn_refl: "conn_steps A A"
| conn_more: "conn_steps A B \<Longrightarrow> conn_step B C \<Longrightarrow> conn_steps A C"

lemma conn_steps_trans: "conn_steps B C \<Longrightarrow> conn_steps A B \<Longrightarrow> conn_steps A C"
  by (induction rule: conn_steps.induct) (auto intro: conn_more)

lemma conn_answers: "A fd = Some (done, waiting) \<Longrightarrow> conn_steps A (A(fd := Some (done, waiting @ xs)))"
proof (induction xs rule: rev_induct)
  case Nil
  then have "A(fd := Some (done, waiting @ [])) = A" by (simp add: fun_upd_idem)
  then show ?case using conn_refl [of A] by (simp only:)
next
  case (snoc x xs)
  let ?B = "A(fd := Some (done, waiting @ xs))"
  have "conn_step ?B (?B(fd := Some (done, (waiting @ xs) @ [x])))" by (rule conn_answer) simp
  then have "conn_step ?B (A(fd := Some (done, waiting @ xs @ [x])))" by (simp only: fun_upd_upd append_assoc)
  with snoc.IH [OF snoc.prems] show ?case by (rule conn_more)
qed

lemma conn_delivers:
  "A fd = Some (done, waiting) \<Longrightarrow> conn_steps A (A(fd := Some (done @ take n waiting, drop n waiting)))"
proof (induction n)
  case 0
  then have "A(fd := Some (done @ take 0 waiting, drop 0 waiting)) = A" by (simp add: fun_upd_idem)
  then show ?case using conn_refl [of A] by (simp only:)
next
  case (Suc n)
  show ?case
  proof (cases "n < length waiting")
    case True
    let ?B = "A(fd := Some (done @ take n waiting, drop n waiting))"
    have "conn_step ?B (?B(fd := Some ((done @ take n waiting) @ [waiting ! n], drop (Suc n) waiting)))"
      using True by (intro conn_deliver) (simp add: Cons_nth_drop_Suc)
    then have "conn_step ?B (A(fd := Some (done @ take (Suc n) waiting, drop (Suc n) waiting)))"
      using True by (simp only: fun_upd_upd append_assoc take_Suc_conv_app_nth)
    with Suc.IH [OF Suc.prems] show ?thesis by (rule conn_more)
  qed (use Suc in simp)
qed

lemma conn_open_new: "A fd = None \<Longrightarrow> conn_steps A (A(fd := Some ([], [])))"
  by (rule conn_more [OF conn_refl conn_open])

lemma conn_closed: "conn_steps A (A(fd := None))"
  by (rule conn_more [OF conn_refl conn_close])

locale output_queue =
  fixes q0 :: 'q
    and pending :: "'q \<Rightarrow> 'a list"
    and enqueue :: "'a list \<Rightarrow> 'q \<Rightarrow> 'q"
    and dequeue :: "nat \<Rightarrow> 'q \<Rightarrow> 'q"
    and queue_ok :: "'q \<Rightarrow> bool"
  assumes q0: "pending q0 = []" "queue_ok q0"
    and enqueue: "queue_ok q \<Longrightarrow> pending (enqueue xs q) = pending q @ xs \<and> queue_ok (enqueue xs q)"
    and dequeue: "queue_ok q \<Longrightarrow> n \<le> length (pending q) \<Longrightarrow> pending (dequeue n q) = drop n (pending q) \<and> queue_ok (dequeue n q)"
begin

text \<open>On an open connection, what was sent followed by what is pending is what was queued; on any, sent is a prefix.\<close>

definition io_inv :: "('q, 'a) server \<Rightarrow> bool" where
  "io_inv s \<longleftrightarrow> (\<forall>fd. prefix (sent_on fd s) (queued_on fd s) \<and>
     (\<forall>c. um_find (sv_clients s) fd = Some c \<longrightarrow>
        queue_ok (cl_queue c) \<and> queued_on fd s = sent_on fd s @ pending (cl_queue c)))"

lemma io_inv_cong:
  "io_inv s \<Longrightarrow> sv_clients s' = sv_clients s \<Longrightarrow> sv_log s' = sv_log s \<Longrightarrow> io_inv s'"
  by (simp add: io_inv_def sent_on_def queued_on_def)

lemma io_inv_closed: "io_inv s \<Longrightarrow> io_inv (sv_close fd s)"
  by (simp add: io_inv_def sent_on_def queued_on_def)

lemma io_inv_erase: "io_inv s \<Longrightarrow> io_inv (s\<lparr>sv_clients := um_erase fd (sv_clients s)\<rparr>)"
  by (simp add: io_inv_def sent_on_def queued_on_def edgelink_simps)

lemma io_inv_remove: "io_inv s \<Longrightarrow> io_inv (removeClient os fd s)"
  using io_inv_erase [OF io_inv_closed, of "s\<lparr>sv_loop := l\<rparr>" for l]
  by (auto simp: removeClient_def Let_def io_inv_cong split: option.splits)

lemma io_inv_accept:
  assumes inv: "io_inv s" and new: "um_find (sv_clients s) fd = None"
  shows "io_inv (accept_client q0 os fd s)"
proof -
  obtain added l where a: "addChannel (lr_add os fd) (client_channel fd) (sv_loop s) = (added, l)" by (metis surj_pair)
  show ?thesis
    using inv new q0
    by (cases added) (auto simp: accept_client_def a Let_def io_inv_def sent_on_def queued_on_def edgelink_simps split: if_splits)
qed

lemma io_inv_handleAccept:
  "handleAccept q0 os rs s = Some s' \<Longrightarrow> io_inv s \<Longrightarrow> fresh_accepts q0 os rs s \<Longrightarrow> io_inv s'"
proof (induction rs arbitrary: s)
  case (Cons r rs)
  then show ?case by (cases r) (auto simp: fresh_fd_def intro: io_inv_accept)
qed simp

lemma io_inv_enqueue:
  assumes inv: "io_inv s" and c: "um_find (sv_clients s) fd = Some c"
  shows "io_inv (set_queue fd (enqueue xs (cl_queue c)) (sv_logged [Sv_in fd xs] s))"
proof -
  have ok: "queue_ok (cl_queue c)" using inv c by (simp add: io_inv_def)
  show ?thesis
    using inv c enqueue [OF ok, of xs]
    by (auto simp: io_inv_def set_queue_def sent_on_def queued_on_def edgelink_simps intro: prefix_order.trans)
qed

lemma io_inv_dequeue:
  assumes inv: "io_inv s" and c: "um_find (sv_clients s) fd = Some c" and n: "n \<le> length (pending (cl_queue c))"
    and q: "pending q = drop n (pending (cl_queue c))" "queue_ok q"
  shows "io_inv (set_queue fd q (sv_logged [Sv_out fd (take n (pending (cl_queue c)))] s))"
proof -
  have "queued_on fd s = sent_on fd s @ pending (cl_queue c)" using inv c by (simp add: io_inv_def)
  then have "queued_on fd s = (sent_on fd s @ take n (pending (cl_queue c))) @ drop n (pending (cl_queue c))" by simp
  moreover have "\<exists>zs. pending (cl_queue c) = take n (pending (cl_queue c)) @ zs" by (metis append_take_drop_id)
  ultimately show ?thesis
    using inv c q
    by (auto simp: io_inv_def set_queue_def sent_on_def queued_on_def edgelink_simps prefix_def split: if_splits)
qed

lemma io_inv_requeue:
  "io_inv s \<Longrightarrow> um_find (sv_clients s) fd = Some c \<Longrightarrow> pending q = pending (cl_queue c) \<Longrightarrow> queue_ok q \<Longrightarrow> io_inv (set_queue fd q s)"
  by (auto simp: io_inv_def set_queue_def sent_on_def queued_on_def edgelink_simps split: if_splits)

lemma io_inv_new: "io_inv (new_server l)"
  by (simp add: io_inv_def new_server_def sent_on_def queued_on_def)

lemma io_inv_close_clients: "io_inv s \<Longrightarrow> io_inv ((close_clients os cs s)\<lparr>sv_clients := []\<rparr>)"
proof (induction os cs s rule: close_clients.induct)
  case (2 os fd c cs s)
  have "io_inv (sv_close fd (s\<lparr>sv_loop := snd (removeChannel (lr_del os fd) (cl_channel c) (sv_loop s))\<rparr>))"
    by (rule io_inv_closed) (simp add: io_inv_cong [OF 2(2)])
  with 2 show ?case by simp
qed (simp add: io_inv_def sent_on_def queued_on_def)

lemma io_inv_stop:
  assumes "io_inv s"
  shows "io_inv (server_stop os s)"
proof -
  have c: "io_inv ((close_clients os (sv_clients s) s)\<lparr>sv_clients := []\<rparr>)" using assms by (rule io_inv_close_clients)
  have l: "io_inv (close_listener os t)" if "io_inv t" for t
    using that unfolding close_listener_def Let_def
    by (auto simp: io_inv_def sent_on_def queued_on_def split: option.splits)
  show ?thesis unfolding server_stop_def by (rule l [OF c])
qed

lemma io_inv_same_queues:
  assumes inv: "io_inv s" and log: "sv_log s' = sv_log s"
    and q: "\<And>x. map_option cl_queue (um_find (sv_clients s') x) = map_option cl_queue (um_find (sv_clients s) x)"
  shows "io_inv s'"
proof -
  have "queue_ok (cl_queue d) \<and> queued_on x s = sent_on x s @ pending (cl_queue d)" if "um_find (sv_clients s') x = Some d" for x d
    using q [of x] that inv by (cases "um_find (sv_clients s) x") (auto simp: io_inv_def)
  then show ?thesis using inv log by (auto simp: io_inv_def sent_on_def queued_on_def)
qed

lemma io_inv_reregister:
  "io_inv s \<Longrightarrow> um_find (sv_clients s) fd = Some c \<Longrightarrow> reregister os fd events c s = (removed, added, s') \<Longrightarrow> io_inv s'"
  by (rule io_inv_same_queues [of s]) (auto simp: reregister_def Let_def edgelink_simps split: if_splits prod.splits)

text \<open>The connections of a server as the contract sees them, and what the operations are there.\<close>

definition conn_abs :: "('q, 'a) server \<Rightarrow> 'a conns" where
  "conn_abs s fd = map_option (\<lambda>c. (sent_on fd s, pending (cl_queue c))) (um_find (sv_clients s) fd)"

lemma abs_same:
  "sv_log s' = sv_log s \<Longrightarrow> (\<And>x. map_option cl_queue (um_find (sv_clients s') x) = map_option cl_queue (um_find (sv_clients s) x)) \<Longrightarrow>
     conn_abs s' = conn_abs s"
proof
  fix x
  assume "sv_log s' = sv_log s" "\<And>x. map_option cl_queue (um_find (sv_clients s') x) = map_option cl_queue (um_find (sv_clients s) x)"
  then have "sent_on x s' = sent_on x s" "map_option cl_queue (um_find (sv_clients s') x) = map_option cl_queue (um_find (sv_clients s) x)"
    by (simp_all add: sent_on_def)
  then show "conn_abs s' x = conn_abs s x"
    by (cases "um_find (sv_clients s') x"; cases "um_find (sv_clients s) x") (simp_all add: conn_abs_def)
qed

lemma abs_reregister: "um_find (sv_clients s) fd = Some c \<Longrightarrow> reregister os fd events c s = (removed, added, s') \<Longrightarrow>
    conn_abs s' = conn_abs s"
  by (rule abs_same) (auto simp: reregister_def Let_def edgelink_simps split: if_splits prod.splits)

lemma abs_closed: "conn_abs ((sv_close fd s)\<lparr>sv_clients := um_erase fd (sv_clients s)\<rparr>) = (conn_abs s)(fd := None)"
  by (auto simp: conn_abs_def fun_eq_iff sent_on_def edgelink_simps)

lemma abs_remove: "conn_steps (conn_abs s) (conn_abs (removeClient os fd s))"
proof (cases "um_find (sv_clients s) fd")
  case (Some c)
  then have "conn_abs (removeClient os fd s) = (conn_abs s)(fd := None)"
    by (auto simp: conn_abs_def fun_eq_iff sent_on_def edgelink_simps removeClient_simps)
  then show ?thesis by (simp add: conn_closed)
qed (simp add: removeClient_def conn_refl)

lemma abs_accept:
  assumes "um_find (sv_clients s) fd = None"
  shows "conn_steps (conn_abs s) (conn_abs (accept_client q0 os fd s))"
proof -
  obtain added l where a: "addChannel (lr_add os fd) (client_channel fd) (sv_loop s) = (added, l)" by (metis surj_pair)
  have "conn_abs (accept_client q0 os fd s) = (if added then (conn_abs s)(fd := Some ([], [])) else conn_abs s)"
    using assms q0 by (auto simp: accept_client_def a Let_def conn_abs_def fun_eq_iff sent_on_def edgelink_simps)
  moreover have "conn_abs s fd = None" using assms by (simp add: conn_abs_def)
  ultimately show ?thesis by (auto simp: conn_open_new conn_refl)
qed

lemma abs_handleAccept:
  "handleAccept q0 os rs s = Some s' \<Longrightarrow> fresh_accepts q0 os rs s \<Longrightarrow> conn_steps (conn_abs s) (conn_abs s')"
proof (induction rs arbitrary: s)
  case (Cons r rs)
  show ?case
  proof (cases r)
    case (Sys_ok fd)
    then have "conn_steps (conn_abs s) (conn_abs (accept_client q0 os fd s))" using Cons.prems by (intro abs_accept) (simp add: fresh_fd_def)
    then show ?thesis using Cons Sys_ok conn_steps_trans by auto
  qed (use Cons in \<open>auto intro: conn_refl\<close>)
qed simp

lemma abs_enqueue:
  assumes inv: "io_inv s" and c: "um_find (sv_clients s) fd = Some c"
  shows "conn_steps (conn_abs s) (conn_abs (set_queue fd (enqueue xs (cl_queue c)) (sv_logged [Sv_in fd xs] s)))"
proof -
  have ok: "queue_ok (cl_queue c)" using inv c by (simp add: io_inv_def)
  have "conn_abs (set_queue fd (enqueue xs (cl_queue c)) (sv_logged [Sv_in fd xs] s)) =
      (conn_abs s)(fd := Some (sent_on fd s, pending (cl_queue c) @ xs))"
    using c enqueue [OF ok, of xs] by (auto simp: conn_abs_def set_queue_def fun_eq_iff sent_on_def edgelink_simps)
  then show ?thesis using conn_answers [of "conn_abs s" fd "sent_on fd s"] c by (simp add: conn_abs_def)
qed

lemma abs_dequeue:
  assumes c: "um_find (sv_clients s) fd = Some c" and q: "pending q = drop n (pending (cl_queue c))"
  shows "conn_steps (conn_abs s) (conn_abs (set_queue fd q (sv_logged [Sv_out fd (take n (pending (cl_queue c)))] s)))"
proof -
  have "conn_abs (set_queue fd q (sv_logged [Sv_out fd (take n (pending (cl_queue c)))] s)) =
      (conn_abs s)(fd := Some (sent_on fd s @ take n (pending (cl_queue c)), drop n (pending (cl_queue c))))"
    using c q by (auto simp: conn_abs_def set_queue_def fun_eq_iff sent_on_def edgelink_simps)
  then show ?thesis using conn_delivers [of "conn_abs s" fd "sent_on fd s"] c by (simp add: conn_abs_def)
qed

lemma abs_stop: "um_wf (sv_clients s) \<Longrightarrow> conn_steps (conn_abs s) (conn_abs (server_stop os s))"
proof -
  have l: "sv_clients (close_listener os t) = sv_clients t" for t
    by (auto simp: close_listener_def Let_def split: option.splits)
  have "conn_steps (conn_abs (s\<lparr>sv_clients := cs\<rparr>)) (conn_abs ((close_clients os cs s)\<lparr>sv_clients := []\<rparr>))" if "um_wf cs" for cs
    using that
  proof (induction cs arbitrary: s)
    case (Cons x cs)
    obtain fd c where x: "x = (fd, c)" by fastforce
    let ?s = "s\<lparr>sv_clients := x # cs\<rparr>"
    have f: "um_find (sv_clients ?s) fd = Some c" by (simp add: x)
    have wf: "um_wf cs" using Cons.prems by (simp add: um_wf_def)
    have e: "um_erase fd (x # cs) = cs" using Cons.prems by (auto simp: x um_wf_def AList.delete_eq filter_id_conv image_iff)
    have "removeClient os fd ?s = (sv_close fd (s\<lparr>sv_loop := snd (removeChannel (lr_del os fd) (cl_channel c) (sv_loop s))\<rparr>))\<lparr>sv_clients := cs\<rparr>"
      using f e by (simp add: removeClient_def Let_def sv_close_def sv_logged_def)
    then show ?case using Cons.IH [OF wf] abs_remove [of ?s os fd] by (auto simp: x intro: conn_steps_trans)
  qed (simp add: conn_refl)
  note this [of "sv_clients s"]
  then have "um_wf (sv_clients s) \<Longrightarrow> conn_steps (conn_abs s) (conn_abs ((close_clients os (sv_clients s) s)\<lparr>sv_clients := []\<rparr>))" by simp
  moreover have "conn_abs (server_stop os s) = conn_abs ((close_clients os (sv_clients s) s)\<lparr>sv_clients := []\<rparr>)"
    by (auto simp: fun_eq_iff conn_abs_def server_stop_def l)
  ultimately show "um_wf (sv_clients s) \<Longrightarrow> conn_steps (conn_abs s) (conn_abs (server_stop os s))" by (simp only:)
qed

end

end
