(* ===== verification/Tcp_Server.thy ===== *)
theory Tcp_Server
  imports Socket_Server
begin

section \<open>The TCP echo server\<close>

text \<open>
  \<open>src/tcp_server.cpp\<close>: every byte a client sends is sent back. A client's output is \<open>outputBuffer\<close> with \<open>writeOffset\<close>,
  the number of bytes of it already sent. The results of the socket calls are lists consumed by the loops of the
  handlers; \<open>Sys_ok n\<close> of \<open>send\<close> is the number of bytes the kernel would take, of which it takes at most what it is given.
  \<open>None\<close> means that such a list ended while the loop was still running.
\<close>

type_synonym tcp_queue = "string \<times> nat"
type_synonym tcp_server = "(tcp_queue, char) server"

definition tcp_pending :: "tcp_queue \<Rightarrow> string" where "tcp_pending q = drop (snd q) (fst q)"
definition tcp_append :: "string \<Rightarrow> tcp_queue \<Rightarrow> tcp_queue" where "tcp_append bytes q = (fst q @ bytes, snd q)"
definition tcp_sent :: "nat \<Rightarrow> tcp_queue \<Rightarrow> tcp_queue" where "tcp_sent n q = (fst q, snd q + n)"

subsection \<open>Starting\<close>

record tcp_start_results =
  tr_socket :: int
  tr_setsockopt :: bool
  tr_bind :: bool
  tr_listen :: bool

definition tcp_start :: "loop_results \<Rightarrow> tcp_start_results \<Rightarrow> tcp_server \<Rightarrow> bool \<times> tcp_server" where
  "tcp_start os r s =
     (if 0 \<le> sv_listenFd s then (True, s)
      else if tr_socket r < 0 then (False, s\<lparr>sv_listenFd := tr_socket r\<rparr>)
      else (let fd = tr_socket r;
                s1 = (sv_logged [Sv_socket fd] s)\<lparr>sv_listenFd := fd\<rparr>
            in if \<not> tr_setsockopt r then (False, (sv_close fd s1)\<lparr>sv_listenFd := - 1\<rparr>)
               else if \<not> tr_bind r then (False, (sv_close fd s1)\<lparr>sv_listenFd := - 1\<rparr>)
               else if \<not> tr_listen r then (False, (sv_close fd s1)\<lparr>sv_listenFd := - 1\<rparr>)
               else (let (added, l) = addChannel (lr_add os fd) (listen_channel fd) (sv_loop s1) in
                 if \<not> added then (False, (sv_close fd (s1\<lparr>sv_loop := l\<rparr>))\<lparr>sv_listenFd := - 1\<rparr>)
                 else (True, s1\<lparr>sv_loop := l, sv_listenChannel := Some (listen_channel fd)\<rparr>))))"

definition tcp_handleAccept :: "loop_results \<Rightarrow> int sys_result list \<Rightarrow> tcp_server \<Rightarrow> tcp_server option" where
  "tcp_handleAccept = handleAccept ([], 0)"

definition tcp_removeClient :: "loop_results \<Rightarrow> int \<Rightarrow> tcp_server \<Rightarrow> tcp_server" where
  "tcp_removeClient = removeClient"

definition tcp_stop :: "loop_results \<Rightarrow> tcp_server \<Rightarrow> tcp_server" where
  "tcp_stop = server_stop"

definition tcp_updateClientEvents :: "loop_results \<Rightarrow> int \<Rightarrow> u32 \<Rightarrow> tcp_server \<Rightarrow> bool \<times> tcp_server" where
  "tcp_updateClientEvents os clientFd events s =
     (case um_find (sv_clients s) clientFd of
        None \<Rightarrow> (False, s)
      | Some c \<Rightarrow>
          (let (removed, added, s1) = reregister os clientFd events c s in
           if \<not> removed then (False, s1)
           else if \<not> added then (False, tcp_removeClient os clientFd s1)
           else (True, s1)))"

subsection \<open>Reading and writing\<close>

text \<open>The loop of \<open>handleClientRead\<close>: how it ends and the bytes it appended.\<close>

fun tcp_read :: "string sys_result list \<Rightarrow> (io_end \<times> string) option" where
  "tcp_read [] = None"
| "tcp_read (r # rs) =
     (case r of
        Sys_ok bytes \<Rightarrow> if bytes \<noteq> [] then map_option (\<lambda>(e, bs). (e, bytes @ bs)) (tcp_read rs) else Some (Io_closed, [])
      | Sys_EINTR \<Rightarrow> tcp_read rs
      | Sys_EAGAIN \<Rightarrow> Some (Io_again, [])
      | Sys_error \<Rightarrow> Some (Io_failed, []))"

text \<open>The loop of \<open>handleClientWrite\<close>: how it ends and the number of bytes it sent.\<close>

fun tcp_write :: "nat sys_result list \<Rightarrow> tcp_queue \<Rightarrow> (io_end \<times> nat) option" where
  "tcp_write [] q = (if tcp_pending q = [] then Some (Io_done, 0) else None)"
| "tcp_write (r # rs) q =
     (if tcp_pending q = [] then Some (Io_done, 0)
      else case r of
        Sys_ok n \<Rightarrow>
          (let k = min n (length (tcp_pending q)) in
           if 0 < k then map_option (\<lambda>(e, m). (e, k + m)) (tcp_write rs (tcp_sent k q)) else Some (Io_failed, 0))
      | Sys_EINTR \<Rightarrow> tcp_write rs q
      | Sys_EAGAIN \<Rightarrow> Some (Io_again, 0)
      | Sys_error \<Rightarrow> Some (Io_failed, 0))"

definition tcp_handleClientWrite :: "loop_results \<Rightarrow> nat sys_result list \<Rightarrow> int \<Rightarrow> tcp_server \<Rightarrow> tcp_server option" where
  "tcp_handleClientWrite os sends clientFd s =
     (case um_find (sv_clients s) clientFd of
        None \<Rightarrow> Some s
      | Some c \<Rightarrow>
          (case tcp_write sends (cl_queue c) of
             None \<Rightarrow> None
           | Some (e, n) \<Rightarrow>
               (let q = tcp_sent n (cl_queue c);
                    s1 = set_queue clientFd q (sv_logged [Sv_out clientFd (take n (tcp_pending (cl_queue c)))] s)
                in if e = Io_again then Some (snd (tcp_updateClientEvents os clientFd (EPOLLIN OR EPOLLOUT OR EPOLLRDHUP) s1))
                   else if e = Io_failed then Some (tcp_removeClient os clientFd s1)
                   else Some (snd (tcp_updateClientEvents os clientFd (EPOLLIN OR EPOLLRDHUP)
                     (set_queue clientFd ([], 0) s1))))))"

definition tcp_handleClientRead :: "loop_results \<Rightarrow> string sys_result list \<Rightarrow> nat sys_result list \<Rightarrow> int \<Rightarrow>
    tcp_server \<Rightarrow> tcp_server option" where
  "tcp_handleClientRead os recvs sends clientFd s =
     (case um_find (sv_clients s) clientFd of
        None \<Rightarrow> Some s
      | Some c \<Rightarrow>
          (case tcp_read recvs of
             None \<Rightarrow> None
           | Some (e, bytes) \<Rightarrow>
               (let s1 = set_queue clientFd (tcp_append bytes (cl_queue c)) (sv_logged [Sv_in clientFd bytes] s)
                in if e = Io_again then tcp_handleClientWrite os sends clientFd s1
                   else Some (tcp_removeClient os clientFd s1))))"

subsection \<open>The queue contract and the invariants of the server\<close>

interpretation tq: output_queue "([], 0)" tcp_pending tcp_append tcp_sent "\<lambda>q. snd q \<le> length (fst q)"
  by unfold_locales (auto simp: tcp_pending_def tcp_append_def tcp_sent_def add.commute)

lemma tcp_write_sent:
  "tcp_write rs q = Some (e, n) \<Longrightarrow> n \<le> length (tcp_pending q) \<and> (e = Io_done \<longrightarrow> n = length (tcp_pending q)) \<and> e \<noteq> Io_closed"
proof (induction rs q arbitrary: e n rule: tcp_write.induct)
  case (2 r rs q)
  show ?case
  proof (cases "tcp_pending q = []")
    case False
    show ?thesis
    proof (cases r)
      case (Sys_ok m)
      let ?k = "min m (length (tcp_pending q))"
      have p: "tcp_pending (tcp_sent ?k q) = drop ?k (tcp_pending q)" by (simp add: tcp_pending_def tcp_sent_def add.commute)
      show ?thesis
        using 2 False Sys_ok p
        by (cases "0 < ?k"; cases "tcp_write rs (tcp_sent ?k q)") (fastforce simp: Let_def)+
    qed (use 2 False in auto)
  qed (use 2 in simp)
qed (auto split: if_splits)

lemma tcp_updateClientEvents_inv:
  assumes inv: "server_inv base s" and d: "dels_ok os"
  shows "server_inv base (snd (tcp_updateClientEvents os fd events s))"
proof (cases "um_find (sv_clients s) fd")
  case (Some c)
  obtain removed added s1 where r: "reregister os fd events c s = (removed, added, s1)" by (metis prod_cases3)
  show ?thesis using reregister_spec [OF inv d Some r] by (auto simp: tcp_updateClientEvents_def Some r tcp_removeClient_def)
qed (use inv in \<open>simp add: tcp_updateClientEvents_def\<close>)

lemma tcp_updateClientEvents_io:
  assumes "tq.io_inv s"
  shows "tq.io_inv (snd (tcp_updateClientEvents os fd events s))"
proof (cases "um_find (sv_clients s) fd")
  case (Some c)
  obtain removed added s1 where r: "reregister os fd events c s = (removed, added, s1)" by (metis prod_cases3)
  show ?thesis using tq.io_inv_reregister [OF assms Some r] tq.io_inv_remove
    by (simp add: tcp_updateClientEvents_def Some r tcp_removeClient_def)
qed (use assms in \<open>simp add: tcp_updateClientEvents_def\<close>)

lemma io_only_single: "io_only [Sv_in fd xs]" "io_only [Sv_out fd xs]"
  by (simp_all add: io_only_def)

lemma tcp_write_inv:
  assumes inv: "server_inv base s" and d: "dels_ok os" and w: "tcp_handleClientWrite os sends fd s = Some s'"
  shows "server_inv base s'"
proof (cases "um_find (sv_clients s) fd")
  case (Some c)
  obtain e n where e: "tcp_write sends (cl_queue c) = Some (e, n)"
    using w Some by (auto simp: tcp_handleClientWrite_def split: option.splits)
  have i: "server_inv base (set_queue fd q (sv_logged [Sv_out fd x] s))" for q x
    by (intro server_inv_set_queue server_inv_logged inv io_only_single)
  show ?thesis using w
    by (auto simp: tcp_handleClientWrite_def Some e Let_def tcp_removeClient_def split: if_splits
        intro: tcp_updateClientEvents_inv server_inv_removeClient server_inv_set_queue i d)
qed (use inv w in \<open>simp add: tcp_handleClientWrite_def\<close>)

lemma tcp_write_io:
  assumes inv: "tq.io_inv s" and w: "tcp_handleClientWrite os sends fd s = Some s'"
  shows "tq.io_inv s'"
proof (cases "um_find (sv_clients s) fd")
  case (Some c)
  obtain e n where e: "tcp_write sends (cl_queue c) = Some (e, n)"
    using w Some by (auto simp: tcp_handleClientWrite_def split: option.splits)
  note n = tcp_write_sent [OF e]
  have ok: "snd (cl_queue c) \<le> length (fst (cl_queue c))" using inv Some by (simp add: tq.io_inv_def)
  let ?q = "tcp_sent n (cl_queue c)"
  let ?s1 = "set_queue fd ?q (sv_logged [Sv_out fd (take n (tcp_pending (cl_queue c)))] s)"
  have i: "tq.io_inv ?s1"
    using tq.dequeue [OF ok, of n] n by (intro tq.io_inv_dequeue [OF inv Some]) simp_all
  have f: "um_find (sv_clients ?s1) fd = Some (c\<lparr>cl_queue := ?q\<rparr>)" by (simp add: set_queue_def Some edgelink_simps)
  have clr: "tq.io_inv (set_queue fd ([], 0) ?s1)" if "e = Io_done"
    using n that tq.dequeue [OF ok, of n] by (intro tq.io_inv_requeue [OF i f]) (simp_all add: tcp_pending_def)
  show ?thesis using w n i clr
    by (cases e) (auto simp: tcp_handleClientWrite_def Some e Let_def tcp_removeClient_def
        intro: tcp_updateClientEvents_io tq.io_inv_remove)
qed (use inv w in \<open>simp add: tcp_handleClientWrite_def\<close>)

lemma tcp_read_inv:
  assumes inv: "server_inv base s" and d: "dels_ok os" and r: "tcp_handleClientRead os recvs sends fd s = Some s'"
  shows "server_inv base s'"
proof (cases "um_find (sv_clients s) fd")
  case (Some c)
  obtain e bs where e: "tcp_read recvs = Some (e, bs)"
    using r Some by (auto simp: tcp_handleClientRead_def split: option.splits)
  have i: "server_inv base (set_queue fd q (sv_logged [Sv_in fd x] s))" for q x
    by (intro server_inv_set_queue server_inv_logged inv io_only_single)
  show ?thesis using r
    by (auto simp: tcp_handleClientRead_def Some e Let_def tcp_removeClient_def split: if_splits
        intro: server_inv_removeClient tcp_write_inv i d)
qed (use inv r in \<open>simp add: tcp_handleClientRead_def\<close>)

lemma tcp_read_io:
  assumes inv: "tq.io_inv s" and r: "tcp_handleClientRead os recvs sends fd s = Some s'"
  shows "tq.io_inv s'"
proof (cases "um_find (sv_clients s) fd")
  case (Some c)
  obtain e bs where e: "tcp_read recvs = Some (e, bs)"
    using r Some by (auto simp: tcp_handleClientRead_def split: option.splits)
  show ?thesis using r tq.io_inv_enqueue [OF inv Some, of bs]
    by (auto simp: tcp_handleClientRead_def Some e Let_def tcp_removeClient_def split: if_splits
        intro: tq.io_inv_remove tcp_write_io)
qed (use inv r in \<open>simp add: tcp_handleClientRead_def\<close>)

lemma tcp_start_inv:
  assumes inv: "server_inv base s" and fr: "0 \<le> tr_socket r \<Longrightarrow> fresh_fd s (tr_socket r)"
  shows "server_inv base (snd (tcp_start os r s))"
proof -
  consider "0 \<le> sv_listenFd s" | "sv_listenFd s < 0" "tr_socket r < 0" | "sv_listenFd s < 0" "0 \<le> tr_socket r" by linarith
  then show ?thesis
  proof cases
    case 3
    let ?fd = "tr_socket r"
    let ?s1 = "(sv_logged [Sv_socket ?fd] s)\<lparr>sv_listenFd := ?fd\<rparr>"
    note opened = server_inv_opened [OF inv 3(1) fr [OF 3(2)]] and unopened = server_inv_unopened [OF inv 3(1) fr [OF 3(2)]]
    obtain added l where a: "addChannel (lr_add os ?fd) (listen_channel ?fd) (sv_loop s) = (added, l)" by (metis surj_pair)
    have lc: "sv_listenChannel s = None" using inv 3 by (auto simp: server_inv_def)
    have l: "?s1\<lparr>sv_loop := l\<rparr> = ?s1" if "\<not> added" using a that by (auto simp: addChannel_def Let_def split: if_splits)
    show ?thesis
      using 3 a l unopened server_inv_listening [OF opened, of "lr_add os ?fd" l] lc
      by (cases added) (auto simp: tcp_start_def Let_def)
  qed (use inv server_inv_no_socket in \<open>simp_all add: tcp_start_def\<close>)
qed

lemma tcp_start_io: "tq.io_inv s \<Longrightarrow> tq.io_inv (snd (tcp_start os r s))"
  by (auto simp: tcp_start_def Let_def tq.io_inv_def sent_on_def queued_on_def split: prod.splits)

subsection \<open>Runs\<close>

text \<open>
  The calls the owner and the event loop make. New sockets have descriptors that are not open, and the kernel takes
  registered descriptors off the interest list when asked to.
\<close>

inductive tcp_run_step :: "tcp_server \<Rightarrow> tcp_server \<Rightarrow> bool" where
  run_start: "(0 \<le> tr_socket r \<Longrightarrow> fresh_fd s (tr_socket r)) \<Longrightarrow> tcp_run_step s (snd (tcp_start os r s))"
| run_accept: "tcp_handleAccept os rs s = Some s' \<Longrightarrow> fresh_accepts ([], 0) os rs s \<Longrightarrow> tcp_run_step s s'"
| run_read: "tcp_handleClientRead os recvs sends fd s = Some s' \<Longrightarrow> dels_ok os \<Longrightarrow> tcp_run_step s s'"
| run_write: "tcp_handleClientWrite os sends fd s = Some s' \<Longrightarrow> dels_ok os \<Longrightarrow> tcp_run_step s s'"
| run_error: "dels_ok os \<Longrightarrow> tcp_run_step s (tcp_removeClient os fd s)"
| run_stop: "dels_ok os \<Longrightarrow> tcp_run_step s (tcp_stop os s)"

inductive tcp_run :: "tcp_server \<Rightarrow> tcp_server \<Rightarrow> bool" where
  run_refl: "tcp_run s s"
| run_next: "tcp_run s s' \<Longrightarrow> tcp_run_step s' s'' \<Longrightarrow> tcp_run s s''"

lemma tcp_run_step_inv: "tcp_run_step s s' \<Longrightarrow> server_inv base s \<Longrightarrow> server_inv base s'"
  by (induction rule: tcp_run_step.induct)
    (auto simp: tcp_handleAccept_def tcp_removeClient_def tcp_stop_def
      intro: tcp_start_inv server_inv_handleAccept tcp_read_inv tcp_write_inv server_inv_removeClient server_inv_stop)

lemma tcp_run_step_io: "tcp_run_step s s' \<Longrightarrow> tq.io_inv s \<Longrightarrow> tq.io_inv s'"
  by (induction rule: tcp_run_step.induct)
    (auto simp: tcp_handleAccept_def tcp_removeClient_def tcp_stop_def
      intro: tcp_start_io tq.io_inv_handleAccept tcp_read_io tcp_write_io tq.io_inv_remove tq.io_inv_stop)

lemma tcp_run_inv: "tcp_run s s' \<Longrightarrow> server_inv base s \<and> tq.io_inv s \<Longrightarrow> server_inv base s' \<and> tq.io_inv s'"
  by (induction rule: tcp_run.induct) (auto intro: tcp_run_step_inv tcp_run_step_io)


text \<open>
  C28. Whatever happened before, \<open>stop\<close> closes every descriptor the server opened or accepted that was not closed yet,
  each exactly once, and leaves the event loop with the registrations of the rest of the program and no other: no
  channel of a destroyed client or listener stays behind.
\<close>

theorem tcp_stop_releases_all:
  assumes "tcp_run (new_server l) s" and "loop_inv l" and "dels_ok os"
  shows "count_list (sv_log (tcp_stop os s)) (Sv_close fd) =
      count_list (sv_log (tcp_stop os s)) (Sv_socket fd) + count_list (sv_log (tcp_stop os s)) (Sv_accept fd) \<and>
    um_find (el_interest (sv_loop (tcp_stop os s))) fd = um_find (el_interest l) fd \<and>
    map_option ch_events (um_find (el_channels (sv_loop (tcp_stop os s))) fd) = map_option ch_events (um_find (el_channels l) fd) \<and>
    sv_clients (tcp_stop os s) = []"
proof -
  let ?s = "server_stop os s"
  have i: "server_inv (um_find (el_interest l)) ?s"
    using tcp_run_inv [OF assms(1)] server_inv_new [OF assms(2)] tq.io_inv_new server_inv_stop [OF _ assms(3)] by blast
  note e = server_stop_empty [of os s]
  have "count_list (sv_log ?s) (Sv_socket fd) + count_list (sv_log ?s) (Sv_accept fd) = count_list (sv_log ?s) (Sv_close fd)"
    using i e by (auto simp: server_inv_def)
  moreover have n: "um_find (el_interest (sv_loop ?s)) fd = um_find (el_interest l) fd"
    using i e by (simp add: server_inv_def registered_def)
  moreover have "map_option ch_events (um_find (el_channels (sv_loop ?s)) fd) = map_option ch_events (um_find (el_channels l) fd)"
    using n i assms(2) by (simp add: server_inv_def loop_inv_def)
  ultimately show ?thesis using e by (simp add: tcp_stop_def)
qed

text \<open>
  A client that sends its data and shuts down its side before the server reads gets nothing back: end of file in the
  same read loop removes the client together with its unsent echo.
\<close>

lemma tcp_half_close_loses_echo:
  assumes "um_find (sv_clients s) fd = Some c" and "bytes \<noteq> []"
  shows "\<exists>s'. tcp_handleClientRead os [Sys_ok bytes, Sys_ok []] sends fd s = Some s' \<and>
    um_find (sv_clients s') fd = None \<and> queued_on fd s' = queued_on fd s @ bytes \<and> sent_on fd s' = sent_on fd s"
  using assms
  by (simp add: tcp_handleClientRead_def tcp_removeClient_def removeClient_def set_queue_def edgelink_simps Let_def
      sent_on_def queued_on_def)

text \<open>A run with one client whose data is echoed in two parts.\<close>

definition tcp_os :: loop_results where
  "tcp_os = \<lparr>lr_add = (\<lambda>_. True), lr_del = (\<lambda>_. True)\<rparr>"

definition tcp_demo1 :: tcp_server where
  "tcp_demo1 = snd (tcp_start tcp_os \<lparr>tr_socket = 3, tr_setsockopt = True, tr_bind = True, tr_listen = True\<rparr> (new_server new_event_loop))"

definition tcp_demo2 :: tcp_server where
  "tcp_demo2 = accept_client ([], 0) tcp_os 7 tcp_demo1"

definition tcp_demo3 :: tcp_server where
  "tcp_demo3 = snd (tcp_updateClientEvents tcp_os 7 (EPOLLIN OR EPOLLOUT OR EPOLLRDHUP)
     (set_queue 7 (''hi'', 1) (sv_logged [Sv_out 7 ''h''] (set_queue 7 (''hi'', 0) (sv_logged [Sv_in 7 ''hi''] tcp_demo2)))))"

lemmas tcp_demo_simps = tcp_demo1_def tcp_demo2_def tcp_start_def accept_client_def new_server_def new_event_loop_def
  addChannel_def tcp_os_def Let_def edgelink_simps fresh_fd_def

lemma tcp_demo1_state:
  "sv_listenFd tcp_demo1 = 3" "sv_clients tcp_demo1 = []" "um_find (el_interest (sv_loop tcp_demo1)) 7 = None"
  "sv_log tcp_demo1 = [Sv_socket 3]"
  by (simp_all add: tcp_demo_simps)

lemma tcp_demo2_state: "um_find (sv_clients tcp_demo2) 7 = Some \<lparr>cl_channel = client_channel 7, cl_queue = ([], 0)\<rparr>"
  "sv_log tcp_demo2 = [Sv_socket 3, Sv_accept 7]"
  using tcp_demo1_state by (simp_all add: tcp_demo2_def accept_client_def addChannel_def tcp_os_def Let_def edgelink_simps)

lemma tcp_demo_run: "tcp_run (new_server new_event_loop) tcp_demo3"
proof -
  have d: "dels_ok tcp_os" by (simp add: dels_ok_def tcp_os_def)
  have 1: "tcp_run (new_server new_event_loop) tcp_demo1"
    unfolding tcp_demo1_def
    by (rule run_next [OF run_refl run_start]) (simp add: fresh_fd_def new_server_def new_event_loop_def)
  have "tcp_handleAccept tcp_os [Sys_ok 7, Sys_EAGAIN] tcp_demo1 = Some tcp_demo2"
    by (simp add: tcp_handleAccept_def tcp_demo2_def)
  then have 2: "tcp_run (new_server new_event_loop) tcp_demo2"
    by (rule run_next [OF 1 run_accept]) (simp add: fresh_fd_def tcp_demo1_state)
  have "tcp_handleClientRead tcp_os [Sys_ok ''hi'', Sys_EAGAIN] [Sys_ok 1, Sys_EAGAIN] 7 tcp_demo2 = Some tcp_demo3"
    by (simp add: tcp_handleClientRead_def tcp_handleClientWrite_def tcp_demo3_def tcp_demo2_state tcp_append_def tcp_sent_def
        tcp_pending_def set_queue_def edgelink_simps Let_def)
  then show ?thesis by (rule run_next [OF 2 run_read [OF _ d]])
qed


theorem tcp_stop_releases_all_witness:
  "sv_clients (tcp_stop tcp_os tcp_demo3) = [] \<and> um_find (el_interest (sv_loop (tcp_stop tcp_os tcp_demo3))) 7 = None"
  using tcp_stop_releases_all [OF tcp_demo_run loop_inv_new, of tcp_os 7] by (simp add: dels_ok_def tcp_os_def new_event_loop_def)

end
