(* ===== verification/Unix_Server.thy ===== *)
theory Unix_Server
  imports Socket_Server
begin

section \<open>The Unix-domain control server\<close>

text \<open>
  \<open>src/unix_domain_server.cpp\<close>: a \<open>SOCK_SEQPACKET\<close> server on a path of the file system. Each message of a client is one
  request; the message handler answers it, and the non-empty answers wait in the client's \<open>outputMessages\<close>. A received
  message is given whole; \<open>recv\<close> with \<open>MSG_TRUNC\<close> reports its real length, and a length of 0 is end of file. The
  handler may change a state \<open>'w\<close> of its own and may throw (\<open>None\<close>). \<open>us_path\<close> records what was done to the socket file.
\<close>

datatype path_event = Pa_unlink_stale | Pa_bind | Pa_unlink_own

type_synonym 'w message_handler = "string \<Rightarrow> 'w \<Rightarrow> string option \<times> 'w"

record 'w unix_server =
  us_base :: "(string list, string) server"
  us_socketPath :: string
  us_messageHandler :: "'w message_handler option"
  us_ownsSocketPath :: bool
  us_path :: "path_event list"

definition new_unix_server :: "server_cb event_loop \<Rightarrow> string \<Rightarrow> 'w unix_server" where
  "new_unix_server l socketPath = \<lparr>us_base = new_server l, us_socketPath = socketPath, us_messageHandler = None,
     us_ownsSocketPath = False, us_path = []\<rparr>"

definition setMessageHandler :: "'w message_handler \<Rightarrow> 'w unix_server \<Rightarrow> 'w unix_server" where
  "setMessageHandler handler u = u\<lparr>us_messageHandler := Some handler\<rparr>"

definition MaxControlMessageSize :: nat where "MaxControlMessageSize = 4096"

subsection \<open>Starting and stopping\<close>

datatype lstat_result = Ls_socket | Ls_other | Ls_absent | Ls_error
datatype connect_result = Cn_connected | Cn_refused | Cn_error

record unix_start_results =
  ur_lstat :: lstat_result
  ur_probe :: int
  ur_connect :: connect_result
  ur_unlink :: bool
  ur_socket :: int
  ur_bind :: bool
  ur_listen :: bool

definition isStaleSocketPath :: "unix_start_results \<Rightarrow> bool" where
  "isStaleSocketPath r \<longleftrightarrow> 0 \<le> ur_probe r \<and> ur_connect r = Cn_refused"

text \<open>The probe descriptor is opened and closed inside \<open>isStaleSocketPath\<close>.\<close>

definition probe_events :: "unix_start_results \<Rightarrow> string server_event list" where
  "probe_events r = (if 0 \<le> ur_probe r then [Sv_socket (ur_probe r), Sv_close (ur_probe r)] else [])"

definition unix_stop :: "loop_results \<Rightarrow> 'w unix_server \<Rightarrow> 'w unix_server" where
  "unix_stop os u =
     (let u1 = u\<lparr>us_base := server_stop os (us_base u)\<rparr> in
      if us_ownsSocketPath u1 then u1\<lparr>us_path := us_path u1 @ [Pa_unlink_own], us_ownsSocketPath := False\<rparr> else u1)"

definition unix_listen :: "loop_results \<Rightarrow> unix_start_results \<Rightarrow> 'w unix_server \<Rightarrow> bool \<times> 'w unix_server" where
  "unix_listen os r u =
     (if ur_socket r < 0 then (False, u\<lparr>us_base := (us_base u)\<lparr>sv_listenFd := ur_socket r\<rparr>\<rparr>)
      else (let fd = ur_socket r;
                s1 = (sv_logged [Sv_socket fd] (us_base u))\<lparr>sv_listenFd := fd\<rparr>
            in if \<not> ur_bind r then (False, u\<lparr>us_base := (sv_close fd s1)\<lparr>sv_listenFd := - 1\<rparr>\<rparr>)
               else (let u2 = u\<lparr>us_base := s1, us_ownsSocketPath := True, us_path := us_path u @ [Pa_bind]\<rparr> in
                 if \<not> ur_listen r then (False, unix_stop os u2)
                 else (let (added, l) = addChannel (lr_add os fd) (listen_channel fd) (sv_loop s1);
                           u3 = u2\<lparr>us_base := s1\<lparr>sv_loop := l, sv_listenChannel := Some (listen_channel fd)\<rparr>\<rparr>
                       in if \<not> added then (False, unix_stop os u3) else (True, u3)))))"

definition unix_start :: "bool \<Rightarrow> loop_results \<Rightarrow> unix_start_results \<Rightarrow> 'w unix_server \<Rightarrow> bool \<times> 'w unix_server" where
  "unix_start hasLoop os r u =
     (if 0 \<le> sv_listenFd (us_base u) then (True, u)
      else if \<not> hasLoop \<or> us_socketPath u = '''' then (False, u)
      else if sun_path_size \<le> length (us_socketPath u) then (False, u)
      else (case ur_lstat r of
          Ls_socket \<Rightarrow>
            (let u1 = u\<lparr>us_base := sv_logged (probe_events r) (us_base u)\<rparr> in
             if \<not> isStaleSocketPath r then (False, u1)
             else if \<not> ur_unlink r then (False, u1)
             else unix_listen os r (u1\<lparr>us_path := us_path u1 @ [Pa_unlink_stale]\<rparr>))
        | Ls_other \<Rightarrow> (False, u)
        | Ls_absent \<Rightarrow> unix_listen os r u
        | Ls_error \<Rightarrow> (False, u)))"

subsection \<open>Clients\<close>

definition unix_handleAccept :: "loop_results \<Rightarrow> int sys_result list \<Rightarrow> 'w unix_server \<Rightarrow> 'w unix_server option" where
  "unix_handleAccept os rs u = map_option (\<lambda>s. u\<lparr>us_base := s\<rparr>) (handleAccept [] os rs (us_base u))"

definition unix_removeClient :: "loop_results \<Rightarrow> int \<Rightarrow> 'w unix_server \<Rightarrow> 'w unix_server" where
  "unix_removeClient os clientFd u = u\<lparr>us_base := removeClient os clientFd (us_base u)\<rparr>"

definition unix_updateClientEvents :: "loop_results \<Rightarrow> int \<Rightarrow> u32 \<Rightarrow> 'w unix_server \<Rightarrow> bool \<times> 'w unix_server" where
  "unix_updateClientEvents os clientFd events u =
     (case um_find (sv_clients (us_base u)) clientFd of
        None \<Rightarrow> (False, u)
      | Some c \<Rightarrow>
          if ch_events (cl_channel c) = events then (True, u)
          else (let (removed, added, s1) = reregister os clientFd events c (us_base u) in
            if \<not> removed then (False, u\<lparr>us_base := s1\<rparr>)
            else if \<not> added
            then (False, u\<lparr>us_base := (sv_close clientFd s1)\<lparr>sv_clients := um_erase clientFd (sv_clients s1)\<rparr>\<rparr>)
            else (True, u\<lparr>us_base := s1\<rparr>)))"

text \<open>The answer to one request.\<close>

definition respond :: "'w message_handler option \<Rightarrow> string \<Rightarrow> 'w \<Rightarrow> string \<times> 'w" where
  "respond handler request w =
     (if MaxControlMessageSize < length request then (''ERROR: control message is too large'', w)
      else (case handler of
          None \<Rightarrow> (''ERROR: no message handler'', w)
        | Some f \<Rightarrow> (case f request w of
              (Some response, w') \<Rightarrow> (response, w')
            | (None, w') \<Rightarrow> (''ERROR: handler failed'', w'))))"

text \<open>The loop of \<open>handleClientRead\<close>: how it ends, the answers it queued, the handler's state.\<close>

fun unix_read :: "'w message_handler option \<Rightarrow> string sys_result list \<Rightarrow> 'w \<Rightarrow> (io_end \<times> string list \<times> 'w) option" where
  "unix_read handler [] w = None"
| "unix_read handler (r # rs) w =
     (case r of
        Sys_ok request \<Rightarrow>
          if request = [] then Some (Io_closed, [], w)
          else (let (response, w') = respond handler request w in
            map_option (\<lambda>(e, answers, w''). (e, if response \<noteq> [] then response # answers else answers, w''))
              (unix_read handler rs w'))
      | Sys_EINTR \<Rightarrow> unix_read handler rs w
      | Sys_EAGAIN \<Rightarrow> Some (Io_again, [], w)
      | Sys_error \<Rightarrow> Some (Io_failed, [], w))"

text \<open>The loop of \<open>handleClientWrite\<close>: how it ends and the number of messages it sent.\<close>

fun unix_write :: "nat sys_result list \<Rightarrow> string list \<Rightarrow> (io_end \<times> nat) option" where
  "unix_write rs [] = Some (Io_done, 0)"
| "unix_write [] (message # messages) = None"
| "unix_write (r # rs) (message # messages) =
     (case r of
        Sys_ok n \<Rightarrow> if n = length message then map_option (\<lambda>(e, m). (e, Suc m)) (unix_write rs messages) else Some (Io_failed, 0)
      | Sys_EINTR \<Rightarrow> unix_write rs (message # messages)
      | Sys_EAGAIN \<Rightarrow> Some (Io_again, 0)
      | Sys_error \<Rightarrow> Some (Io_failed, 0))"

definition unix_handleClientWrite :: "loop_results \<Rightarrow> nat sys_result list \<Rightarrow> int \<Rightarrow> 'w unix_server \<Rightarrow> 'w unix_server option" where
  "unix_handleClientWrite os sends clientFd u =
     (case um_find (sv_clients (us_base u)) clientFd of
        None \<Rightarrow> Some u
      | Some c \<Rightarrow>
          (case unix_write sends (cl_queue c) of
             None \<Rightarrow> None
           | Some (e, n) \<Rightarrow>
               (let u1 = u\<lparr>us_base := set_queue clientFd (drop n (cl_queue c))
                      (sv_logged [Sv_out clientFd (take n (cl_queue c))] (us_base u))\<rparr>
                in if e = Io_again then Some (snd (unix_updateClientEvents os clientFd (EPOLLIN OR EPOLLOUT OR EPOLLRDHUP) u1))
                   else if e = Io_failed then Some (unix_removeClient os clientFd u1)
                   else Some (snd (unix_updateClientEvents os clientFd (EPOLLIN OR EPOLLRDHUP) u1)))))"

definition unix_handleClientRead :: "loop_results \<Rightarrow> string sys_result list \<Rightarrow> nat sys_result list \<Rightarrow> int \<Rightarrow>
    'w unix_server \<times> 'w \<Rightarrow> ('w unix_server \<times> 'w) option" where
  "unix_handleClientRead os recvs sends clientFd uw =
     (let (u, w) = uw in
      case um_find (sv_clients (us_base u)) clientFd of
        None \<Rightarrow> Some (u, w)
      | Some c \<Rightarrow>
          (case unix_read (us_messageHandler u) recvs w of
             None \<Rightarrow> None
           | Some (e, answers, w') \<Rightarrow>
               (let u1 = u\<lparr>us_base := set_queue clientFd (cl_queue c @ answers) (sv_logged [Sv_in clientFd answers] (us_base u))\<rparr>
                in if e = Io_again then map_option (\<lambda>u2. (u2, w')) (unix_handleClientWrite os sends clientFd u1)
                   else Some (unix_removeClient os clientFd u1, w'))))"

subsection \<open>The queue contract and the invariants of the server\<close>

interpretation uq: output_queue "[]" "\<lambda>q. q" "\<lambda>xs q. q @ xs" drop "\<lambda>_. True"
  by unfold_locales auto

definition unix_inv :: "(int \<Rightarrow> u32 option) \<Rightarrow> 'w unix_server \<Rightarrow> bool" where
  "unix_inv base u \<longleftrightarrow> server_inv base (us_base u) \<and> uq.io_inv (us_base u) \<and>
     count_list (us_path u) Pa_bind = count_list (us_path u) Pa_unlink_own + (if us_ownsSocketPath u then 1 else 0) \<and>
     (0 \<le> sv_listenFd (us_base u) \<longleftrightarrow> us_ownsSocketPath u)"

definition unix_conns :: "'w unix_server \<Rightarrow> string conns" where
  "unix_conns u fd = map_option (\<lambda>c. (sent_on fd (us_base u), cl_queue c)) (um_find (sv_clients (us_base u)) fd)"

lemma unix_conns_abs: "unix_conns u = uq.conn_abs (us_base u)"
  by (auto simp: unix_conns_def uq.conn_abs_def fun_eq_iff)

text \<open>A step that keeps the invariants and is a sequence of steps of the contract.\<close>

definition unix_refines :: "'w unix_server \<Rightarrow> 'w unix_server \<Rightarrow> bool" where
  "unix_refines u u' \<longleftrightarrow> (\<forall>base. unix_inv base u \<longrightarrow> unix_inv base u') \<and>
     ((\<exists>base. unix_inv base u) \<longrightarrow> conn_steps (unix_conns u) (unix_conns u'))"

lemma unix_refines_refl: "unix_refines u u"
  by (simp add: unix_refines_def conn_refl)

lemma unix_refines_trans: "unix_refines u v \<Longrightarrow> unix_refines v w \<Longrightarrow> unix_refines u w"
  unfolding unix_refines_def by (blast intro: conn_steps_trans)

text \<open>A step of the shared server state that leaves the listening socket and the path alone.\<close>

lemma unix_refines_base:
  assumes "\<And>base. unix_inv base u \<Longrightarrow> server_inv base s \<and> uq.io_inv s \<and> sv_listenFd s = sv_listenFd (us_base u) \<and>
      conn_steps (uq.conn_abs (us_base u)) (uq.conn_abs s)"
  shows "unix_refines u (u\<lparr>us_base := s\<rparr>)"
  using assms by (auto simp: unix_refines_def unix_inv_def unix_conns_abs)

lemma unix_inv_rebase:
  "unix_inv base u \<Longrightarrow> server_inv base s \<Longrightarrow> uq.io_inv s \<Longrightarrow> sv_listenFd s = sv_listenFd (us_base u) \<Longrightarrow>
     unix_inv base (u\<lparr>us_base := s\<rparr>)"
  by (simp add: unix_inv_def)

lemma sv_listenFd_simps:
  "sv_listenFd (removeClient os fd s) = sv_listenFd s" "sv_listenFd (set_queue fd q s) = sv_listenFd s"
  "sv_listenFd (accept_client q0 os fd s) = sv_listenFd s"
  by (auto simp: removeClient_def set_queue_def accept_client_def Let_def split: option.splits prod.splits)

lemma reregister_listenFd: "reregister os fd events c s = (removed, added, s') \<Longrightarrow> sv_listenFd s' = sv_listenFd s"
  by (auto simp: reregister_def Let_def split: if_splits prod.splits)

lemma handleAccept_listenFd: "handleAccept q0 os rs s = Some s' \<Longrightarrow> sv_listenFd s' = sv_listenFd s"
proof (induction rs arbitrary: s)
  case (Cons r rs) then show ?case by (cases r) (auto simp: sv_listenFd_simps dest!: Cons.IH)
qed simp

lemma unix_removeClient_refines: "dels_ok os \<Longrightarrow> unix_refines u (unix_removeClient os fd u)"
  unfolding unix_removeClient_def
  by (rule unix_refines_base)
    (auto simp: unix_inv_def sv_listenFd_simps intro: server_inv_removeClient uq.io_inv_remove uq.abs_remove)

lemma unix_handleAccept_refines:
  assumes "unix_handleAccept os rs u = Some u'" and "fresh_accepts [] os rs (us_base u)"
  shows "unix_refines u u'"
proof -
  obtain s where s: "handleAccept [] os rs (us_base u) = Some s" "u' = u\<lparr>us_base := s\<rparr>"
    using assms(1) by (auto simp: unix_handleAccept_def)
  show ?thesis unfolding s(2)
    by (rule unix_refines_base)
      (auto simp: unix_inv_def handleAccept_listenFd [OF s(1)]
        intro: server_inv_handleAccept [OF s(1)] uq.io_inv_handleAccept [OF s(1)] uq.abs_handleAccept [OF s(1)] assms(2))
qed

lemma unix_updateClientEvents_refines:
  assumes d: "dels_ok os"
  shows "unix_refines u (snd (unix_updateClientEvents os fd events u))"
proof (cases "um_find (sv_clients (us_base u)) fd")
  case (Some c)
  obtain removed added s1 where r: "reregister os fd events c (us_base u) = (removed, added, s1)" by (metis prod_cases3)
  note l = reregister_listenFd [OF r] and a = uq.abs_reregister [OF Some r]
  have base: "unix_refines u (u\<lparr>us_base := s1\<rparr>)" if "added"
    by (rule unix_refines_base) (use reregister_spec [OF _ d Some r] uq.io_inv_reregister [OF _ Some r] that in
      \<open>auto simp: unix_inv_def l a conn_refl\<close>)
  have gone: "unix_refines u (u\<lparr>us_base := (sv_close fd s1)\<lparr>sv_clients := um_erase fd (sv_clients s1)\<rparr>\<rparr>)" if "\<not> added"
  proof (rule unix_refines_base)
    fix base assume "unix_inv base u"
    then have i: "server_inv base (us_base u)" "uq.io_inv (us_base u)" by (simp_all add: unix_inv_def)
    have "uq.io_inv ((sv_close fd s1)\<lparr>sv_clients := um_erase fd (sv_clients (sv_close fd s1))\<rparr>)"
      by (intro uq.io_inv_erase uq.io_inv_closed uq.io_inv_reregister [OF i(2) Some r])
    moreover have "conn_steps (uq.conn_abs (us_base u)) (uq.conn_abs ((sv_close fd s1)\<lparr>sv_clients := um_erase fd (sv_clients s1)\<rparr>))"
      unfolding uq.abs_closed a by (rule conn_closed)
    ultimately show "server_inv base ((sv_close fd s1)\<lparr>sv_clients := um_erase fd (sv_clients s1)\<rparr>) \<and>
        uq.io_inv ((sv_close fd s1)\<lparr>sv_clients := um_erase fd (sv_clients s1)\<rparr>) \<and>
        sv_listenFd ((sv_close fd s1)\<lparr>sv_clients := um_erase fd (sv_clients s1)\<rparr>) = sv_listenFd (us_base u) \<and>
        conn_steps (uq.conn_abs (us_base u)) (uq.conn_abs ((sv_close fd s1)\<lparr>sv_clients := um_erase fd (sv_clients s1)\<rparr>))"
      using reregister_spec [OF i(1) d Some r] that l by simp
  qed
  have nr: "s1 = us_base u" if "\<not> removed" using r that by (auto simp: reregister_def Let_def split: if_splits prod.splits)
  show ?thesis using base gone unix_refines_refl [of u] nr
    by (auto simp: unix_updateClientEvents_def Some r)
qed (simp add: unix_updateClientEvents_def unix_refines_refl)

lemma unix_write_count: "unix_write rs q = Some (e, n) \<Longrightarrow> n \<le> length q \<and> (e = Io_done \<longrightarrow> n = length q) \<and> e \<noteq> Io_closed"
proof (induction rs q arbitrary: e n rule: unix_write.induct)
  case (3 r rs m ms)
  then show ?case by (cases r) (auto split: if_splits)
qed auto

lemma unix_io_only: "io_only [Sv_in fd xs]" "io_only [Sv_out fd xs]"
  by (simp_all add: io_only_def)

lemma unix_handleClientWrite_refines:
  assumes d: "dels_ok os" and w: "unix_handleClientWrite os sends fd u = Some u'"
  shows "unix_refines u u'"
proof (cases "um_find (sv_clients (us_base u)) fd")
  case (Some c)
  obtain e n where e: "unix_write sends (cl_queue c) = Some (e, n)"
    using w Some by (auto simp: unix_handleClientWrite_def split: option.splits)
  note n = unix_write_count [OF e]
  let ?u1 = "u\<lparr>us_base := set_queue fd (drop n (cl_queue c)) (sv_logged [Sv_out fd (take n (cl_queue c))] (us_base u))\<rparr>"
  have r: "unix_refines u ?u1"
    by (rule unix_refines_base) (use n in \<open>auto simp: unix_inv_def sv_listenFd_simps
      intro!: server_inv_set_queue server_inv_logged unix_io_only uq.io_inv_dequeue [OF _ Some] uq.abs_dequeue [OF Some]\<close>)
  have "unix_refines ?u1 u'" using w
    by (auto simp: unix_handleClientWrite_def Some e Let_def split: if_splits
        intro: unix_updateClientEvents_refines unix_removeClient_refines d)
  with r show ?thesis by (rule unix_refines_trans)
qed (use w in \<open>simp add: unix_handleClientWrite_def unix_refines_refl\<close>)

lemma unix_handleClientRead_refines:
  assumes d: "dels_ok os" and r: "unix_handleClientRead os recvs sends fd (u, w) = Some (u', w')"
  shows "unix_refines u u'"
proof (cases "um_find (sv_clients (us_base u)) fd")
  case (Some c)
  obtain e xs w1 where e: "unix_read (us_messageHandler u) recvs w = Some (e, xs, w1)"
    using r Some by (auto simp: unix_handleClientRead_def split: option.splits)
  let ?u1 = "u\<lparr>us_base := set_queue fd (cl_queue c @ xs) (sv_logged [Sv_in fd xs] (us_base u))\<rparr>"
  have q: "unix_refines u ?u1"
    by (rule unix_refines_base) (use uq.io_inv_enqueue [OF _ Some, of xs] uq.abs_enqueue [OF _ Some, of xs] in
      \<open>auto simp: unix_inv_def sv_listenFd_simps intro!: server_inv_set_queue server_inv_logged unix_io_only\<close>)
  have "unix_refines ?u1 u'" using r
    by (auto simp: unix_handleClientRead_def Some e Let_def split: if_splits
        intro: unix_handleClientWrite_refines unix_removeClient_refines d)
  with q show ?thesis by (rule unix_refines_trans)
qed (use r in \<open>simp add: unix_handleClientRead_def unix_refines_refl\<close>)

subsection \<open>Starting and stopping keep the invariants\<close>

lemma unix_stop_refines:
  assumes "dels_ok os"
  shows "unix_refines u (unix_stop os u)"
proof -
  have "unix_inv base (unix_stop os u) \<and> conn_steps (unix_conns u) (unix_conns (unix_stop os u))" if i: "unix_inv base u" for base
  proof -
    have s: "server_inv base (us_base u)" "uq.io_inv (us_base u)" using i by (simp_all add: unix_inv_def)
    have w: "um_wf (sv_clients (us_base u))" using s(1) by (simp add: server_inv_def)
    have b: "us_base (unix_stop os u) = server_stop os (us_base u)" by (simp add: unix_stop_def Let_def)
    have "unix_inv base (unix_stop os u)"
      using i server_inv_stop [OF s(1) assms] uq.io_inv_stop [OF s(2)] server_stop_empty [of os "us_base u"]
      by (auto simp: unix_inv_def b) (auto simp: unix_stop_def)
    then show ?thesis using uq.abs_stop [OF w, of os] by (simp add: unix_conns_abs b)
  qed
  then show ?thesis by (auto simp: unix_refines_def)
qed

lemma close_clients_listenChannel:
  "close_clients os cs (s\<lparr>sv_listenChannel := x\<rparr>) = (close_clients os cs s)\<lparr>sv_listenChannel := x\<rparr>"
proof (induction os cs s rule: close_clients.induct)
  case (2 os fd c cs s)
  let ?l = "snd (removeChannel (lr_del os fd) (cl_channel c) (sv_loop s))"
  have e: "sv_close fd (s\<lparr>sv_listenChannel := x, sv_loop := ?l\<rparr>) = (sv_close fd (s\<lparr>sv_loop := ?l\<rparr>))\<lparr>sv_listenChannel := x\<rparr>"
    by (rule server.equality) (simp_all add: sv_close_def sv_logged_def)
  show ?case by (simp add: e 2)
qed simp

lemma close_clients_unregistered:
  "um_find (el_interest (sv_loop s)) fd = None \<Longrightarrow> um_find (el_interest (sv_loop (close_clients os cs s))) fd = None"
proof (induction os cs s rule: close_clients.induct)
  case (2 os x c cs s)
  obtain ok l where r: "removeChannel (lr_del os x) (cl_channel c) (sv_loop s) = (ok, l)" by (metis surj_pair)
  show ?case using 2 removeChannel_find [OF r, of fd] by (simp add: r close_fd_find)
qed simp

text \<open>Stopping with a channel that the loop never accepted is stopping without a channel.\<close>

lemma server_stop_unregistered:
  assumes "um_find (el_interest (sv_loop s)) (sv_listenFd s) = None"
  shows "server_stop os (s\<lparr>sv_listenChannel := Some (listen_channel (sv_listenFd s))\<rparr>) = server_stop os (s\<lparr>sv_listenChannel := None\<rparr>)"
proof -
  let ?t = "close_clients os (sv_clients s) s"
  have n: "um_find (el_interest (sv_loop ?t)) (sv_listenFd s) = None" using assms by (rule close_clients_unregistered)
  have f: "sv_listenFd ?t = sv_listenFd s" using close_clients_simps by blast
  have "snd (removeChannel p (listen_channel (sv_listenFd s)) (sv_loop ?t)) = sv_loop ?t" for p
    using n by (simp add: removeChannel_def)
  then show ?thesis
    by (intro server.equality)
      (simp_all add: server_stop_def close_clients_listenChannel close_listener_def f Let_def)
qed

lemma unix_listen_refines:
  assumes d: "dels_ok os" and closed: "sv_listenFd (us_base u) < 0" and fr: "0 \<le> ur_socket r \<Longrightarrow> fresh_fd (us_base u) (ur_socket r)"
  shows "unix_refines u (snd (unix_listen os r u))"
proof -
  let ?s = "us_base u" and ?fd = "ur_socket r"
  let ?s1 = "(sv_logged [Sv_socket ?fd] ?s)\<lparr>sv_listenFd := ?fd\<rparr>"
  let ?u2 = "u\<lparr>us_base := ?s1, us_ownsSocketPath := True, us_path := us_path u @ [Pa_bind]\<rparr>"
  obtain added l where a: "addChannel (lr_add os ?fd) (listen_channel ?fd) (sv_loop ?s1) = (added, l)" by (metis surj_pair)
  let ?u3 = "?u2\<lparr>us_base := ?s1\<lparr>sv_loop := l, sv_listenChannel := Some (listen_channel ?fd)\<rparr>\<rparr>"
  have conns: "conn_steps (unix_conns u) (unix_conns v)" if "sv_clients (us_base v) = sv_clients ?s"
      "\<And>x. sent_on x (us_base v) = sent_on x ?s" for v :: "'a unix_server"
  proof -
    have "unix_conns v = unix_conns u" using that by (simp add: unix_conns_def fun_eq_iff)
    then show ?thesis by (simp add: conn_refl)
  qed
  have io: "uq.io_inv t" if "uq.io_inv ?s" "sv_clients t = sv_clients ?s" "\<And>x. sent_on x t = sent_on x ?s"
      "\<And>x. queued_on x t = queued_on x ?s" for t
    using that by (simp add: uq.io_inv_def)
  consider "?fd < 0" | "0 \<le> ?fd" "\<not> ur_bind r" | "0 \<le> ?fd" "ur_bind r" by linarith
  then show ?thesis
  proof cases
    case 1
    have "unix_inv base (snd (unix_listen os r u))" if "unix_inv base u" for base
      using that 1 closed server_inv_no_socket [OF _ closed 1] io
      by (auto simp: unix_listen_def unix_inv_def sent_on_def queued_on_def)
    then show ?thesis using 1 conns by (auto simp: unix_refines_def unix_listen_def sent_on_def)
  next
    case 2
    have "unix_inv base (snd (unix_listen os r u))" if "unix_inv base u" for base
      using that 2 closed server_inv_unopened [OF _ closed fr] io
      by (auto simp: unix_listen_def unix_inv_def Let_def sent_on_def queued_on_def)
    then show ?thesis using 2 conns by (auto simp: unix_refines_def unix_listen_def Let_def sent_on_def)
  next
    case 3
    have inv2: "unix_inv base ?u2" if "unix_inv base u" for base
      using that 3 closed server_inv_opened [OF _ closed fr] io by (auto simp: unix_inv_def sent_on_def queued_on_def)
    then have r2: "unix_refines u ?u2" using conns by (auto simp: unix_refines_def sent_on_def)
    have "unix_inv base ?u3" if "unix_inv base u" "added" for base
    proof -
      have i: "server_inv base ?s" using that by (simp add: unix_inv_def)
      have lc: "sv_listenChannel ?s = None" using i closed by (auto simp: server_inv_def)
      have "server_inv base (?s1\<lparr>sv_loop := l, sv_listenChannel := Some (listen_channel ?fd)\<rparr>)"
        using server_inv_listening [OF server_inv_opened [OF i closed fr [OF 3(1)]], of "lr_add os ?fd" l] 3(1) a that(2) lc by simp
      moreover have "uq.io_inv (?s1\<lparr>sv_loop := l, sv_listenChannel := Some (listen_channel ?fd)\<rparr>)"
        by (rule io) (use that(1) in \<open>simp_all add: unix_inv_def sent_on_def queued_on_def\<close>)
      ultimately show ?thesis by (rule unix_inv_rebase [OF inv2 [OF that(1)]]) simp
    qed
    then have r3: "unix_refines u ?u3" if added using that conns by (auto simp: unix_refines_def sent_on_def)
    have "unix_stop os ?u3 = unix_stop os ?u2" if "\<not> added" "unix_inv base u" for base
    proof -
      have lc: "sv_listenChannel ?s = None" using that(2) closed by (auto simp: unix_inv_def server_inv_def)
      have n: "um_find (el_interest (sv_loop ?s1)) (sv_listenFd ?s1) = None" using fr [OF 3(1)] by (simp add: fresh_fd_def)
      have l: "l = sv_loop ?s1" using a that(1) by (auto simp: addChannel_def Let_def split: if_splits)
      have "server_stop os (?s1\<lparr>sv_loop := l, sv_listenChannel := Some (listen_channel ?fd)\<rparr>) = server_stop os ?s1"
      proof -
        have "?s1\<lparr>sv_listenChannel := None\<rparr> = ?s1" by (rule server.equality) (simp_all add: lc)
        moreover have "?s1\<lparr>sv_loop := l, sv_listenChannel := Some (listen_channel ?fd)\<rparr> =
            ?s1\<lparr>sv_listenChannel := Some (listen_channel (sv_listenFd ?s1))\<rparr>"
          by (rule server.equality) (simp_all add: l)
        ultimately show ?thesis using server_stop_unregistered [OF n, of os] by (simp only:)
      qed
      then show ?thesis by (simp add: unix_stop_def)
    qed
    then have stop3: "unix_refines u (unix_stop os ?u3)" if "\<not> added"
      using unix_refines_trans [OF r2 unix_stop_refines [OF d]] that unfolding unix_refines_def by metis
    show ?thesis
      using 3 a r3 stop3 unix_refines_trans [OF r2 unix_stop_refines [OF d]]
      by (cases added) (auto simp: unix_listen_def Let_def)
  qed
qed

text \<open>
  A successful start found no file, or a socket file whose server refused a connection; only such a file is removed
  before binding, and a start that fails before binding touches nothing of the path.
\<close>

lemma unix_start_refines:
  assumes d: "dels_ok os" and fr: "0 \<le> ur_socket r \<Longrightarrow> fresh_fd (us_base u) (ur_socket r)"
  shows "unix_refines u (snd (unix_start hasLoop os r u))"
proof -
  let ?u1 = "u\<lparr>us_base := sv_logged (probe_events r) (us_base u)\<rparr>"
  let ?u2 = "?u1\<lparr>us_path := us_path u @ [Pa_unlink_stale]\<rparr>"
  have fresh: "fresh_fd (us_base ?u1) x = fresh_fd (us_base u) x" for x by (simp add: fresh_fd_def)
  have s: "sent_on x (us_base ?u1) = sent_on x (us_base u)" "queued_on x (us_base ?u1) = queued_on x (us_base u)" for x
    by (auto simp: probe_events_def)
  have inv: "unix_inv base ?u1" "unix_inv base ?u2" if "unix_inv base u" for base
    using that s by (auto simp: unix_inv_def uq.io_inv_def server_inv_def probe_events_def)
  have conns: "unix_conns ?u1 = unix_conns u" "unix_conns ?u2 = unix_conns u"
    using s by (auto simp: unix_conns_def fun_eq_iff cong: map_option_cong)
  have r: "unix_refines u ?u1" "unix_refines u ?u2" using inv conns by (auto simp: unix_refines_def conn_refl)
  show ?thesis
  proof (cases "0 \<le> sv_listenFd (us_base u)")
    case False
    then have l: "unix_refines u (snd (unix_listen os r u))" "unix_refines ?u2 (snd (unix_listen os r ?u2))"
      using d fr fresh by (auto intro!: unix_listen_refines simp: fresh_fd_def)
    then show ?thesis using r unix_refines_refl [of u] unix_refines_trans [OF r(2) l(2)]
      by (cases "ur_lstat r") (auto simp: unix_start_def Let_def)
  qed (simp add: unix_start_def unix_refines_refl)
qed

subsection \<open>Requests and answers\<close>

text \<open>The requests that one read handler takes from the socket, and their answers in order.\<close>

fun requests_of :: "string sys_result list \<Rightarrow> string list" where
  "requests_of (Sys_ok r # rs) = (if r = [] then [] else r # requests_of rs)"
| "requests_of (Sys_EINTR # rs) = requests_of rs"
| "requests_of _ = []"

fun answer_all :: "'w message_handler option \<Rightarrow> string list \<Rightarrow> 'w \<Rightarrow> string list \<times> 'w" where
  "answer_all h [] w = ([], w)"
| "answer_all h (r # rs) w =
     (let (answer, w') = respond h r w; (answers, w'') = answer_all h rs w'
      in (if answer = [] then answers else answer # answers, w''))"

lemma unix_read_answers:
  "unix_read h rs w = Some (e, answers, w') \<Longrightarrow> (answers, w') = answer_all h (requests_of rs) w \<and> e \<noteq> Io_done"
proof (induction h rs w arbitrary: e answers w' rule: unix_read.induct)
  case (2 h r rs w)
  show ?case
  proof (cases r)
    case (Sys_ok request)
    show ?thesis
    proof (cases "request = []")
      case False
      obtain a w1 where a: "respond h request w = (a, w1)" by (metis surj_pair)
      obtain e2 as w2 where u: "unix_read h rs w1 = Some (e2, as, w2)" "e = e2" "w' = w2"
          "answers = (if a = [] then as else a # as)"
        using "2.prems" Sys_ok False a by (auto split: if_splits)
      from "2.IH"(1) [OF Sys_ok False a [symmetric] refl u(1)] show ?thesis
        using Sys_ok False a u by (auto split: prod.splits)
    qed (use "2.prems" Sys_ok in simp)
  qed (use 2 in simp_all)
qed simp

text \<open>With enough results the read loop ends: it needs the result that says there is no more.\<close>

lemma unix_read_ends:
  "unix_read h rs w = None \<longleftrightarrow> list_all (\<lambda>r. case r of Sys_ok m \<Rightarrow> m \<noteq> [] | Sys_EINTR \<Rightarrow> True | _ \<Rightarrow> False) rs"
proof (induction h rs w rule: unix_read.induct)
  case (2 h r rs w)
  show ?case
  proof (cases r)
    case (Sys_ok m)
    obtain a w1 where "respond h m w = (a, w1)" by (metis surj_pair)
    then show ?thesis using 2 Sys_ok by (cases "m = []") auto
  qed (use 2 in simp_all)
qed simp

subsection \<open>Runs\<close>

inductive unix_run_step :: "'w unix_server \<times> 'w \<Rightarrow> 'w unix_server \<times> 'w \<Rightarrow> bool" where
  ustep_handler: "unix_run_step (u, w) (setMessageHandler h u, w)"
| ustep_start: "(0 \<le> ur_socket r \<Longrightarrow> fresh_fd (us_base u) (ur_socket r)) \<Longrightarrow> dels_ok os \<Longrightarrow>
     unix_run_step (u, w) (snd (unix_start hasLoop os r u), w)"
| ustep_accept: "unix_handleAccept os rs u = Some u' \<Longrightarrow> fresh_accepts [] os rs (us_base u) \<Longrightarrow> unix_run_step (u, w) (u', w)"
| ustep_read: "unix_handleClientRead os recvs sends fd (u, w) = Some (u', w') \<Longrightarrow> dels_ok os \<Longrightarrow> unix_run_step (u, w) (u', w')"
| ustep_write: "unix_handleClientWrite os sends fd u = Some u' \<Longrightarrow> dels_ok os \<Longrightarrow> unix_run_step (u, w) (u', w)"
| ustep_error: "dels_ok os \<Longrightarrow> unix_run_step (u, w) (unix_removeClient os fd u, w)"
| ustep_stop: "dels_ok os \<Longrightarrow> unix_run_step (u, w) (unix_stop os u, w)"
| ustep_world: "unix_run_step (u, w) (u, w')"

inductive unix_run :: "'w unix_server \<times> 'w \<Rightarrow> 'w unix_server \<times> 'w \<Rightarrow> bool" where
  urun_refl: "unix_run x x"
| urun_next: "unix_run x y \<Longrightarrow> unix_run_step y z \<Longrightarrow> unix_run x z"

lemma setMessageHandler_refines: "unix_refines u (setMessageHandler h u)"
proof -
  have "unix_conns (setMessageHandler h u) = unix_conns u" by (simp add: unix_conns_def setMessageHandler_def fun_eq_iff)
  then show ?thesis by (simp add: unix_refines_def unix_inv_def setMessageHandler_def conn_refl)
qed

lemma unix_run_step_refines: "unix_run_step x y \<Longrightarrow> unix_refines (fst x) (fst y)"
  by (induction rule: unix_run_step.induct)
    (auto intro: setMessageHandler_refines unix_start_refines unix_handleAccept_refines unix_handleClientRead_refines
      unix_handleClientWrite_refines unix_removeClient_refines unix_stop_refines unix_refines_refl)

lemma unix_run_refines: "unix_run x y \<Longrightarrow> unix_refines (fst x) (fst y)"
  by (induction rule: unix_run.induct) (auto intro: unix_refines_refl unix_refines_trans unix_run_step_refines)

lemma unix_inv_new: "loop_inv l \<Longrightarrow> unix_inv (um_find (el_interest l)) (new_unix_server l path)"
  using server_inv_new uq.io_inv_new by (fastforce simp: unix_inv_def new_unix_server_def new_server_def)


text \<open>Only reading queues anything.\<close>

lemma queued_remove: "queued_on x (removeClient os fd s) = queued_on x s"
  by (cases "um_find (sv_clients s) fd") (simp_all add: removeClient_def queued_on_def)

lemma queued_set_queue: "queued_on x (set_queue fd q s) = queued_on x s"
  by (cases "um_find (sv_clients s) fd") (simp_all add: set_queue_def queued_on_def)

lemma queued_update: "queued_on x (us_base (snd (unix_updateClientEvents os fd events u))) = queued_on x (us_base u)"
proof (cases "um_find (sv_clients (us_base u)) fd")
  case (Some c)
  obtain removed added s1 where r: "reregister os fd events c (us_base u) = (removed, added, s1)" by (metis prod_cases3)
  have "sv_log s1 = sv_log (us_base u)" using r by (auto simp: reregister_def Let_def split: if_splits prod.splits)
  then show ?thesis by (simp add: unix_updateClientEvents_def Some r queued_on_def)
qed (simp add: unix_updateClientEvents_def)

lemma unix_write_queued:
  assumes "unix_handleClientWrite os sends fd u = Some u'"
  shows "queued_on x (us_base u') = queued_on x (us_base u)"
proof (cases "um_find (sv_clients (us_base u)) fd")
  case (Some c)
  obtain e n where e: "unix_write sends (cl_queue c) = Some (e, n)"
    using assms Some by (auto simp: unix_handleClientWrite_def split: option.splits)
  show ?thesis using assms
    by (auto simp: unix_handleClientWrite_def Some e Let_def queued_update unix_removeClient_def queued_remove queued_set_queue
        split: if_splits)
qed (use assms in \<open>simp add: unix_handleClientWrite_def\<close>)


subsection \<open>The socket file\<close>

text \<open>
  What a start does to the path: nothing, or it removes a socket file that no server answered on, or it binds (and takes
  its own file away again when it fails later). A regular file or the socket of a running server is never removed.
\<close>

lemma unix_listen_path:
  "sv_listenFd (us_base u) < 0 \<Longrightarrow> \<exists>es. us_path (snd (unix_listen os r u)) = us_path u @ es \<and> Pa_unlink_stale \<notin> set es"
  by (auto simp: unix_listen_def unix_stop_def Let_def split: prod.splits)

lemma unix_start_path_safe:
  "\<exists>es. us_path (snd (unix_start hasLoop os r u)) = us_path u @ es \<and>
     (Pa_unlink_stale \<in> set es \<longrightarrow> ur_lstat r = Ls_socket \<and> 0 \<le> ur_probe r \<and> ur_connect r = Cn_refused)"
proof (cases "sv_listenFd (us_base u) < 0")
  case True
  let ?u2 = "u\<lparr>us_base := sv_logged (probe_events r) (us_base u), us_path := us_path u @ [Pa_unlink_stale]\<rparr>"
  obtain es1 where 1: "us_path (snd (unix_listen os r u)) = us_path u @ es1" "Pa_unlink_stale \<notin> set es1"
    using unix_listen_path [OF True] by blast
  obtain es2 where 2: "us_path (snd (unix_listen os r ?u2)) = (us_path u @ [Pa_unlink_stale]) @ es2"
    using unix_listen_path [of ?u2] True by auto
  have "us_path (snd (unix_start hasLoop os r u)) = us_path u \<or>
      us_path (snd (unix_start hasLoop os r u)) = us_path (snd (unix_listen os r u)) \<or>
      us_path (snd (unix_start hasLoop os r u)) = us_path (snd (unix_listen os r ?u2)) \<and> isStaleSocketPath r \<and> ur_lstat r = Ls_socket"
    by (auto simp: unix_start_def Let_def split: lstat_result.splits)
  then show ?thesis
  proof (elim disjE conjE)
    assume "us_path (snd (unix_start hasLoop os r u)) = us_path (snd (unix_listen os r ?u2))" "isStaleSocketPath r" "ur_lstat r = Ls_socket"
    then show ?thesis using 2 by (auto simp: isStaleSocketPath_def)
  qed (use 1 in auto)
qed (simp add: unix_start_def)

subsection \<open>A concrete run\<close>

definition ux_os :: loop_results where
  "ux_os = \<lparr>lr_add = (\<lambda>_. True), lr_del = (\<lambda>_. True)\<rparr>"

definition ux_results :: unix_start_results where
  "ux_results = \<lparr>ur_lstat = Ls_absent, ur_probe = - 1, ur_connect = Cn_error, ur_unlink = True, ur_socket = 3, ur_bind = True,
     ur_listen = True\<rparr>"

definition ux_handler :: "nat message_handler" where
  "ux_handler request n = (if request = ''bye'' then None else Some request, Suc n)"

definition ux_listening :: "nat unix_server" where
  "ux_listening = setMessageHandler ux_handler (snd (unix_start True ux_os ux_results (new_unix_server new_event_loop ''/run/e'')))"

definition ux_connected :: "nat unix_server" where
  "ux_connected = ux_listening\<lparr>us_base := accept_client [] ux_os 7 (us_base ux_listening)\<rparr>"

lemma ux_listening_state:
  "sv_listenFd (us_base ux_listening) = 3" "sv_clients (us_base ux_listening) = []"
  "um_find (el_interest (sv_loop (us_base ux_listening))) 7 = None" "us_messageHandler ux_listening = Some ux_handler"
  "sv_log (us_base ux_listening) = [Sv_socket 3]"
  by (simp_all add: ux_listening_def setMessageHandler_def unix_start_def ux_results_def new_unix_server_def new_server_def
      new_event_loop_def sun_path_size_def unix_listen_def addChannel_def ux_os_def edgelink_simps)

lemma ux_connected_state:
  "um_find (sv_clients (us_base ux_connected)) 7 = Some \<lparr>cl_channel = client_channel 7, cl_queue = []\<rparr>"
  "us_messageHandler ux_connected = Some ux_handler" "sv_log (us_base ux_connected) = [Sv_socket 3, Sv_accept 7]"
  using ux_listening_state by (simp_all add: ux_connected_def accept_client_def addChannel_def ux_os_def edgelink_simps)

lemma ux_connected_run: "unix_run (new_unix_server new_event_loop ''/run/e'', 0) (ux_connected, 0)"
proof -
  have d: "dels_ok ux_os" by (simp add: dels_ok_def ux_os_def)
  have "unix_run (new_unix_server new_event_loop ''/run/e'', 0 :: nat)
      (snd (unix_start True ux_os ux_results (new_unix_server new_event_loop ''/run/e'')), 0)"
    by (rule urun_next [OF urun_refl ustep_start [OF _ d]])
      (simp add: fresh_fd_def ux_results_def new_unix_server_def new_server_def new_event_loop_def)
  then have l: "unix_run (new_unix_server new_event_loop ''/run/e'', 0) (ux_listening, 0)"
    unfolding ux_listening_def by (rule urun_next [OF _ ustep_handler])
  have "unix_handleAccept ux_os [Sys_ok 7, Sys_EAGAIN] ux_listening = Some ux_connected"
    by (simp add: unix_handleAccept_def ux_connected_def)
  moreover have "fresh_accepts [] ux_os [Sys_ok 7, Sys_EAGAIN] (us_base ux_listening)"
    by (simp add: fresh_fd_def ux_listening_state)
  ultimately show ?thesis by (rule urun_next [OF l ustep_accept])
qed



end
