(* ===== verification/Thread_Pool.thy ===== *)
theory Thread_Pool
  imports Prelude "HOL-Library.Multiset"
begin

section \<open>The thread pool\<close>

text \<open>
  \<open>src/thread_pool.cpp\<close>. The workers, the submitters and the owner interleave; what they do under the mutex is one step,
  and so are a notification and the execution of a task. A worker waits on the condition variable (\<open>Wk_wait\<close>) until a
  notification, or nothing at all (a spurious wake-up), sends it back to its loop condition. A submitter notifies after
  it has released the mutex, so notifications can be outstanding. The lists of accepted, taken and finished tasks are
  histories. A task that throws ends the program and is not modelled.
\<close>

datatype 't worker = Wk_loop | Wk_wait | Wk_busy 't | Wk_exited

text \<open>Where the owner's call of \<open>stop\<close> is.\<close>

datatype stop_pc = Stop_none | Stop_flagged | Stop_joining

record 't pool =
  tp_threadCount :: nat
  tp_workers :: "'t worker list"
  tp_tasks :: "'t list"
  tp_running :: bool
  tp_stopping :: bool
  tp_notifies :: nat
  tp_stop :: stop_pc
  tp_accepted :: "'t list"
  tp_taken :: "'t list"
  tp_finished :: "'t list"

definition new_pool :: "nat \<Rightarrow> 't pool" where
  "new_pool threadCount = \<lparr>tp_threadCount = threadCount, tp_workers = [], tp_tasks = [], tp_running = False, tp_stopping = False,
     tp_notifies = 0, tp_stop = Stop_none, tp_accepted = [], tp_taken = [], tp_finished = []\<rparr>"

definition pool_start :: "'t pool \<Rightarrow> 't pool" where
  "pool_start p =
     (if tp_running p then p
      else p\<lparr>tp_running := True, tp_stopping := False, tp_workers := tp_workers p @ replicate (tp_threadCount p) Wk_loop\<rparr>)"

text \<open>One step of \<open>workerLoop\<close> of worker \<open>i\<close>; \<open>None\<close> when it waits or has returned.\<close>

definition worker_step :: "nat \<Rightarrow> 't pool \<Rightarrow> 't pool option" where
  "worker_step i p =
     (if length (tp_workers p) \<le> i then None
      else (case tp_workers p ! i of
          Wk_loop \<Rightarrow>
            (if \<not> tp_stopping p \<and> tp_tasks p = [] then Some (p\<lparr>tp_workers := (tp_workers p)[i := Wk_wait]\<rparr>)
             else if tp_stopping p \<and> tp_tasks p = [] then Some (p\<lparr>tp_workers := (tp_workers p)[i := Wk_exited]\<rparr>)
             else Some (p\<lparr>tp_workers := (tp_workers p)[i := Wk_busy (hd (tp_tasks p))], tp_tasks := tl (tp_tasks p),
                          tp_taken := tp_taken p @ [hd (tp_tasks p)]\<rparr>))
        | Wk_wait \<Rightarrow> None
        | Wk_busy task \<Rightarrow> Some (p\<lparr>tp_workers := (tp_workers p)[i := Wk_loop], tp_finished := tp_finished p @ [task]\<rparr>)
        | Wk_exited \<Rightarrow> None))"

definition submit :: "'t \<Rightarrow> 't pool \<Rightarrow> 't pool" where
  "submit task p =
     (if \<not> tp_running p \<or> tp_stopping p then p
      else p\<lparr>tp_tasks := tp_tasks p @ [task], tp_accepted := tp_accepted p @ [task], tp_notifies := Suc (tp_notifies p)\<rparr>)"

definition wake :: "'t worker \<Rightarrow> 't worker" where
  "wake w = (case w of Wk_wait \<Rightarrow> Wk_loop | _ \<Rightarrow> w)"

definition wake_one :: "nat \<Rightarrow> 't pool \<Rightarrow> 't pool" where
  "wake_one i p = (if i < length (tp_workers p) then p\<lparr>tp_workers := (tp_workers p)[i := wake (tp_workers p ! i)]\<rparr> else p)"

text \<open>\<open>stop\<close>: up to the release of the mutex, the notification, and what follows the joins.\<close>

definition stop_begin :: "'t pool \<Rightarrow> 't pool" where
  "stop_begin p = (if \<not> tp_running p then p else p\<lparr>tp_stopping := True, tp_stop := Stop_flagged\<rparr>)"

definition stop_notify :: "'t pool \<Rightarrow> 't pool" where
  "stop_notify p = p\<lparr>tp_workers := List.map wake (tp_workers p), tp_stop := Stop_joining\<rparr>"

definition all_exited :: "'t pool \<Rightarrow> bool" where
  "all_exited p \<longleftrightarrow> list_all (\<lambda>w. w = Wk_exited) (tp_workers p)"

definition stop_end :: "'t pool \<Rightarrow> 't pool" where
  "stop_end p = p\<lparr>tp_workers := [], tp_running := False, tp_stopping := False, tp_stop := Stop_none\<rparr>"

subsection \<open>Runs\<close>

text \<open>\<open>notify_one\<close> wakes some waiting worker, if there is one. The owner's calls come one after the other.\<close>

inductive pool_step :: "'t pool \<Rightarrow> 't pool \<Rightarrow> bool" where
  pstep_start: "tp_stop p = Stop_none \<Longrightarrow> pool_step p (pool_start p)"
| pstep_worker: "worker_step i p = Some p' \<Longrightarrow> pool_step p p'"
| pstep_submit: "pool_step p (submit task p)"
| pstep_notify: "0 < tp_notifies p \<Longrightarrow>
     (Wk_wait \<in> set (tp_workers p) \<Longrightarrow> i < length (tp_workers p) \<and> tp_workers p ! i = Wk_wait) \<Longrightarrow>
     pool_step p (wake_one i (p\<lparr>tp_notifies := tp_notifies p - 1\<rparr>))"
| pstep_spurious: "pool_step p (wake_one i p)"
| pstep_stop_begin: "tp_stop p = Stop_none \<Longrightarrow> pool_step p (stop_begin p)"
| pstep_stop_notify: "tp_stop p = Stop_flagged \<Longrightarrow> pool_step p (stop_notify p)"
| pstep_stop_end: "tp_stop p = Stop_joining \<Longrightarrow> all_exited p \<Longrightarrow> pool_step p (stop_end p)"

inductive pool_reach :: "'t pool \<Rightarrow> 't pool \<Rightarrow> bool" where
  preach_refl: "pool_reach p p"
| preach_next: "pool_reach p q \<Longrightarrow> pool_step q r \<Longrightarrow> pool_reach p r"

subsection \<open>No task is lost, none waits for a lost wake-up\<close>

definition busy_tasks :: "'t worker list \<Rightarrow> 't multiset" where
  "busy_tasks ws = mset (List.map_filter (\<lambda>w. case w of Wk_busy t \<Rightarrow> Some t | _ \<Rightarrow> None) ws)"

definition awake :: "'t worker \<Rightarrow> bool" where
  "awake w \<longleftrightarrow> (case w of Wk_loop \<Rightarrow> True | Wk_busy _ \<Rightarrow> True | _ \<Rightarrow> False)"

definition pool_inv :: "'t pool \<Rightarrow> bool" where
  "pool_inv p \<longleftrightarrow>
     tp_accepted p = tp_taken p @ tp_tasks p \<and>
     mset (tp_taken p) = mset (tp_finished p) + busy_tasks (tp_workers p) \<and>
     length (tp_workers p) = (if tp_running p then tp_threadCount p else 0) \<and>
     (tp_stopping p \<longleftrightarrow> tp_stop p \<noteq> Stop_none) \<and> (tp_stopping p \<longrightarrow> tp_running p) \<and>
     (tp_stop p = Stop_joining \<longrightarrow> Wk_wait \<notin> set (tp_workers p)) \<and>
     (\<not> tp_stopping p \<longrightarrow> Wk_exited \<notin> set (tp_workers p)) \<and>
     (tp_tasks p \<noteq> [] \<and> Wk_exited \<in> set (tp_workers p) \<longrightarrow> False) \<and>
     (tp_tasks p \<noteq> [] \<and> tp_running p \<and> 0 < tp_threadCount p \<longrightarrow>
        0 < tp_notifies p \<or> tp_stop p = Stop_flagged \<or> list_ex awake (tp_workers p))"

lemma busy_tasks_simps [simp]: "busy_tasks [] = {#}" "busy_tasks (Wk_busy t # ws) = add_mset t (busy_tasks ws)"
  "busy_tasks (Wk_loop # ws) = busy_tasks ws" "busy_tasks (Wk_wait # ws) = busy_tasks ws" "busy_tasks (Wk_exited # ws) = busy_tasks ws"
  "busy_tasks (vs @ ws) = busy_tasks vs + busy_tasks ws"
  by (simp_all add: busy_tasks_def map_filter_def)

text \<open>Replacing one worker.\<close>

lemma busy_update:
  "i < length ws \<Longrightarrow> busy_tasks (ws[i := w]) + busy_tasks [ws ! i] = busy_tasks ws + busy_tasks [w]"
proof (induction ws arbitrary: i)
  case (Cons v ws)
  show ?case
  proof (cases i)
    case (Suc j)
    then show ?thesis using Cons.IH [of j] Cons.prems by (cases v) (simp_all add: ac_simps)
  qed (cases v; cases w; simp)
qed simp

lemma busy_wake: "busy_tasks (List.map wake ws) = busy_tasks ws"
  by (induction ws) (auto simp: wake_def split: worker.splits)

lemma busy_loops: "busy_tasks (replicate n Wk_loop) = {#}"
  by (induction n) simp_all

lemma in_update: "x \<in> set (ws[i := w]) \<Longrightarrow> x = w \<or> x \<in> set ws"
  using set_update_subset_insert [of ws i w] by blast

lemma awake_update: "i < length ws \<Longrightarrow> awake w \<Longrightarrow> list_ex awake (ws[i := w])"
  by (metis list_ex_iff set_update_memI)

lemma awake_kept: "list_ex awake ws \<Longrightarrow> (awake (ws ! i) \<Longrightarrow> awake w) \<Longrightarrow> list_ex awake (ws[i := w])"
proof -
  assume "list_ex awake ws" and k: "awake (ws ! i) \<Longrightarrow> awake w"
  then obtain j where j: "j < length ws" "awake (ws ! j)" by (auto simp: list_ex_length)
  have "awake (ws[i := w] ! j)" using j k by (cases "i = j") simp_all
  then show ?thesis using j by (auto simp: list_ex_length)
qed

lemma pool_inv_worker:
  assumes inv: "pool_inv p" and s: "worker_step i p = Some p'"
  shows "pool_inv p'"
proof -
  have i: "i < length (tp_workers p)" using s by (auto simp: worker_step_def split: if_splits)
  note b = busy_update [OF i]
  show ?thesis
  proof (cases "tp_workers p ! i")
    case Wk_loop
    consider "\<not> tp_stopping p" "tp_tasks p = []" | "tp_stopping p" "tp_tasks p = []" | "tp_tasks p \<noteq> []" by blast
    then show ?thesis
    proof cases
      case 1
      then have "p' = p\<lparr>tp_workers := (tp_workers p)[i := Wk_wait]\<rparr>" using s i Wk_loop by (simp add: worker_step_def)
      then show ?thesis using inv 1 b [of Wk_wait] Wk_loop by (auto simp: pool_inv_def dest: in_update)
    next
      case 2
      then have "p' = p\<lparr>tp_workers := (tp_workers p)[i := Wk_exited]\<rparr>" using s i Wk_loop by (simp add: worker_step_def)
      then show ?thesis using inv 2 b [of Wk_exited] Wk_loop by (auto simp: pool_inv_def dest: in_update)
    next
      case 3
      let ?t = "hd (tp_tasks p)"
      have p': "p' = p\<lparr>tp_workers := (tp_workers p)[i := Wk_busy ?t], tp_tasks := tl (tp_tasks p), tp_taken := tp_taken p @ [?t]\<rparr>"
        using s i Wk_loop 3 by (auto simp: worker_step_def split: if_splits)
      have "list_ex awake ((tp_workers p)[i := Wk_busy ?t])" using i by (intro awake_update) (simp_all add: awake_def)
      then show ?thesis unfolding p' using inv 3 b [of "Wk_busy ?t"] Wk_loop by (auto simp: pool_inv_def dest: in_update)
    qed
  next
    case (Wk_busy t)
    then have p': "p' = p\<lparr>tp_workers := (tp_workers p)[i := Wk_loop], tp_finished := tp_finished p @ [t]\<rparr>"
      using s i by (simp add: worker_step_def)
    have "list_ex awake ((tp_workers p)[i := Wk_loop])" using i by (intro awake_update) (simp_all add: awake_def)
    then show ?thesis unfolding p' using inv b [of Wk_loop] Wk_busy by (auto simp: pool_inv_def dest: in_update)
  qed (use s i in \<open>simp_all add: worker_step_def\<close>)
qed

lemma wake_simps [simp]: "awake (wake w) \<longleftrightarrow> w \<noteq> Wk_exited" "wake w = Wk_exited \<longleftrightarrow> w = Wk_exited" "wake w \<noteq> Wk_wait"
  "busy_tasks [wake w] = busy_tasks [w]"
  by (cases w; simp add: wake_def awake_def)+

lemma wake_sym_simps [simp]: "Wk_exited = wake w \<longleftrightarrow> w = Wk_exited" "Wk_wait \<noteq> wake w" "\<not> awake Wk_exited"
  by (cases w; simp add: wake_def awake_def)+

lemma pool_inv_wake:
  assumes "pool_inv p"
  shows "pool_inv (wake_one i p)"
proof (cases "i < length (tp_workers p)")
  case True
  have "list_ex awake ((tp_workers p)[i := wake (tp_workers p ! i)])" if "list_ex awake (tp_workers p)"
    using that by (rule awake_kept) auto
  moreover have "Wk_wait \<notin> set ((tp_workers p)[i := wake (tp_workers p ! i)])" if "Wk_wait \<notin> set (tp_workers p)"
    using that in_update [of Wk_wait "tp_workers p" i "wake (tp_workers p ! i)"] by (metis wake_simps(3))
  moreover have "Wk_exited \<in> set (tp_workers p)" if "Wk_exited \<in> set ((tp_workers p)[i := wake (tp_workers p ! i)])"
    using that in_update True by (metis nth_mem wake_simps(2))
  ultimately show ?thesis using assms True busy_update [OF True, of "wake (tp_workers p ! i)"]
    by (auto simp: pool_inv_def wake_one_def)
qed (use assms in \<open>simp add: wake_one_def\<close>)

lemma pool_inv_notify:
  assumes inv: "pool_inv p" and n: "0 < tp_notifies p"
    and i: "Wk_wait \<in> set (tp_workers p) \<Longrightarrow> i < length (tp_workers p) \<and> tp_workers p ! i = Wk_wait"
  shows "pool_inv (wake_one i (p\<lparr>tp_notifies := tp_notifies p - 1\<rparr>))"
proof (cases "Wk_wait \<in> set (tp_workers p)")
  case True
  then have w: "i < length (tp_workers p)" "tp_workers p ! i = Wk_wait" using i by simp_all
  let ?q = "wake_one i p"
  have "list_ex awake (tp_workers ?q)" using w by (simp add: wake_one_def awake_update)
  then show ?thesis using pool_inv_wake [OF inv, of i] w by (simp add: pool_inv_def wake_one_def)
next
  case False
  have "list_ex awake (tp_workers p)" if "tp_tasks p \<noteq> []" "tp_running p" "0 < tp_threadCount p"
  proof -
    have "tp_workers p \<noteq> []" "Wk_exited \<notin> set (tp_workers p)" using inv that by (auto simp: pool_inv_def)
    then have "hd (tp_workers p) \<in> set (tp_workers p)" "awake (hd (tp_workers p))"
      using False by (auto simp: awake_def split: worker.splits) (metis hd_in_set)+
    then show ?thesis by (auto simp: list_ex_iff)
  qed
  then have "pool_inv (p\<lparr>tp_notifies := tp_notifies p - 1\<rparr>)" using inv by (auto simp: pool_inv_def)
  then show ?thesis by (rule pool_inv_wake)
qed

lemma pool_inv_stop_notify:
  assumes inv: "pool_inv p" and f: "tp_stop p = Stop_flagged"
  shows "pool_inv (stop_notify p)"
proof -
  have "list_ex awake (List.map wake (tp_workers p))" if "tp_tasks p \<noteq> []" "0 < tp_threadCount p"
  proof -
    have "tp_workers p \<noteq> []" "Wk_exited \<notin> set (tp_workers p)" using inv that f by (auto simp: pool_inv_def)
    then show ?thesis by (cases "tp_workers p") (auto simp: list_ex_iff)
  qed
  then show ?thesis using inv f by (auto simp: pool_inv_def stop_notify_def busy_wake)
qed

lemma all_exited_busy: "list_all (\<lambda>w. w = Wk_exited) ws \<Longrightarrow> busy_tasks ws = {#}"
  by (induction ws) auto

lemma pool_inv_step: "pool_step p q \<Longrightarrow> pool_inv p \<Longrightarrow> pool_inv q"
proof (induction rule: pool_step.induct)
  case (pstep_start p)
  then show ?case
    by (cases "tp_threadCount p") (auto simp: pool_inv_def pool_start_def busy_loops awake_def)
next
  case (pstep_submit task p)
  then show ?case by (auto simp: pool_inv_def submit_def)
next
  case (pstep_stop_begin p)
  then show ?case by (auto simp: pool_inv_def stop_begin_def)
next
  case (pstep_stop_end p)
  then show ?case using all_exited_busy [of "tp_workers p"] by (auto simp: pool_inv_def stop_end_def all_exited_def)
next
  case (pstep_notify p i)
  then show ?case by (rule_tac pool_inv_notify)
qed (auto intro: pool_inv_worker pool_inv_wake pool_inv_stop_notify)

lemma pool_inv_reach: "pool_reach p q \<Longrightarrow> pool_inv p \<Longrightarrow> pool_inv q"
  by (induction rule: pool_reach.induct) (auto intro: pool_inv_step)

lemma pool_inv_new: "pool_inv (new_pool n)"
  by (simp add: pool_inv_def new_pool_def)

subsection \<open>Stopping\<close>

text \<open>A schedule of worker steps, and how many steps can be left to the workers once the pool is stopping.\<close>

fun run_workers :: "nat list \<Rightarrow> 't pool \<Rightarrow> 't pool option" where
  "run_workers [] p = Some p"
| "run_workers (i # is) p = (case worker_step i p of None \<Rightarrow> None | Some q \<Rightarrow> run_workers is q)"

fun worker_work :: "'t worker \<Rightarrow> nat" where
  "worker_work Wk_loop = 1"
| "worker_work Wk_wait = 0"
| "worker_work (Wk_busy _) = 2"
| "worker_work Wk_exited = 0"

definition stop_work :: "'t pool \<Rightarrow> nat" where
  "stop_work p = 2 * length (tp_tasks p) + sum_list (List.map worker_work (tp_workers p))"

lemma work_update: "i < length ws \<Longrightarrow>
  sum_list (List.map worker_work (ws[i := w])) + worker_work (ws ! i) = sum_list (List.map worker_work ws) + worker_work w"
  by (induction ws arbitrary: i) (auto split: nat.splits simp: less_Suc_eq_0_disj)

text \<open>A worker that steps while the pool stops uses one unit of the work left, and keeps what the owner sees.\<close>

lemma worker_step_stopping:
  assumes s: "worker_step i p = Some q" and st: "tp_stopping p"
  shows "Suc (stop_work q) = stop_work p" and "tp_stop q = tp_stop p" and "tp_stopping q"
    and "tp_accepted q = tp_accepted p" and "length (tp_workers q) = length (tp_workers p)"
proof -
  have i: "i < length (tp_workers p)" using s by (auto simp: worker_step_def split: if_splits)
  show "Suc (stop_work q) = stop_work p"
  proof (cases "tp_workers p ! i")
    case Wk_loop
    then show ?thesis using s i st work_update [OF i, of Wk_exited] work_update [OF i, of "Wk_busy (hd (tp_tasks p))"]
      by (cases "tp_tasks p") (auto simp: worker_step_def stop_work_def)
  next
    case (Wk_busy t)
    then show ?thesis using s i work_update [OF i, of Wk_loop] by (auto simp: worker_step_def stop_work_def)
  qed (use s i in \<open>simp_all add: worker_step_def\<close>)
  show "tp_stop q = tp_stop p" "tp_stopping q" "tp_accepted q = tp_accepted p" "length (tp_workers q) = length (tp_workers p)"
    using s st by (auto simp: worker_step_def split: if_splits worker.splits)
qed

lemma run_workers_stopping:
  "run_workers is p = Some q \<Longrightarrow> pool_inv p \<Longrightarrow> tp_stopping p \<Longrightarrow>
     pool_inv q \<and> length is + stop_work q = stop_work p \<and> tp_stop q = tp_stop p \<and> tp_stopping q \<and>
     tp_accepted q = tp_accepted p \<and> length (tp_workers q) = length (tp_workers p)"
proof (induction "is" arbitrary: p)
  case (Cons i "is")
  then obtain r where r: "worker_step i p = Some r" "run_workers is r = Some q" by (auto split: option.splits)
  note w = worker_step_stopping [OF r(1) Cons.prems(3)]
  show ?case using Cons.IH [OF r(2) pool_inv_worker [OF Cons.prems(2) r(1)] w(3)] w by simp
qed simp

lemma threadCount_reach: "pool_reach p q \<Longrightarrow> tp_threadCount q = tp_threadCount p"
proof (induction rule: pool_reach.induct)
  case (preach_next p q r)
  from preach_next(2) have "tp_threadCount r = tp_threadCount q"
    by cases (auto simp: pool_start_def worker_step_def submit_def wake_one_def stop_begin_def stop_notify_def stop_end_def
        split: if_splits worker.splits)
  then show ?case using preach_next by simp
qed simp

lemma joining_progress:
  assumes "pool_inv p" "tp_stop p = Stop_joining" "\<not> all_exited p"
  shows "\<exists>i. worker_step i p \<noteq> None"
proof -
  obtain i where i: "i < length (tp_workers p)" "tp_workers p ! i \<noteq> Wk_exited"
    using assms(3) by (auto simp: all_exited_def list_all_length)
  moreover have "Wk_wait \<notin> set (tp_workers p)" using assms(1,2) by (simp add: pool_inv_def)
  then have "tp_workers p ! i \<noteq> Wk_wait" using i by (metis nth_mem)
  ultimately have "worker_step i p \<noteq> None" by (auto simp: worker_step_def split: worker.splits)
  then show ?thesis by blast
qed

lemma joined_tasks_done:
  assumes inv: "pool_inv p" and x: "all_exited p" and ne: "tp_workers p \<noteq> []"
  shows "tp_tasks p = []" and "tp_taken p = tp_accepted p" and "mset (tp_finished p) = mset (tp_accepted p)"
proof -
  have "Wk_exited \<in> set (tp_workers p)" using x ne by (cases "tp_workers p") (auto simp: all_exited_def)
  then show e: "tp_tasks p = []" using inv by (auto simp: pool_inv_def)
  then show t: "tp_taken p = tp_accepted p" using inv by (simp add: pool_inv_def)
  show "mset (tp_finished p) = mset (tp_accepted p)"
    using inv x t all_exited_busy [of "tp_workers p"] by (simp add: pool_inv_def all_exited_def)
qed

text \<open>C11. \<open>stop\<close> returns, and no accepted task is lost. However the pool came to the joins, every schedule of its workers is
  bounded by \<open>stop_work\<close>; as long as a worker has not returned, one can step (none sleeps through the shutdown); and when all
  have, the queue is empty, the tasks were taken in the order of their submission, and each has been executed once.\<close>

theorem pool_stop_completes:
  assumes "pool_reach (new_pool n) p" and "0 < n" and "tp_stop p = Stop_joining" and "run_workers is p = Some q"
  shows "length is \<le> stop_work p \<and>
    (if all_exited q then tp_tasks q = [] \<and> tp_taken q = tp_accepted p \<and> mset (tp_finished q) = mset (tp_accepted p)
     else \<exists>i. worker_step i q \<noteq> None)"
proof -
  have inv: "pool_inv p" using assms(1) pool_inv_new by (rule pool_inv_reach)
  then have st: "tp_stopping p" "tp_running p" using assms(3) by (auto simp: pool_inv_def)
  note r = run_workers_stopping [OF assms(4) inv st(1)]
  have "length is \<le> stop_work p" using r by simp
  moreover have "\<exists>i. worker_step i q \<noteq> None" if "\<not> all_exited q" using r assms(3) joining_progress that by metis
  moreover have "length (tp_workers p) = n" using inv st threadCount_reach [OF assms(1)] by (simp add: pool_inv_def new_pool_def)
  then have "tp_workers q \<noteq> []" using r assms(2) by auto
  then have "tp_tasks q = [] \<and> tp_taken q = tp_accepted p \<and> mset (tp_finished q) = mset (tp_accepted p)" if "all_exited q"
    using joined_tasks_done [of q] r that by simp
  ultimately show ?thesis by simp
qed

text \<open>Two workers, three tasks: one runs, one waits for the second, \<open>stop\<close> is called with two tasks queued.\<close>

definition pool_example :: "nat pool" where
  "pool_example = (let p = pool_start (new_pool 2);
     p = submit 30 (submit 20 (submit 10 (the (worker_step 1 p))));
     p = the (worker_step 0 p)
     in stop_notify (stop_begin p))"

lemma pool_example_reach: "pool_reach (new_pool 2) pool_example"
proof -
  let ?a = "pool_start (new_pool 2) :: nat pool"
  let ?b = "the (worker_step 1 ?a)"
  let ?c = "submit 30 (submit 20 (submit 10 ?b))"
  let ?d = "the (worker_step 0 ?c)"
  have "pool_reach (new_pool 2) ?a"
    by (rule preach_next [OF preach_refl pstep_start]) (simp add: new_pool_def)
  then have "pool_reach (new_pool 2) ?b"
    by (rule preach_next [OF _ pstep_worker [of 1]]) code_simp
  then have "pool_reach (new_pool 2) ?c" by (intro preach_next [OF _ pstep_submit])
  then have "pool_reach (new_pool 2) ?d"
    by (rule preach_next [OF _ pstep_worker [of 0]]) code_simp
  then have "pool_reach (new_pool 2) (stop_begin ?d)" by (rule preach_next [OF _ pstep_stop_begin]) code_simp
  then have "pool_reach (new_pool 2) (stop_notify (stop_begin ?d))" by (rule preach_next [OF _ pstep_stop_notify]) code_simp
  then show ?thesis by (simp only: pool_example_def Let_def)
qed

theorem pool_stop_completes_witness:
  "tp_stop pool_example = Stop_joining \<and> tp_tasks pool_example = [20, 30] \<and>
   (\<exists>q. run_workers [0, 1, 0, 1, 0, 1, 0] pool_example = Some q \<and> all_exited q \<and> tp_tasks q = [] \<and>
        tp_taken q = [10, 20, 30] \<and> mset (tp_finished q) = mset [10, 20, 30])"
proof -
  have s: "tp_stop pool_example = Stop_joining" "tp_tasks pool_example = [20, 30]" "tp_accepted pool_example = [10, 20, 30]"
    by code_simp+
  have "run_workers [0, 1, 0, 1, 0, 1, 0] pool_example \<noteq> None" by code_simp
  then obtain q where q: "run_workers [0, 1, 0, 1, 0, 1, 0] pool_example = Some q" by blast
  have "all_exited (the (run_workers [0, 1, 0, 1, 0, 1, 0] pool_example))" by code_simp
  then have x: "all_exited q" using q by simp
  show ?thesis using pool_stop_completes [OF pool_example_reach _ s(1) q] s q x by auto
qed

end
