(* ===== verification/Binary64.thy ===== *)
theory Binary64
  imports Prelude Complex_Main "HOL-Library.Log_Nat"
begin

section \<open>Arithmetic of \<open>double\<close>\<close>

text \<open>
  The rounding of IEEE 754 binary64 (to nearest, ties to even) on exact rationals: every operation of C++ on \<open>double\<close>s
  returns \<open>to_double\<close> of the exact result. The exponent range is not bounded here: the values the program computes this
  way (counters of 64 bits, their ratios and percentages) are zero or between \<open>2^-64\<close> and \<open>2^71\<close>. The facts used are
  that rounding is monotone and exact on integers of up to 53 bits.
\<close>

text \<open>The largest power of two not above a positive number.\<close>

definition dexp :: "rat \<Rightarrow> int" where
  "dexp x = (let (n, d) = quotient_of x; k = int (floorlog 2 (nat n)) - int (floorlog 2 (nat d))
             in if x < 2 powi k then k - 1 else k)"

definition round_even :: "rat \<Rightarrow> int" where
  "round_even x = (let f = \<lfloor>x\<rfloor>; r = x - of_int f in
     if r < 1 / 2 then f else if r > 1 / 2 then f + 1 else if even f then f else f + 1)"

definition round_pos :: "rat \<Rightarrow> rat" where
  "round_pos x = (let u = 2 powi (dexp x - 52) in of_int (round_even (x / u)) * u)"

definition to_double :: "rat \<Rightarrow> rat" where
  "to_double x = (if x = 0 then 0 else if 0 < x then round_pos x else - round_pos (- x))"

lemma powi_pos [simp]: "0 < (2 powi k :: rat)"
  by (rule zero_less_power_int) simp

lemma powi_Suc: "2 powi (k + 1) = 2 * (2 powi k :: rat)"
  by (simp add: power_int_add)

lemma dexp_bounds:
  assumes "0 < x"
  shows "2 powi (dexp x) \<le> x" and "x < 2 powi (dexp x + 1)"
proof -
  obtain n d where q: "quotient_of x = (n, d)" by fastforce
  have d: "0 < d" using q by (rule quotient_of_denom_pos)
  have x: "x = of_int n / of_int d" using q by (rule quotient_of_div)
  have n: "0 < n" using assms d by (simp add: x zero_less_divide_iff)
  let ?a = "floorlog 2 (nat n)" and ?b = "floorlog 2 (nat d)"
  let ?k = "int ?a - int ?b"
  have b: "2 ^ (?a - 1) \<le> nat n" "nat n < 2 ^ ?a" "2 ^ (?b - 1) \<le> nat d" "nat d < 2 ^ ?b"
    using n d floorlog_bounds [of "nat n" 2] floorlog_bounds [of "nat d" 2] by simp_all
  have ab: "?a > 0" "?b > 0" using n d by (auto simp: floorlog_def)
  have ib: "2 ^ (?a - 1) \<le> n" "n < 2 ^ ?a" "2 ^ (?b - 1) \<le> d" "d < 2 ^ ?b"
    using b n d by (simp_all add: le_nat_iff nat_less_iff)
  have r: "2 ^ (?a - 1) \<le> (of_int n :: rat)" "(of_int n :: rat) < 2 ^ ?a" "2 ^ (?b - 1) \<le> (of_int d :: rat)" "(of_int d :: rat) < 2 ^ ?b"
    using ib by (simp_all add: of_int_le_iff [of "2 ^ _", symmetric] flip: of_int_power_le_of_int_cancel_iff)
  have ra: "(2 :: rat) ^ ?a = 2 * 2 ^ (?a - 1)" "(2 :: rat) ^ ?b = 2 * 2 ^ (?b - 1)" using ab by (simp_all flip: power_Suc)
  have k: "(2 powi ?k :: rat) = 2 ^ ?a / 2 ^ ?b" by (simp add: power_int_diff)
  have lo: "2 powi (?k - 1) \<le> x"
  proof -
    have "(2 powi (?k - 1) :: rat) = 2 ^ (?a - 1) / 2 ^ ?b" using k ra by (simp add: power_int_diff)
    also have "\<dots> \<le> of_int n / of_int d" using r d n by (intro frac_le) simp_all
    finally show ?thesis by (simp add: x)
  qed
  have hi: "x < 2 powi (?k + 1)"
  proof -
    have "of_int n / of_int d < (2 :: rat) ^ ?a / 2 ^ (?b - 1)" using r d n by (intro frac_less) simp_all
    also have "\<dots> = 2 powi (?k + 1)" using k ra by (simp add: power_int_add)
    finally show ?thesis by (simp add: x)
  qed
  have e: "dexp x = (if x < 2 powi ?k then ?k - 1 else ?k)" by (simp add: dexp_def q Let_def)
  show "2 powi (dexp x) \<le> x" using lo by (simp add: e)
  show "x < 2 powi (dexp x + 1)" using hi by (simp add: e)
qed

lemma round_even_mono: "x \<le> y \<Longrightarrow> round_even x \<le> round_even y"
proof -
  assume xy: "x \<le> y"
  then have f: "\<lfloor>x\<rfloor> \<le> \<lfloor>y\<rfloor>" by (rule floor_mono)
  have s: "\<lfloor>z\<rfloor> \<le> round_even z" "round_even z \<le> \<lfloor>z\<rfloor> + 1" for z by (simp_all add: round_even_def Let_def)
  show ?thesis
  proof (cases "\<lfloor>x\<rfloor> = \<lfloor>y\<rfloor>")
    case True
    then show ?thesis using xy by (auto simp: round_even_def Let_def)
  next
    case False
    then show ?thesis using f s(2) [of x] s(1) [of y] by linarith
  qed
qed

lemma round_even_of_int [simp]: "round_even (of_int m) = m"
  by (simp add: round_even_def)

lemma dexp_mono: "0 < x \<Longrightarrow> x \<le> y \<Longrightarrow> dexp x \<le> dexp y"
proof (rule ccontr)
  assume a: "0 < x" "x \<le> y" "\<not> dexp x \<le> dexp y"
  then have "(2 powi (dexp y + 1) :: rat) \<le> 2 powi (dexp x)" by (intro power_int_increasing) simp_all
  then show False using a dexp_bounds(1) [of x] dexp_bounds(2) [of y] by simp
qed

text \<open>A rounded number has a significand of 53 bits, the least or one above the greatest included.\<close>

lemma significand:
  assumes "0 < x"
  shows "2 ^ 52 \<le> round_even (x / 2 powi (dexp x - 52))" and "round_even (x / 2 powi (dexp x - 52)) \<le> 2 ^ 53"
proof -
  let ?u = "2 powi (dexp x - 52) :: rat"
  have u: "2 powi (dexp x) = 2 ^ 52 * ?u" "2 powi (dexp x + 1) = 2 ^ 53 * ?u" by (simp_all add: power_int_diff power_int_add)
  have "of_int (2 ^ 52) \<le> x / ?u" "x / ?u \<le> of_int (2 ^ 53)"
    using dexp_bounds [OF assms] u by (simp_all add: pos_le_divide_eq pos_divide_le_eq)
  from this [THEN round_even_mono] show "2 ^ 52 \<le> round_even (x / ?u)" "round_even (x / ?u) \<le> 2 ^ 53" by (simp_all only: round_even_of_int)
qed

lemma round_pos_mono:
  assumes "0 < x" and "x \<le> y"
  shows "round_pos x \<le> round_pos y"
proof (cases "dexp x = dexp y")
  case True
  have "round_even (x / 2 powi (dexp y - 52)) \<le> round_even (y / 2 powi (dexp y - 52))"
    using assms by (intro round_even_mono divide_right_mono) simp_all
  then show ?thesis using True by (simp add: round_pos_def Let_def)
next
  case False
  then have l: "dexp x + 1 \<le> dexp y" using dexp_mono [OF assms] by simp
  have y: "0 < y" using assms by simp
  let ?u = "2 powi (dexp x - 52) :: rat" and ?v = "2 powi (dexp y - 52) :: rat"
  have "round_pos x \<le> of_int (2 ^ 53) * ?u" unfolding round_pos_def Let_def
    using significand(2) [OF assms(1)] by (intro mult_right_mono) (simp_all only: of_int_le_iff, simp)
  also have "\<dots> = of_int (2 ^ 52) * 2 powi (dexp x - 52 + 1)" by (simp only: powi_Suc) simp
  also have "\<dots> \<le> of_int (2 ^ 52) * ?v" using l by (intro mult_left_mono power_int_increasing) simp_all
  also have "\<dots> \<le> round_pos y" unfolding round_pos_def Let_def
    using significand(1) [OF y] by (intro mult_right_mono) (simp_all only: of_int_le_iff, simp)
  finally show ?thesis .
qed

lemma round_pos_nonneg: "0 < x \<Longrightarrow> 0 \<le> round_pos x"
  using significand(1) [of x] by (auto simp: round_pos_def Let_def intro!: mult_nonneg_nonneg)

lemma to_double_nonneg: "0 \<le> x \<Longrightarrow> 0 \<le> to_double x"
  by (simp add: to_double_def round_pos_nonneg)

lemma to_double_mono: "0 \<le> x \<Longrightarrow> x \<le> y \<Longrightarrow> to_double x \<le> to_double y"
  using round_pos_mono [of x y] round_pos_nonneg [of y] by (auto simp: to_double_def)

lemma to_double_0 [simp]: "to_double 0 = 0"
  by (simp add: to_double_def)

text \<open>An integer of up to 53 bits is a \<open>double\<close>.\<close>

lemma to_double_nat: "n \<le> 2 ^ 53 \<Longrightarrow> to_double (of_nat n) = of_nat n"
proof (cases "n = 0")
  case False
  assume n: "n \<le> 2 ^ 53"
  let ?x = "of_nat n :: rat"
  have x: "0 < ?x" using False by simp
  consider "dexp ?x \<le> 52" | "53 \<le> dexp ?x" by linarith
  then have "round_pos ?x = ?x"
  proof cases
    case 1
    then obtain j where j: "dexp ?x - 52 = - int j" by (metis add.inverse_inverse diff_le_0_iff_le neg_0_le_iff_le nonneg_int_cases)
    have "?x / 2 powi (- int j) = of_int (int n * 2 ^ j)" by (simp add: power_int_minus divide_inverse)
    then have "round_even (?x / 2 powi (- int j)) = int n * 2 ^ j" by (simp only: round_even_of_int)
    then show ?thesis by (simp add: round_pos_def j Let_def power_int_minus)
  next
    case 2
    have "(2 powi 53 :: rat) \<le> 2 powi (dexp ?x)" using 2 by (intro power_int_increasing) simp_all
    then have "2 ^ 53 \<le> ?x" using dexp_bounds(1) [OF x] by simp
    moreover have "?x \<le> 2 ^ 53" using n by (metis of_nat_le_iff of_nat_numeral of_nat_power)
    ultimately have e: "?x = 2 ^ 53" by simp
    have "dexp ?x < 54"
    proof (rule ccontr)
      assume "\<not> dexp ?x < 54"
      then have "(2 powi 54 :: rat) \<le> 2 powi (dexp ?x)" by (intro power_int_increasing) simp_all
      then show False using dexp_bounds(1) [OF x] e by simp
    qed
    then have "dexp ?x = 53" using 2 by simp
    then have "round_pos ?x = of_int (round_even (2 ^ 53 / 2)) * 2" by (simp add: round_pos_def e Let_def)
    moreover have "(2 ^ 53 / 2 :: rat) = of_int (2 ^ 52)" by simp
    then have "round_even (2 ^ 53 / 2) = 2 ^ 52" by (simp only: round_even_of_int)
    ultimately show ?thesis by (simp add: e)
  qed
  then show ?thesis using x by (simp add: to_double_def)
qed simp

end
