(* ===== verification/System_Monitor.thy ===== *)
theory System_Monitor
  imports Std_Text Binary64 "HOL-Library.List_Lexorder" "HOL-Library.Char_ord"
begin

section \<open>The system monitor\<close>

text \<open>
  \<open>src/system_monitor.cpp\<close>. The files under \<open>/proc\<close> and \<open>/sys\<close> are arguments: their text, or \<open>None\<close> when the file cannot
  be opened; the thermal directory is the list of its entries with the texts of their \<open>temp\<close> and \<open>type\<close> files. The counters
  are 64-bit words, \<open>double\<close> results are rounded as \<open>Binary64\<close> says. Stream extraction of integers reads what
  \<open>scan_int\<close> reads and fails on overflow.
\<close>

subsection \<open>Streams\<close>

text \<open>\<open>>>\<close> into a \<open>std::string\<close>, a \<open>std::uint64_t\<close> and a \<open>long long\<close>.\<close>

definition read_word :: "string \<Rightarrow> (string \<times> string) option" where
  "read_word s = (let t = dropWhile isspace s; w = takeWhile (\<lambda>c. \<not> isspace c) t
                  in if w = [] then None else Some (w, dropWhile (\<lambda>c. \<not> isspace c) t))"

definition read_u64 :: "string \<Rightarrow> (u64 \<times> string) option" where
  "read_u64 s = (case scan_int s of None \<Rightarrow> None | Some i \<Rightarrow> if \<bar>i\<bar> < 2 ^ 64 then Some (word_of_int i, scan_rest s) else None)"

definition read_i64 :: "string \<Rightarrow> int option" where
  "read_i64 s = stoll s"

text \<open>\<open>while (parser >> counter) counters.push_back(counter)\<close>.\<close>

function read_counters :: "string \<Rightarrow> u64 list" where
  "read_counters s = (case read_u64 s of None \<Rightarrow> [] | Some (v, r) \<Rightarrow> v # read_counters r)"
  by pat_completeness auto
termination
  by (relation "measure length") (auto simp: read_u64_def scan_rest_shorter split: option.splits if_splits)

declare read_counters.simps [simp del]

subsection \<open>CPU\<close>

record cpu_times =
  ct_total :: u64
  ct_idle :: u64

record system_monitor =
  sm_hasPrevious :: bool
  sm_previous :: cpu_times

definition new_monitor :: system_monitor where
  "new_monitor = \<lparr>sm_hasPrevious = False, sm_previous = \<lparr>ct_total = 0, ct_idle = 0\<rparr>\<rparr>"

text \<open>The sum loop; \<open>None\<close> where the code returns false rather than overflow.\<close>

fun add_counters :: "u64 \<Rightarrow> u64 list \<Rightarrow> u64 option" where
  "add_counters tot [] = Some tot"
| "add_counters tot (c # cs) = (if tot > - 1 - c then None else add_counters (tot + c) cs)"

definition parse_cpu :: "string \<Rightarrow> cpu_times option" where
  "parse_cpu line =
     (case read_word line of None \<Rightarrow> None
      | Some (label, rest) \<Rightarrow>
          (if label \<noteq> ''cpu'' then None
           else let counters = read_counters rest in
             if length counters < 4 then None
             else (case add_counters 0 (take (min 8 (length counters)) counters) of None \<Rightarrow> None
               | Some tot \<Rightarrow>
                   (let idle = counters ! 3 in
                    if length counters > 4
                    then (if idle > - 1 - counters ! 4 then None else Some \<lparr>ct_total = tot, ct_idle = idle + counters ! 4\<rparr>)
                    else Some \<lparr>ct_total = tot, ct_idle = idle\<rparr>))))"

abbreviation dbl :: "u64 \<Rightarrow> rat" where
  "dbl w \<equiv> to_double (of_nat (unat w))"

definition percentage :: "u64 \<Rightarrow> u64 \<Rightarrow> rat" where
  "percentage part whole = to_double (to_double (dbl part * 100) / dbl whole)"

text \<open>The result is \<open>None\<close> where the code returns false, else \<open>usageAvailable\<close> and \<open>usagePercent\<close>.\<close>

definition cpu_usage :: "cpu_times \<Rightarrow> system_monitor \<Rightarrow> bool \<times> rat" where
  "cpu_usage cur m =
     (let prev = sm_previous m in
      if sm_hasPrevious m \<and> ct_total cur \<ge> ct_total prev \<and> ct_idle cur \<ge> ct_idle prev
      then (let totalDelta = ct_total cur - ct_total prev; idleDelta = ct_idle cur - ct_idle prev in
            if totalDelta > 0 \<and> idleDelta \<le> totalDelta then (True, percentage (totalDelta - idleDelta) totalDelta)
            else (False, 0))
      else (False, 0))"

definition sampleCpu :: "string option \<Rightarrow> system_monitor \<Rightarrow> (bool \<times> rat) option \<times> system_monitor" where
  "sampleCpu procStat m =
     (case procStat of None \<Rightarrow> (None, m)
      | Some text \<Rightarrow>
          (case first_line text of None \<Rightarrow> (None, m)
           | Some line \<Rightarrow>
               (case parse_cpu line of None \<Rightarrow> (None, m)
                | Some cur \<Rightarrow> (Some (cpu_usage cur m), m\<lparr>sm_hasPrevious := True, sm_previous := cur\<rparr>))))"

subsection \<open>Memory\<close>

record thermal_reading =
  tr_zone :: string
  tr_type :: string
  tr_celsius :: rat

record system_metrics =
  sy_timestamp :: wall_time
  sy_cpuUsageAvailable :: bool
  sy_cpuUsagePercent :: rat
  sy_memoryTotalBytes :: u64
  sy_memoryAvailableBytes :: u64
  sy_memoryUsedBytes :: u64
  sy_memoryUsagePercent :: rat
  sy_temperatures :: "thermal_reading list"

definition new_metrics :: system_metrics where
  "new_metrics = \<lparr>sy_timestamp = 0, sy_cpuUsageAvailable = False, sy_cpuUsagePercent = 0, sy_memoryTotalBytes = 0,
     sy_memoryAvailableBytes = 0, sy_memoryUsedBytes = 0, sy_memoryUsagePercent = 0, sy_temperatures = []\<rparr>"

definition kibibytesToBytes :: "u64 \<Rightarrow> u64 option" where
  "kibibytesToBytes kibibytes = (if kibibytes > (- 1) div 1024 then None else Some (kibibytes * 1024))"

record meminfo =
  mi_totalKib :: u64
  mi_availableKib :: u64
  mi_freeKib :: u64
  mi_buffersKib :: u64
  mi_cachedKib :: u64
  mi_hasAvailable :: bool

definition no_meminfo :: meminfo where
  "no_meminfo = \<lparr>mi_totalKib = 0, mi_availableKib = 0, mi_freeKib = 0, mi_buffersKib = 0, mi_cachedKib = 0, mi_hasAvailable = False\<rparr>"

text \<open>\<open>parser >> key >> value >> unit\<close>, and one round of the loop.\<close>

definition read_entry :: "string \<Rightarrow> (string \<times> u64 \<times> string) option" where
  "read_entry line = do {
     (key, r) \<leftarrow> read_word line;
     (val, r) \<leftarrow> read_u64 r;
     (unit, r) \<leftarrow> read_word r;
     Some (key, val, unit) }"

definition set_field :: "string \<Rightarrow> u64 \<Rightarrow> meminfo \<Rightarrow> meminfo" where
  "set_field key v mi =
     (if key = ''MemTotal:'' then mi\<lparr>mi_totalKib := v\<rparr>
      else if key = ''MemAvailable:'' then mi\<lparr>mi_availableKib := v, mi_hasAvailable := True\<rparr>
      else if key = ''MemFree:'' then mi\<lparr>mi_freeKib := v\<rparr>
      else if key = ''Buffers:'' then mi\<lparr>mi_buffersKib := v\<rparr>
      else if key = ''Cached:'' then mi\<lparr>mi_cachedKib := v\<rparr>
      else mi)"

definition meminfo_line :: "string \<Rightarrow> meminfo \<Rightarrow> meminfo" where
  "meminfo_line line mi =
     (case read_entry line of None \<Rightarrow> mi
      | Some (key, v, unit) \<Rightarrow> if unit \<noteq> ''kB'' then mi else set_field key v mi)"

definition parse_meminfo :: "string \<Rightarrow> meminfo" where
  "parse_meminfo text = fold meminfo_line (getlines text) no_meminfo"

text \<open>What follows the loop: \<open>None\<close> where the code returns false.\<close>

definition available_kib :: "meminfo \<Rightarrow> u64 option" where
  "available_kib mi =
     (if mi_hasAvailable mi then Some (min (mi_availableKib mi) (mi_totalKib mi))
      else if mi_freeKib mi > - 1 - mi_buffersKib mi \<or> mi_freeKib mi + mi_buffersKib mi > - 1 - mi_cachedKib mi then None
      else Some (min (mi_freeKib mi + mi_buffersKib mi + mi_cachedKib mi) (mi_totalKib mi)))"

definition sampleMemory :: "string option \<Rightarrow> system_metrics \<Rightarrow> system_metrics option" where
  "sampleMemory procMeminfo metrics =
     (case procMeminfo of None \<Rightarrow> None
      | Some text \<Rightarrow>
          (let mi = parse_meminfo text in
           if mi_totalKib mi = 0 then None
           else do {
             available \<leftarrow> available_kib mi;
             totalBytes \<leftarrow> kibibytesToBytes (mi_totalKib mi);
             availableBytes \<leftarrow> kibibytesToBytes available;
             let used = totalBytes - availableBytes;
             Some (metrics\<lparr>sy_memoryTotalBytes := totalBytes, sy_memoryAvailableBytes := availableBytes,
                     sy_memoryUsedBytes := used, sy_memoryUsagePercent := percentage used totalBytes\<rparr>) }))"

subsection \<open>Temperatures and the whole sample\<close>

definition trimLineEnding :: "string \<Rightarrow> string" where
  "trimLineEnding text = rev (dropWhile (\<lambda>c. c = CHR ''\<newline>'' \<or> c = CHR 0x0D) (rev text))"

text \<open>A directory entry: its name, and the texts of its \<open>temp\<close> and \<open>type\<close> files.\<close>

type_synonym thermal_entry = "string \<times> string option \<times> string option"

definition read_zone :: "thermal_entry \<Rightarrow> thermal_reading option" where
  "read_zone e = (case e of (zone, temp, typ) \<Rightarrow>
     (if take 12 zone \<noteq> ''thermal_zone'' then None
      else (case Option.bind temp read_i64 of None \<Rightarrow> None
        | Some millidegrees \<Rightarrow>
            (let t = trimLineEnding (case Option.bind typ first_line of None \<Rightarrow> [] | Some l \<Rightarrow> l) in
             Some \<lparr>tr_zone = zone, tr_type = (if t = [] then zone else t),
                   tr_celsius = to_double (to_double (of_int millidegrees) / 1000)\<rparr>))))"

definition sampleTemperatures :: "thermal_entry list option \<Rightarrow> thermal_reading list" where
  "sampleTemperatures thermalRoot =
     (case thermalRoot of None \<Rightarrow> []
      | Some entries \<Rightarrow> sort_key tr_zone (List.map_filter read_zone entries))"

text \<open>One call of \<open>sample\<close>; the monitor keeps the CPU counters also when the memory cannot be read.\<close>

definition sample :: "string option \<Rightarrow> string option \<Rightarrow> thermal_entry list option \<Rightarrow> wall_time \<Rightarrow>
    system_monitor \<Rightarrow> system_metrics option \<times> system_monitor" where
  "sample procStat procMeminfo thermalRoot now m =
     (case sampleCpu procStat m of
        (None, m') \<Rightarrow> (None, m')
      | (Some (available, percent), m') \<Rightarrow>
          (case sampleMemory procMeminfo (new_metrics\<lparr>sy_cpuUsageAvailable := available, sy_cpuUsagePercent := percent\<rparr>) of
             None \<Rightarrow> (None, m')
           | Some metrics \<Rightarrow> (Some (metrics\<lparr>sy_temperatures := sampleTemperatures thermalRoot, sy_timestamp := now\<rparr>), m')))"

subsection \<open>The CPU usage between two samples\<close>

lemma add_guard: "(a :: u64) > - 1 - b \<longleftrightarrow> 2 ^ 64 \<le> unat a + unat b"
proof -
  have b: "unat b < 2 ^ 64" using unsigned_less [where ?'a = nat, of b] by simp
  have m: "unat (- 1 :: u64) = 2 ^ 64 - 1" by (simp add: unsigned_minus_1_eq_mask mask_eq_exp_minus_1)
  then have "unat (- 1 - b) = 2 ^ 64 - 1 - unat b" using b by (subst unat_sub) (simp_all add: word_le_nat_alt)
  then show ?thesis using b by (auto simp: word_less_nat_alt)
qed

lemma unat_add_no_wrap: "unat (a :: u64) + unat b < 2 ^ 64 \<Longrightarrow> unat (a + b) = unat a + unat b"
  using unat_add_lem [of a b] by simp

lemma add_counters_exact:
  "unat tot + sum_list (List.map unat cs) < 2 ^ 64 \<Longrightarrow>
     \<exists>r. add_counters tot cs = Some r \<and> unat r = unat tot + sum_list (List.map unat cs)"
proof (induction cs arbitrary: tot)
  case (Cons c cs)
  then have g: "unat tot + unat c < 2 ^ 64" by simp
  then have "unat (tot + c) = unat tot + unat c" by (rule unat_add_no_wrap)
  then show ?case using Cons.IH [of "tot + c"] Cons.prems g by (simp add: add_guard add.assoc)
qed simp

lemma percentage_exact:
  assumes "part \<le> whole" and "unat whole * 100 \<le> 2 ^ 53"
  shows "percentage part whole = to_double (of_nat (unat part * 100) / of_nat (unat whole))"
proof -
  have p: "unat part * 100 \<le> 2 ^ 53" using assms by (simp add: word_le_nat_alt)
  have "dbl part = of_nat (unat part)" "dbl whole = of_nat (unat whole)"
    using p assms(2) by (simp_all only: to_double_nat)
  moreover have "to_double (of_nat (unat part) * 100) = of_nat (unat part * 100)"
    using to_double_nat [OF p] by simp
  ultimately show ?thesis by (simp only: percentage_def)
qed

lemma ratio_le_100: "p \<le> w \<Longrightarrow> 0 < w \<Longrightarrow> of_nat (p * 100) / of_nat w \<le> (100 :: rat)"
  by (simp add: pos_divide_le_eq)

lemma ratio_nonneg: "0 \<le> (of_nat p / of_nat w :: rat)"
  by simp

lemma percentage_bounds:
  assumes "part \<le> whole" and "unat whole * 100 \<le> 2 ^ 53" and "0 < whole"
  shows "0 \<le> percentage part whole" and "percentage part whole \<le> 100"
proof -
  have w: "0 < unat whole" using assms(3) by (simp add: word_less_nat_alt)
  show "0 \<le> percentage part whole" using assms by (simp only: percentage_exact) (rule to_double_nonneg, rule ratio_nonneg)
  have "of_nat (unat part * 100) / of_nat (unat whole) \<le> (100 :: rat)"
    using assms(1) w by (intro ratio_le_100) (simp_all only: word_le_nat_alt)
  then have "percentage part whole \<le> to_double 100" using assms(1,2) by (simp only: percentage_exact) (intro to_double_mono ratio_nonneg)
  also have "to_double 100 = 100" using to_double_nat [of 100] by simp
  finally show "percentage part whole \<le> 100" .
qed

text \<open>The aggregate line of \<open>/proc/stat\<close> for given counters, followed by the rest of the file.\<close>

definition stat_fields :: "nat list \<Rightarrow> string" where
  "stat_fields vs = concat (List.map (\<lambda>v. CHR '' '' # dec_digits v) vs)"

definition proc_stat :: "nat list \<Rightarrow> string \<Rightarrow> string" where
  "proc_stat vs rest = ''cpu '' @ stat_fields vs @ CHR ''\<newline>'' # rest"

definition cpu_total :: "nat list \<Rightarrow> nat" where
  "cpu_total vs = sum_list (take 8 vs)"

definition cpu_idle :: "nat list \<Rightarrow> nat" where
  "cpu_idle vs = vs ! 3 + (if 4 < length vs then vs ! 4 else 0)"

definition cpu_ticks :: "nat list \<Rightarrow> nat list \<Rightarrow> nat" where
  "cpu_ticks vs ws = cpu_total ws - cpu_total vs"

definition cpu_busy :: "nat list \<Rightarrow> nat list \<Rightarrow> nat" where
  "cpu_busy vs ws = cpu_ticks vs ws - (cpu_idle ws - cpu_idle vs)"

lemma read_u64_digits:
  "v < 2 ^ 64 \<Longrightarrow> case r of [] \<Rightarrow> True | c # _ \<Rightarrow> \<not> isdigit c \<Longrightarrow> isspace c \<Longrightarrow>
     read_u64 (c # dec_digits v @ r) = Some (word_of_nat v, r)"
  by (simp add: read_u64_def scan_skip_space scan_dec_digits)

lemma read_counters_fields: "\<forall>v \<in> set vs. v < 2 ^ 64 \<Longrightarrow> read_counters (stat_fields vs) = List.map word_of_nat vs"
proof (induction vs)
  case Nil
  show ?case by (subst read_counters.simps) (simp add: stat_fields_def read_u64_def scan_int_def)
next
  case (Cons v vs)
  have "read_u64 (CHR '' '' # dec_digits v @ stat_fields vs) = Some (word_of_nat v, stat_fields vs)"
    using Cons.prems by (intro read_u64_digits) (cases vs; simp add: stat_fields_def isdigit_def isspace_def)+
  then show ?case using Cons by (subst read_counters.simps) (simp add: stat_fields_def)
qed

lemma stat_fields_no_newline: "CHR ''\<newline>'' \<notin> set (stat_fields vs)"
proof -
  have "CHR ''\<newline>'' \<notin> set (dec_digits v)" for v
    using dec_digits_isdigit [of v] by (auto simp: isdigit_def)
  then show ?thesis by (auto simp: stat_fields_def)
qed

lemma first_line_proc_stat: "first_line (proc_stat vs rest) = Some (''cpu '' @ stat_fields vs)"
proof -
  have "takeWhile (\<lambda>c. c \<noteq> CHR ''\<newline>'') (proc_stat vs rest) = ''cpu '' @ stat_fields vs"
    unfolding proc_stat_def using stat_fields_no_newline [of vs]
    by (subst append_assoc [symmetric], subst takeWhile_tail) (auto intro!: takeWhile_append2 simp: takeWhile_eq_all_conv)
  then show ?thesis by (simp add: first_line_def proc_stat_def)
qed

lemma read_word_label: "read_word (''cpu '' @ r) = Some (''cpu'', CHR '' '' # r)"
  by (simp add: read_word_def isspace_def)

lemma read_counters_blank: "read_counters (CHR '' '' # r) = read_counters r"
proof -
  have "isspace CHR '' ''" by (simp add: isspace_def)
  then have "read_u64 (CHR '' '' # r) = read_u64 r" by (cases "scan_int r") (simp_all add: read_u64_def scan_skip_space)
  then show ?thesis using read_counters.simps [of "CHR '' '' # r"] read_counters.simps [of r] by simp
qed

text \<open>The first line is read back, and later fields (\<open>guest\<close>, \<open>guest_nice\<close>) are not counted.\<close>

lemma parse_cpu_fields:
  assumes "4 \<le> length vs" and "cpu_total vs < 2 ^ 64" and "cpu_idle vs < 2 ^ 64" and "\<forall>v \<in> set vs. v < 2 ^ 64"
  shows "\<exists>t. parse_cpu (''cpu '' @ stat_fields vs) = Some t \<and> unat (ct_total t) = cpu_total vs \<and> unat (ct_idle t) = cpu_idle vs"
proof -
  let ?cs = "List.map word_of_nat vs :: u64 list"
  have u: "unat (word_of_nat v :: u64) = v" if "v \<in> set vs" for v
    using assms(4) that by (intro unat_word_of_nat_small) simp
  then have m: "List.map unat (take 8 ?cs) = take 8 vs"
    by (simp add: take_map [symmetric] comp_def list_eq_iff_nth_eq)
  have c: "read_counters (CHR '' '' # stat_fields vs) = ?cs" using assms(4) by (simp add: read_counters_blank read_counters_fields)
  have mn: "take (min 8 (length vs)) ?cs = take 8 ?cs" by (simp add: min_def)
  obtain r where r: "add_counters 0 (take 8 ?cs) = Some r" "unat r = cpu_total vs"
    using add_counters_exact [of 0 "take 8 ?cs"] assms(2) m by (auto simp: cpu_total_def)
  have n: "unat (?cs ! 3) = vs ! 3" using assms(1) u by simp
  show ?thesis
  proof (cases "4 < length vs")
    case False
    then show ?thesis using assms(1) r n
      by (simp add: parse_cpu_def read_word_label [simplified] c mn Let_def cpu_idle_def)
  next
    case True
    then have n4: "unat (?cs ! 4) = vs ! 4" using u by simp
    have s: "unat (?cs ! 3) + unat (?cs ! 4) < 2 ^ 64" using n n4 True assms(3) by (simp add: cpu_idle_def)
    show ?thesis using assms(1) r n n4 s True unat_add_no_wrap [OF s]
      by (simp add: parse_cpu_def read_word_label [simplified] c mn Let_def cpu_idle_def add_guard)
  qed
qed

lemma sampleCpu_fields:
  assumes "4 \<le> length vs" and "cpu_total vs < 2 ^ 64" and "cpu_idle vs < 2 ^ 64" and "\<forall>v \<in> set vs. v < 2 ^ 64"
  shows "\<exists>t. sampleCpu (Some (proc_stat vs rest)) m = (Some (cpu_usage t m), m\<lparr>sm_hasPrevious := True, sm_previous := t\<rparr>) \<and>
     unat (ct_total t) = cpu_total vs \<and> unat (ct_idle t) = cpu_idle vs"
  using parse_cpu_fields [OF assms] by (auto simp: sampleCpu_def first_line_proc_stat)

text \<open>C26. The CPU usage. The first sample only sets the base line. At the second, when the total grew and the idle time did not
  shrink or outgrow it, the usage is available and is the busy share of the ticks since the first, \<open>guest\<close> time not counted
  twice, a number between 0 and 100 (for totals up to 2^53/100 ticks, where no rounding but that of the quotient occurs).\<close>

theorem cpu_usage_between_samples:
  assumes "4 \<le> length vs" and "4 \<le> length ws" and "\<forall>v \<in> set vs \<union> set ws. v < 2 ^ 64"
    and "cpu_total ws * 100 \<le> 2 ^ 53" and "cpu_total vs < cpu_total ws" and "cpu_idle vs \<le> cpu_idle ws"
    and "cpu_idle ws < 2 ^ 64" and "cpu_idle ws - cpu_idle vs \<le> cpu_ticks vs ws"
    and "sampleCpu (Some (proc_stat vs rest)) new_monitor = (r1, m1)" and "sampleCpu (Some (proc_stat ws rest')) m1 = (r2, m2)"
  shows "r1 = Some (False, 0) \<and>
    r2 = Some (True, to_double (of_nat (cpu_busy vs ws * 100) / of_nat (cpu_ticks vs ws))) \<and>
    0 \<le> snd (the r2) \<and> snd (the r2) \<le> 100"
proof -
  obtain t1 where t1: "r1 = Some (cpu_usage t1 new_monitor)" "m1 = new_monitor\<lparr>sm_hasPrevious := True, sm_previous := t1\<rparr>"
      "unat (ct_total t1) = cpu_total vs" "unat (ct_idle t1) = cpu_idle vs"
    using sampleCpu_fields [of vs rest new_monitor] assms(1,3-7,9) by auto
  obtain t2 where t2: "r2 = Some (cpu_usage t2 m1)" "unat (ct_total t2) = cpu_total ws" "unat (ct_idle t2) = cpu_idle ws"
    using sampleCpu_fields [of ws rest' m1] assms(2-7,10) by auto
  have r1: "r1 = Some (False, 0)" using t1(1) by (simp add: cpu_usage_def new_monitor_def)
  let ?T = "ct_total t2 - ct_total t1" and ?I = "ct_idle t2 - ct_idle t1"
  have le: "ct_total t1 \<le> ct_total t2" "ct_idle t1 \<le> ct_idle t2"
    using t1(3,4) t2(2,3) assms(5,6) by (simp_all add: word_le_nat_alt)
  have uT: "unat ?T = cpu_ticks vs ws" "unat ?I = cpu_idle ws - cpu_idle vs"
    using le t1(3,4) t2(2,3) by (simp_all add: unat_sub cpu_ticks_def)
  have iT: "?I \<le> ?T" using uT assms(8) by (simp add: word_le_nat_alt)
  have uB: "unat (?T - ?I) = cpu_busy vs ws" using uT iT by (simp add: unat_sub cpu_busy_def cpu_ticks_def)
  have pos: "0 < ?T" using uT(1) assms(5) by (simp add: word_less_nat_alt cpu_ticks_def)
  have small: "unat ?T * 100 \<le> 2 ^ 53" using uT(1) assms(4) by (simp add: cpu_ticks_def)
  have part: "?T - ?I \<le> ?T" using uB uT(1) by (simp add: word_le_nat_alt cpu_busy_def cpu_ticks_def)
  have r2: "r2 = Some (True, percentage (?T - ?I) ?T)"
    using t2(1) le pos iT by (simp add: cpu_usage_def t1(2) Let_def)
  then have "r2 = Some (True, to_double (of_nat (cpu_busy vs ws * 100) / of_nat (cpu_ticks vs ws)))"
    using percentage_exact [OF part small] uB uT(1) by (simp only:)
  moreover have "0 \<le> snd (the r2) \<and> snd (the r2) \<le> 100" using r2 percentage_bounds [OF part small pos] by simp
  ultimately show ?thesis using r1 by blast
qed

theorem cpu_usage_between_samples_witness:
  "fst (sampleCpu (Some (proc_stat [150, 0, 50, 1300, 100, 0, 0, 0, 77] ''x''))
     (snd (sampleCpu (Some (proc_stat [100, 0, 50, 800, 50, 0, 0, 0, 33] '''')) new_monitor))) =
   Some (True, to_double (of_nat (50 * 100) / of_nat 600))"
proof -
  let ?v = "[100, 0, 50, 800, 50, 0, 0, 0, 33] :: nat list" and ?w = "[150, 0, 50, 1300, 100, 0, 0, 0, 77] :: nat list"
  obtain r1 m1 where 1: "sampleCpu (Some (proc_stat ?v '''')) new_monitor = (r1, m1)" by fastforce
  obtain r2 m2 where 2: "sampleCpu (Some (proc_stat ?w ''x'')) m1 = (r2, m2)" by fastforce
  have c: "cpu_total ?v = 1000" "cpu_total ?w = 1600" "cpu_idle ?v = 850" "cpu_idle ?w = 1400"
    by (simp_all add: cpu_total_def cpu_idle_def)
  have "r2 = Some (True, to_double (of_nat (50 * 100) / of_nat 600))"
    using cpu_usage_between_samples [of ?v ?w "''''" r1 m1 "''x''" r2 m2] 1 2 by (simp add: c cpu_ticks_def cpu_busy_def)
  then show ?thesis using 1 2 by simp
qed

subsection \<open>Memory: the file the kernel writes is read back\<close>

definition meminfo_text :: "(string \<times> nat) list \<Rightarrow> string" where
  "meminfo_text es = concat (List.map (\<lambda>(k, v). (k @ '':'') @ '' '' @ dec_digits v @ '' kB'' @ ''\<newline>'') es)"

definition plain_key :: "string \<Rightarrow> bool" where
  "plain_key k \<longleftrightarrow> k \<noteq> [] \<and> list_all (\<lambda>c. \<not> isspace c) k"

text \<open>What \<open>/proc/meminfo\<close> says is available: \<open>MemAvailable\<close>, or on old kernels the sum of three other entries.\<close>

definition entry_of :: "string \<Rightarrow> (string \<times> nat) list \<Rightarrow> nat" where
  "entry_of k es = (case map_of es k of None \<Rightarrow> 0 | Some v \<Rightarrow> v)"

definition available_of :: "(string \<times> nat) list \<Rightarrow> nat" where
  "available_of es = (case map_of es ''MemAvailable'' of Some a \<Rightarrow> a
     | None \<Rightarrow> entry_of ''MemFree'' es + entry_of ''Buffers'' es + entry_of ''Cached'' es)"

lemma read_word_append:
  assumes "w \<noteq> []" and "list_all (\<lambda>c. \<not> isspace c) w" and "r = [] \<or> isspace (hd r)"
  shows "read_word (w @ r) = Some (w, r)"
proof -
  have d: "dropWhile isspace (w @ r) = w @ r" using assms(1,2) by (cases w) simp_all
  have "takeWhile (\<lambda>c. \<not> isspace c) (w @ r) = w" "dropWhile (\<lambda>c. \<not> isspace c) (w @ r) = r"
    using assms(2,3) by (cases r; simp add: list_all_iff takeWhile_append2 dropWhile_append2 takeWhile_eq_all_conv)+
  then show ?thesis using assms(1) by (simp add: read_word_def d Let_def)
qed

lemma read_word_blank: "isspace c \<Longrightarrow> read_word (c # r) = read_word r"
  by (simp add: read_word_def)

lemma isspace_blank: "isspace CHR '' ''" "\<not> isspace CHR '':''" "\<not> isdigit CHR '' ''"
  by (simp_all add: isspace_def isdigit_def)

lemma read_entry_line:
  assumes "plain_key k" and "v < 2 ^ 64"
  shows "read_entry ((k @ '':'') @ '' '' @ dec_digits v @ '' kB'') = Some (k @ '':'', word_of_nat v, ''kB'')"
proof -
  have "read_word ((k @ '':'') @ '' '' @ dec_digits v @ '' kB'') = Some (k @ '':'', '' '' @ dec_digits v @ '' kB'')"
    using assms(1) by (intro read_word_append) (simp_all add: plain_key_def isspace_blank)
  moreover have "read_u64 ('' '' @ dec_digits v @ '' kB'') = Some (word_of_nat v, '' kB'')"
    using read_u64_digits [OF assms(2), of "'' kB''" "CHR '' ''"] by (simp add: isspace_blank)
  moreover have "read_word '' kB'' = Some (''kB'', [])" by (simp add: read_word_def isspace_def)
  ultimately show ?thesis by (simp add: read_entry_def)
qed

lemma parse_meminfo_text:
  assumes "\<forall>(k, v) \<in> set es. plain_key k \<and> v < 2 ^ 64"
  shows "fold meminfo_line (getlines (meminfo_text es)) mi = fold (\<lambda>(k, v). set_field (k @ '':'') (word_of_nat v)) es mi"
  using assms
proof (induction es arbitrary: mi)
  case Nil
  show ?case by (simp add: meminfo_text_def)
next
  case (Cons e es)
  obtain k v where e: "e = (k, v)" by fastforce
  let ?l = "(k @ '':'') @ '' '' @ dec_digits v @ '' kB''"
  have pk: "plain_key k" "v < 2 ^ 64" using Cons.prems by (simp_all add: e)
  have "CHR ''\<newline>'' \<notin> set (dec_digits v)" using dec_digits_isdigit [of v] by (auto simp: isdigit_def)
  moreover have "CHR ''\<newline>'' \<notin> set k" using pk(1) by (auto simp: plain_key_def list_all_iff isspace_def)
  ultimately have "CHR ''\<newline>'' \<notin> set ?l" by simp
  then have "getlines (meminfo_text (e # es)) = ?l # getlines (meminfo_text es)"
    using getlines_append [of ?l "meminfo_text es"] by (simp add: meminfo_text_def e)
  moreover have "meminfo_line ?l mi = set_field (k @ '':'') (word_of_nat v) mi"
    unfolding meminfo_line_def using read_entry_line [OF pk] by simp
  ultimately show ?case using Cons.IH [of "set_field (k @ '':'') (word_of_nat v) mi"] Cons.prems by (simp add: e)
qed

lemma key_colon: "k @ '':'' = ''MemTotal:'' \<longleftrightarrow> k = ''MemTotal''" "k @ '':'' = ''MemAvailable:'' \<longleftrightarrow> k = ''MemAvailable''"
  "k @ '':'' = ''MemFree:'' \<longleftrightarrow> k = ''MemFree''" "k @ '':'' = ''Buffers:'' \<longleftrightarrow> k = ''Buffers''"
  "k @ '':'' = ''Cached:'' \<longleftrightarrow> k = ''Cached''"
  using append_same_eq [of k "'':''" "''MemTotal''"] append_same_eq [of k "'':''" "''MemAvailable''"]
    append_same_eq [of k "'':''" "''MemFree''"] append_same_eq [of k "'':''" "''Buffers''"] append_same_eq [of k "'':''" "''Cached''"]
  by simp_all

lemma set_field_sel:
  "mi_totalKib (set_field (k @ '':'') w mi) = (if k = ''MemTotal'' then w else mi_totalKib mi)"
  "mi_availableKib (set_field (k @ '':'') w mi) = (if k = ''MemAvailable'' then w else mi_availableKib mi)"
  "mi_freeKib (set_field (k @ '':'') w mi) = (if k = ''MemFree'' then w else mi_freeKib mi)"
  "mi_buffersKib (set_field (k @ '':'') w mi) = (if k = ''Buffers'' then w else mi_buffersKib mi)"
  "mi_cachedKib (set_field (k @ '':'') w mi) = (if k = ''Cached'' then w else mi_cachedKib mi)"
  "mi_hasAvailable (set_field (k @ '':'') w mi) \<longleftrightarrow> k = ''MemAvailable'' \<or> mi_hasAvailable mi"
  unfolding set_field_def key_colon by simp_all

lemma fold_fields:
  fixes es :: "(string \<times> nat) list" and mi :: meminfo
  assumes "distinct (List.map fst es)"
  defines "f \<equiv> \<lambda>(k, v). set_field (k @ '':'') (word_of_nat v)"
  shows "mi_totalKib (fold f es mi) = (case map_of es ''MemTotal'' of None \<Rightarrow> mi_totalKib mi | Some v \<Rightarrow> word_of_nat v)"
    and "mi_availableKib (fold f es mi) = (case map_of es ''MemAvailable'' of None \<Rightarrow> mi_availableKib mi | Some v \<Rightarrow> word_of_nat v)"
    and "mi_freeKib (fold f es mi) = (case map_of es ''MemFree'' of None \<Rightarrow> mi_freeKib mi | Some v \<Rightarrow> word_of_nat v)"
    and "mi_buffersKib (fold f es mi) = (case map_of es ''Buffers'' of None \<Rightarrow> mi_buffersKib mi | Some v \<Rightarrow> word_of_nat v)"
    and "mi_cachedKib (fold f es mi) = (case map_of es ''Cached'' of None \<Rightarrow> mi_cachedKib mi | Some v \<Rightarrow> word_of_nat v)"
    and "mi_hasAvailable (fold f es mi) \<longleftrightarrow> mi_hasAvailable mi \<or> map_of es ''MemAvailable'' \<noteq> None"
proof -
  have f: "f (k, v) = set_field (k @ '':'') (word_of_nat v)" for k v by (simp add: f_def)
  have n: "map_of xs k = None" if "k \<notin> set (List.map fst xs)" for xs :: "(string \<times> nat) list" and k
    using that by (simp add: map_of_eq_None_iff)
  show "mi_totalKib (fold f es mi) = (case map_of es ''MemTotal'' of None \<Rightarrow> mi_totalKib mi | Some v \<Rightarrow> word_of_nat v)"
    using assms(1) by (induction es arbitrary: mi) (auto simp: f set_field_sel n split: option.split)
  show "mi_availableKib (fold f es mi) = (case map_of es ''MemAvailable'' of None \<Rightarrow> mi_availableKib mi | Some v \<Rightarrow> word_of_nat v)"
    using assms(1) by (induction es arbitrary: mi) (auto simp: f set_field_sel n split: option.split)
  show "mi_freeKib (fold f es mi) = (case map_of es ''MemFree'' of None \<Rightarrow> mi_freeKib mi | Some v \<Rightarrow> word_of_nat v)"
    using assms(1) by (induction es arbitrary: mi) (auto simp: f set_field_sel n split: option.split)
  show "mi_buffersKib (fold f es mi) = (case map_of es ''Buffers'' of None \<Rightarrow> mi_buffersKib mi | Some v \<Rightarrow> word_of_nat v)"
    using assms(1) by (induction es arbitrary: mi) (auto simp: f set_field_sel n split: option.split)
  show "mi_cachedKib (fold f es mi) = (case map_of es ''Cached'' of None \<Rightarrow> mi_cachedKib mi | Some v \<Rightarrow> word_of_nat v)"
    using assms(1) by (induction es arbitrary: mi) (auto simp: f set_field_sel n split: option.split)
  show "mi_hasAvailable (fold f es mi) \<longleftrightarrow> mi_hasAvailable mi \<or> map_of es ''MemAvailable'' \<noteq> None"
    using assms(1) by (induction es arbitrary: mi) (auto simp: f set_field_sel n split: option.split)
qed

lemma kibibytesToBytes_exact: "unat k < 2 ^ 54 \<Longrightarrow> \<exists>b. kibibytesToBytes k = Some b \<and> unat b = 1024 * unat k"
proof -
  assume k: "unat k < 2 ^ 54"
  have "unat ((- 1 :: u64) div 1024) = (2 ^ 64 - 1) div 1024"
    by (simp add: unat_div unsigned_minus_1_eq_mask mask_eq_exp_minus_1)
  then have "\<not> k > (- 1) div 1024" using k by (simp add: word_less_nat_alt)
  moreover have "unat (k * 1024) = unat k * 1024" using k unat_mult_lem [of k 1024] by simp
  ultimately show ?thesis by (simp add: kibibytesToBytes_def)
qed

lemma available_kib_exact:
  assumes "mi_hasAvailable mi \<Longrightarrow> unat (mi_availableKib mi) = a"
    and "\<not> mi_hasAvailable mi \<Longrightarrow> unat (mi_freeKib mi) + unat (mi_buffersKib mi) + unat (mi_cachedKib mi) = a"
    and "a < 2 ^ 64"
  shows "\<exists>k. available_kib mi = Some k \<and> unat k = min a (unat (mi_totalKib mi))"
proof (cases "mi_hasAvailable mi")
  case True
  then show ?thesis using assms(1) by (simp add: available_kib_def min_def word_le_nat_alt)
next
  case False
  let ?f = "mi_freeKib mi" and ?b = "mi_buffersKib mi" and ?c = "mi_cachedKib mi"
  have s: "unat ?f + unat ?b + unat ?c = a" using False assms(2) by simp
  have fb: "unat (?f + ?b) = unat ?f + unat ?b" using s assms(3) by (intro unat_add_no_wrap) simp
  have fbc: "unat (?f + ?b + ?c) = a" using s fb assms(3) unat_add_no_wrap [of "?f + ?b" ?c] by simp
  have "\<not> ?f > - 1 - ?b" "\<not> ?f + ?b > - 1 - ?c" using s fb assms(3) by (simp_all add: add_guard)
  then show ?thesis using False fbc by (simp add: available_kib_def min_def word_le_nat_alt)
qed

text \<open>C27. The memory figures. From a \<open>/proc/meminfo\<close> with any entries in any order, the total and the available memory are
  the kernel's numbers in bytes, without wrap-around, the available one capped by the total; the used memory is their exact
  difference and the percentage lies between 0 and 100 (for totals up to 2^53/100 bytes, where only the quotient is rounded).\<close>

theorem meminfo_exact:
  assumes "distinct (List.map fst es)" and "\<forall>(k, v) \<in> set es. plain_key k \<and> v < 2 ^ 64"
    and "map_of es ''MemTotal'' = Some t" and "0 < t" and "t < 2 ^ 54" and "available_of es < 2 ^ 64"
  shows "\<exists>m'. sampleMemory (Some (meminfo_text es)) m = Some m' \<and>
     unat (sy_memoryTotalBytes m') = 1024 * t \<and>
     unat (sy_memoryAvailableBytes m') = 1024 * min (available_of es) t \<and>
     unat (sy_memoryUsedBytes m') = 1024 * (t - min (available_of es) t) \<and>
     (1024 * t * 100 \<le> 2 ^ 53 \<longrightarrow> 0 \<le> sy_memoryUsagePercent m' \<and> sy_memoryUsagePercent m' \<le> 100)"
proof -
  let ?mi = "parse_meminfo (meminfo_text es)"
  have f: "?mi = fold (\<lambda>(k, v). set_field (k @ '':'') (word_of_nat v)) es no_meminfo"
    unfolding parse_meminfo_def using assms(2) by (rule parse_meminfo_text)
  note ff = fold_fields [OF assms(1), of no_meminfo, folded f]
  have u: "unat (word_of_nat v :: u64) = v" if "map_of es k = Some v" for k v
    using assms(2) map_of_SomeD [OF that] by (intro unat_word_of_nat_small) auto
  have t: "unat (mi_totalKib ?mi) = t" using ff(1) assms(3) u [OF assms(3)] by simp
  have e: "unat (mi_freeKib ?mi) = entry_of ''MemFree'' es" "unat (mi_buffersKib ?mi) = entry_of ''Buffers'' es"
      "unat (mi_cachedKib ?mi) = entry_of ''Cached'' es"
    using ff(3-5) u by (auto simp: entry_of_def no_meminfo_def split: option.splits)
  obtain k where k: "available_kib ?mi = Some k" "unat k = min (available_of es) t"
    using available_kib_exact [of ?mi "available_of es"] ff(2,6) u e assms(6) t
    by (fastforce simp: available_of_def no_meminfo_def split: option.splits)
  obtain tb where tb: "kibibytesToBytes (mi_totalKib ?mi) = Some tb" "unat tb = 1024 * t"
    using kibibytesToBytes_exact [of "mi_totalKib ?mi"] t assms(5) by auto
  obtain ab where ab: "kibibytesToBytes k = Some ab" "unat ab = 1024 * min (available_of es) t"
    using kibibytesToBytes_exact [of k] k(2) assms(5) by (auto simp: min_less_iff_disj)
  have le: "ab \<le> tb" using tb(2) ab(2) by (simp add: word_le_nat_alt)
  have used: "unat (tb - ab) = 1024 * (t - min (available_of es) t)" using le tb(2) ab(2) by (simp add: unat_sub diff_mult_distrib2)
  have nz: "mi_totalKib ?mi \<noteq> 0" using t assms(4) by auto
  have pos: "0 < tb" "tb - ab \<le> tb" using tb(2) used assms(4) by (simp_all add: word_less_nat_alt word_le_nat_alt)
  let ?m = "m\<lparr>sy_memoryTotalBytes := tb, sy_memoryAvailableBytes := ab, sy_memoryUsedBytes := tb - ab,
     sy_memoryUsagePercent := percentage (tb - ab) tb\<rparr>"
  have "sampleMemory (Some (meminfo_text es)) m = Some ?m"
    using nz k(1) tb(1) ab(1) by (simp add: sampleMemory_def Let_def)
  moreover have "0 \<le> percentage (tb - ab) tb \<and> percentage (tb - ab) tb \<le> 100" if "1024 * t * 100 \<le> 2 ^ 53"
    using percentage_bounds [OF pos(2) _ pos(1)] that tb(2) by simp
  ultimately show ?thesis using tb(2) ab(2) used by (intro exI [of _ ?m]) simp
qed

theorem meminfo_exact_witness:
  "\<exists>m'. sampleMemory (Some (meminfo_text [(''MemFree'', 100), (''MemTotal'', 2000), (''Cached'', 300), (''Dirty'', 7)])) new_metrics = Some m' \<and>
     unat (sy_memoryAvailableBytes m') = 1024 * 400 \<and> unat (sy_memoryUsedBytes m') = 1024 * 1600 \<and> sy_memoryUsagePercent m' \<le> 100"
proof -
  let ?es = "[(''MemFree'', 100), (''MemTotal'', 2000), (''Cached'', 300), (''Dirty'', 7)] :: (string \<times> nat) list"
  have "available_of ?es = 400" by (simp add: available_of_def entry_of_def)
  then show ?thesis
    using meminfo_exact [of ?es 2000 new_metrics] by (auto simp: plain_key_def isspace_def)
qed

subsection \<open>Temperatures\<close>

text \<open>The readings come out in the order of the zone names, and are those of the entries that can be read, no matter in
  which order the directory lists them.\<close>

lemma temperatures_sorted: "sorted (List.map tr_zone (sampleTemperatures entries))"
  by (simp add: sampleTemperatures_def split: option.split)

lemma temperatures_set:
  "set (sampleTemperatures (Some es)) = {r. \<exists>e \<in> set es. read_zone e = Some r}"
  by (auto simp: sampleTemperatures_def map_filter_def) force

lemma read_zone_name: "read_zone e = Some r \<Longrightarrow> tr_zone r = fst e"
  by (auto simp: read_zone_def Let_def split: prod.splits if_splits option.splits)

lemma map_filter_zones:
  "set (List.map tr_zone (List.map_filter read_zone es)) \<subseteq> set (List.map fst es)"
  "distinct (List.map fst es) \<Longrightarrow> distinct (List.map tr_zone (List.map_filter read_zone es))"
proof (induction es)
  case (Cons e es)
  show "set (List.map tr_zone (List.map_filter read_zone (e # es))) \<subseteq> set (List.map fst (e # es))"
    using Cons.IH(1) by (auto simp: map_filter_simps dest: read_zone_name split: option.split)
  show "distinct (List.map tr_zone (List.map_filter read_zone (e # es)))" if "distinct (List.map fst (e # es))"
  proof (cases "read_zone e")
    case (Some r)
    have "distinct (List.map tr_zone (List.map_filter read_zone es))" "fst e \<notin> set (List.map tr_zone (List.map_filter read_zone es))"
      using Cons.IH that by auto
    then show ?thesis using Some read_zone_name [OF Some] by (simp add: map_filter_simps)
  qed (use Cons.IH(2) that in \<open>simp add: map_filter_simps\<close>)
qed simp_all

lemma temperatures_order_irrelevant:
  assumes "set es = set es'" and "distinct (List.map fst es)" and "distinct (List.map fst es')"
  shows "sampleTemperatures (Some es) = sampleTemperatures (Some es')"
proof (rule map_sorted_distinct_set_unique)
  have d: "distinct (List.map tr_zone (sampleTemperatures (Some es)))" if "distinct (List.map fst es)" for es
    using map_filter_zones(2) [OF that] by (simp add: sampleTemperatures_def distinct_map)
  show s: "set (sampleTemperatures (Some es)) = set (sampleTemperatures (Some es'))" using assms(1) by (simp only: temperatures_set)
  show "distinct (List.map tr_zone (sampleTemperatures (Some es)))" "distinct (List.map tr_zone (sampleTemperatures (Some es')))"
    using assms d by blast+
  then show "inj_on tr_zone (set (sampleTemperatures (Some es)) \<union> set (sampleTemperatures (Some es')))"
    using s by (simp add: distinct_map)
qed (rule temperatures_sorted)+

end
