(* ===== verification/Logger.thy ===== *)
theory Logger
  imports Std_Text
begin

section \<open>The logger\<close>

text \<open>
  \<open>src/logger.cpp\<close>. The state is the minimum level and what was written to \<open>std::clog\<close>, line by line; the text of the
  local time (\<open>currentTimestamp\<close>, at the end) is an argument. The mutex makes every call atomic.
\<close>

datatype log_level = Level_Info | Level_Warn | Level_Error

fun level_index :: "log_level \<Rightarrow> int" where
  "level_index Level_Info = 0"
| "level_index Level_Warn = 1"
| "level_index Level_Error = 2"

record logger =
  lg_minLevel :: log_level
  lg_lines :: "string list"

definition new_logger :: logger where
  "new_logger = \<lparr>lg_minLevel = Level_Info, lg_lines = []\<rparr>"

definition setLevel :: "log_level \<Rightarrow> logger \<Rightarrow> logger" where
  "setLevel level l = l\<lparr>lg_minLevel := level\<rparr>"

definition shouldLog :: "log_level \<Rightarrow> logger \<Rightarrow> bool" where
  "shouldLog level l \<longleftrightarrow> level_index level \<ge> level_index (lg_minLevel l)"

fun levelToString :: "log_level \<Rightarrow> string" where
  "levelToString Level_Info = ''INFO''"
| "levelToString Level_Warn = ''WARN''"
| "levelToString Level_Error = ''ERROR''"

definition log_line :: "string \<Rightarrow> log_level \<Rightarrow> string \<Rightarrow> string" where
  "log_line timestamp level message = ''['' @ timestamp @ ''] ['' @ levelToString level @ ''] '' @ message"

definition log_message :: "string \<Rightarrow> log_level \<Rightarrow> string \<Rightarrow> logger \<Rightarrow> logger" where
  "log_message timestamp level message l =
     (if \<not> shouldLog level l then l else l\<lparr>lg_lines := lg_lines l @ [log_line timestamp level message]\<rparr>)"

definition log_info :: "string \<Rightarrow> string \<Rightarrow> logger \<Rightarrow> logger" where
  "log_info timestamp = log_message timestamp Level_Info"

definition log_warn :: "string \<Rightarrow> string \<Rightarrow> logger \<Rightarrow> logger" where
  "log_warn timestamp = log_message timestamp Level_Warn"

definition log_error :: "string \<Rightarrow> string \<Rightarrow> logger \<Rightarrow> logger" where
  "log_error timestamp = log_message timestamp Level_Error"

subsection \<open>What reaches the output\<close>

instantiation log_level :: linorder
begin

definition less_eq_log_level :: "log_level \<Rightarrow> log_level \<Rightarrow> bool" where
  "less_eq_log_level a b \<longleftrightarrow> level_index a \<le> level_index b"

definition less_log_level :: "log_level \<Rightarrow> log_level \<Rightarrow> bool" where
  "less_log_level a b \<longleftrightarrow> level_index a < level_index b"

instance
proof
  fix a b c :: log_level
  have inj: "level_index a = level_index b \<Longrightarrow> a = b" by (cases a; cases b) simp_all
  show "(a < b) = (a \<le> b \<and> \<not> b \<le> a)" by (auto simp: less_eq_log_level_def less_log_level_def)
  show "a \<le> a" by (simp add: less_eq_log_level_def)
  show "a \<le> b \<Longrightarrow> b \<le> c \<Longrightarrow> a \<le> c" by (simp add: less_eq_log_level_def)
  show "a \<le> b \<Longrightarrow> b \<le> a \<Longrightarrow> a = b" unfolding less_eq_log_level_def by (rule inj) (rule antisym)
  show "a \<le> b \<or> b \<le> a" by (auto simp: less_eq_log_level_def)
qed

end

text \<open>With a fixed level the output is the sublist of the messages at or above it, in order.\<close>

lemma log_output:
  "lg_lines (fold (\<lambda>(t, level, m). log_message t level m) ms l) =
     lg_lines l @ List.map (\<lambda>(t, level, m). log_line t level m) (filter (\<lambda>(t, level, m). lg_minLevel l \<le> level) ms)"
proof (induction ms arbitrary: l)
  case (Cons x ms)
  obtain t level m where x: "x = (t, level, m)" by (cases x) auto
  have "lg_minLevel (log_message t level m l) = lg_minLevel l" by (simp add: log_message_def)
  then show ?case using Cons.IH [of "log_message t level m l"]
    by (simp add: x) (simp add: log_message_def shouldLog_def less_eq_log_level_def)
qed simp

subsection \<open>The time of a line\<close>

text \<open>
  The fields of \<open>std::tm\<close> that are printed; \<open>localtime_r\<close> depends on the time zone of the host and is the argument
  \<open>localtime\<close>. The clock counts nanoseconds; conversions to seconds and milliseconds truncate.
\<close>

record tm =
  tm_year :: int
  tm_mon :: int
  tm_mday :: int
  tm_hour :: int
  tm_min :: int
  tm_sec :: int

text \<open>\<open>std::setfill('0')\<close> and \<open>std::setw\<close>.\<close>

definition zero_fill :: "nat \<Rightarrow> string \<Rightarrow> string" where
  "zero_fill width s = replicate (width - length s) CHR ''0'' @ s"

text \<open>\<open>std::put_time\<close> with \<open>%Y-%m-%d %H:%M:%S\<close>.\<close>

definition put_time :: "tm \<Rightarrow> string" where
  "put_time t =
     zero_fill 4 (to_string (tm_year t + 1900)) @ ''-'' @ zero_fill 2 (to_string (tm_mon t + 1)) @ ''-'' @
     zero_fill 2 (to_string (tm_mday t)) @ '' '' @ zero_fill 2 (to_string (tm_hour t)) @ '':'' @
     zero_fill 2 (to_string (tm_min t)) @ '':'' @ zero_fill 2 (to_string (tm_sec t))"

definition currentTimestamp :: "(int \<Rightarrow> tm) \<Rightarrow> wall_time \<Rightarrow> string" where
  "currentTimestamp localtime now =
     (let nowTime = cpp_div (sint now) 1000000000;
          localTime = localtime nowTime;
          count = cpp_div (sint now) 1000000;
          milliseconds = count - 1000 * cpp_div count 1000
      in put_time localTime @ ''.'' @ zero_fill 3 (to_string milliseconds))"

definition tm_ok :: "tm \<Rightarrow> bool" where
  "tm_ok t \<longleftrightarrow> - 900 \<le> tm_year t \<and> tm_year t < 8100 \<and> 0 \<le> tm_mon t \<and> tm_mon t < 12 \<and> 0 < tm_mday t \<and> tm_mday t < 32 \<and>
     0 \<le> tm_hour t \<and> tm_hour t < 24 \<and> 0 \<le> tm_min t \<and> tm_min t < 60 \<and> 0 \<le> tm_sec t \<and> tm_sec t < 61"

lemma length_dec_digits: "n < 10 ^ k \<Longrightarrow> 0 < k \<Longrightarrow> length (dec_digits n) \<le> k"
proof (induction n arbitrary: k rule: dec_digits.induct)
  case (1 n)
  show ?case
  proof (cases "n < 10")
    case False
    then obtain j where k: "k = Suc j" "0 < j" using "1.prems" by (cases k; cases "k - 1") auto
    have "n div 10 < 10 ^ j" using "1.prems"(1) by (simp add: k less_mult_imp_div_less)
    then show ?thesis using "1.IH" [of j] False k by (subst dec_digits.simps) simp
  qed (use "1.prems" in \<open>simp add: dec_digits.simps\<close>)
qed

text \<open>From 1970 on every time stamp has the same form, so the columns of the log line up.\<close>

lemma length_zero_fill:
  assumes "0 \<le> i" and "i < 10 ^ k" and "0 < k"
  shows "length (zero_fill k (to_string i)) = k"
proof -
  have "nat i < 10 ^ k" using assms(1,2) by (simp add: nat_less_iff)
  then show ?thesis using length_dec_digits [of "nat i" k] assms(1,3) by (simp add: zero_fill_def to_string_def)
qed

lemma currentTimestamp_length:
  assumes "0 \<le> sint now" and "tm_ok (localtime (cpp_div (sint now) 1000000000))"
  shows "length (currentTimestamp localtime now) = 23"
proof -
  let ?c = "sint now div 1000000"
  have "cpp_div (sint now) 1000000 - 1000 * cpp_div (cpp_div (sint now) 1000000) 1000 = ?c mod 1000"
    using assms(1) by (simp add: cpp_div_nonneg pos_imp_zdiv_nonneg_iff minus_mult_div_eq_mod)
  moreover have "length (zero_fill 3 (to_string (?c mod 1000))) = 3" by (rule length_zero_fill) simp_all
  moreover have "length (put_time t) = 19" if "tm_ok t" for t
    using that by (simp add: put_time_def tm_ok_def length_zero_fill)
  ultimately show ?thesis using assms(2) by (simp add: currentTimestamp_def Let_def)
qed

end
