(* ===== verification/Metrics_Log.thy ===== *)
theory Metrics_Log
  imports System_Monitor Logger
begin

section \<open>The periodic metrics log line\<close>

text \<open>
  The callback of the monitor timer in \<open>src/main.cpp\<close>: it takes a sample (\<open>System_Monitor\<close>) and logs one line
  (\<open>Logger\<close>). Numbers are printed with one decimal, as \<open>std::fixed\<close> and \<open>std::setprecision(1)\<close> do: the exact value
  of the \<open>double\<close> rounded to a tenth, ties to even, with a minus sign for negative values.
\<close>

subsection \<open>Fixed notation with one decimal\<close>

definition tenths :: "rat \<Rightarrow> int" where
  "tenths x = round_even (x * 10)"

definition print_fixed1 :: "rat \<Rightarrow> string" where
  "print_fixed1 x =
     (let n = tenths \<bar>x\<bar>
      in (if x < 0 then ''-'' else '''') @ to_string (n div 10) @ ''.'' @ to_string (n mod 10))"

lemma tenths_close: "\<bar>of_int (tenths x) / 10 - x\<bar> \<le> 1 / 20"
proof -
  have f: "of_int \<lfloor>y\<rfloor> \<le> y" "y < of_int \<lfloor>y\<rfloor> + 1" for y :: rat by linarith+
  have "\<bar>of_int (round_even y) - y\<bar> \<le> 1 / 2" for y :: rat
    using f [of y] unfolding round_even_def Let_def by (auto simp: abs_le_iff)
  from this [of "x * 10"] show ?thesis by (simp add: tenths_def abs_le_iff field_simps)
qed

lemma tenths_mono: "x \<le> y \<Longrightarrow> tenths x \<le> tenths y"
  unfolding tenths_def by (intro round_even_mono) simp

lemma tenths_nonneg: "0 \<le> x \<Longrightarrow> 0 \<le> tenths x"
  using tenths_mono [of 0 x] by (simp add: tenths_def round_even_def)

subsection \<open>The line\<close>

definition bytes_to_mib :: "u64 \<Rightarrow> rat" where
  "bytes_to_mib bytes = to_double (dbl bytes / (1024 * 1024))"

definition temperature_text :: "thermal_reading \<Rightarrow> string" where
  "temperature_text t = '', '' @ tr_type t @ ''='' @ print_fixed1 (tr_celsius t) @ '' C''"

definition metrics_summary :: "system_metrics \<Rightarrow> string" where
  "metrics_summary metrics =
     ''System metrics: CPU='' @
     (if sy_cpuUsageAvailable metrics then print_fixed1 (sy_cpuUsagePercent metrics) @ ''%'' else ''warming-up'') @
     '', RAM='' @ print_fixed1 (bytes_to_mib (sy_memoryUsedBytes metrics)) @ ''/'' @
     print_fixed1 (bytes_to_mib (sy_memoryTotalBytes metrics)) @ '' MiB ('' @
     print_fixed1 (sy_memoryUsagePercent metrics) @ ''%)'' @
     concat (List.map temperature_text (sy_temperatures metrics))"

text \<open>The lambda expression of the timer; what the files contain and the text of the time are arguments.\<close>

definition monitor_callback :: "string option \<Rightarrow> string option \<Rightarrow> thermal_entry list option \<Rightarrow> wall_time \<Rightarrow> string \<Rightarrow>
    system_monitor \<times> logger \<Rightarrow> system_monitor \<times> logger" where
  "monitor_callback procStat procMeminfo thermalRoot now timestamp s =
     (let (m, l) = s in
      case sample procStat procMeminfo thermalRoot now m of
        (None, m') \<Rightarrow> (m', log_warn timestamp ''Failed to collect Linux system metrics'' l)
      | (Some metrics, m') \<Rightarrow> (m', log_info timestamp (metrics_summary metrics) l))"

text \<open>What \<open>main\<close> does before it starts the timer: the first sample is only the baseline of the next.\<close>

definition monitor_baseline :: "string option \<Rightarrow> string option \<Rightarrow> thermal_entry list option \<Rightarrow> wall_time \<Rightarrow> string \<Rightarrow>
    system_monitor \<times> logger \<Rightarrow> system_monitor \<times> logger" where
  "monitor_baseline procStat procMeminfo thermalRoot now timestamp s =
     (let (m, l) = s in
      case sample procStat procMeminfo thermalRoot now m of
        (None, m') \<Rightarrow> (m', log_warn timestamp ''Failed to establish initial system monitor sample'' l)
      | (Some _, m') \<Rightarrow> (m', l))"

end
