(* ===== verification/Systemd_Notifier.thy ===== *)
theory Systemd_Notifier
  imports Std_Text
begin

section \<open>The systemd notifier\<close>

text \<open>
  \<open>src/systemd_notifier.cpp\<close>. The environment is a map from names to texts, the process id an argument. A notification
  is the list of system calls it makes, with the 108 bytes of \<open>sun_path\<close> and the address length handed to \<open>sendto\<close>;
  whether \<open>socket\<close> succeeds and what \<open>sendto\<close> returns are arguments.
\<close>

abbreviation NUL :: char where
  "NUL \<equiv> CHR 0x00"

definition readUnsignedEnvironment :: "string option \<Rightarrow> int option" where
  "readUnsignedEnvironment text =
     (case text of None \<Rightarrow> None
      | Some s \<Rightarrow>
          (if s = [] then None
           else (case stoull s of None \<Rightarrow> None | Some v \<Rightarrow> if scan_rest s = [] then Some v else None)))"

definition sanitizeStatus :: "string \<Rightarrow> string" where
  "sanitizeStatus status = List.map (\<lambda>c. if c = CHR ''\<newline>'' \<or> c = CHR 0x0D then CHR '' '' else c) status"

record systemd_notifier =
  sn_notifySocket :: string
  sn_watchdogInterval :: int

text \<open>The constructor; the interval is in milliseconds, 0 when the watchdog is off.\<close>

definition new_systemd_notifier :: "(string \<Rightarrow> string option) \<Rightarrow> int \<Rightarrow> systemd_notifier" where
  "new_systemd_notifier env pid =
     (let n = \<lparr>sn_notifySocket = (case env ''NOTIFY_SOCKET'' of None \<Rightarrow> [] | Some s \<Rightarrow> s), sn_watchdogInterval = 0\<rparr> in
      if (case readUnsignedEnvironment (env ''WATCHDOG_PID'') of None \<Rightarrow> False | Some p \<Rightarrow> p \<noteq> pid) then n
      else (case readUnsignedEnvironment (env ''WATCHDOG_USEC'') of None \<Rightarrow> n
        | Some us \<Rightarrow>
            (if us = 0 then n
             else let ms = us div 1000 in
               if ms = 0 \<or> ms > 2 ^ 63 - 1 then n else n\<lparr>sn_watchdogInterval := ms\<rparr>)))"

definition isAvailable :: "systemd_notifier \<Rightarrow> bool" where
  "isAvailable n \<longleftrightarrow> sn_notifySocket n \<noteq> []"

definition watchdogInterval :: "systemd_notifier \<Rightarrow> int" where
  "watchdogInterval n = sn_watchdogInterval n"

text \<open>\<open>sun_path\<close> after the copies into the zeroed array, and the address length (the path starts at offset 2).\<close>

definition notify_address :: "string \<Rightarrow> (string \<times> nat) option" where
  "notify_address s =
     (if hd s = CHR ''@'' then
        (if length s > sun_path_size then None
         else let image = NUL # tl s in Some (image @ replicate (sun_path_size - length image) NUL, 2 + length s))
      else
        (if length s \<ge> sun_path_size then None
         else let image = s @ [NUL] in Some (image @ replicate (sun_path_size - length image) NUL, 2 + length s + 1)))"

datatype notify_call = Nc_socket bool | Nc_sendto string string nat | Nc_close

definition sendNotification :: "bool \<Rightarrow> int \<Rightarrow> string \<Rightarrow> systemd_notifier \<Rightarrow> bool \<times> notify_call list" where
  "sendNotification socket_ok sent state n =
     (if sn_notifySocket n = [] \<or> state = [] then (False, [])
      else (case notify_address (sn_notifySocket n) of None \<Rightarrow> (False, [])
        | Some (path, len) \<Rightarrow>
            (if \<not> socket_ok then (False, [Nc_socket False])
             else (sent = int (length state), [Nc_socket True, Nc_sendto state path len, Nc_close]))))"

definition state_text :: "string \<Rightarrow> string \<Rightarrow> string" where
  "state_text state status = (if status \<noteq> [] then state @ ''\<newline>STATUS='' @ sanitizeStatus status else state)"

definition notifyReady :: "bool \<Rightarrow> int \<Rightarrow> string \<Rightarrow> systemd_notifier \<Rightarrow> bool \<times> notify_call list" where
  "notifyReady socket_ok sent status n = sendNotification socket_ok sent (state_text ''READY=1'' status) n"

definition notifyWatchdog :: "bool \<Rightarrow> int \<Rightarrow> systemd_notifier \<Rightarrow> bool \<times> notify_call list" where
  "notifyWatchdog socket_ok sent n = sendNotification socket_ok sent ''WATCHDOG=1'' n"

definition notifyStopping :: "bool \<Rightarrow> int \<Rightarrow> string \<Rightarrow> systemd_notifier \<Rightarrow> bool \<times> notify_call list" where
  "notifyStopping socket_ok sent status n = sendNotification socket_ok sent (state_text ''STOPPING=1'' status) n"

subsection \<open>One state, one status, no more\<close>

lemma sanitized_no_newline: "CHR ''\<newline>'' \<notin> set (sanitizeStatus s)"
  by (auto simp: sanitizeStatus_def)

lemma length_sanitized [simp]: "length (sanitizeStatus s) = length s"
  by (simp add: sanitizeStatus_def)

lemma getlines_one: "CHR ''\<newline>'' \<notin> set l \<Longrightarrow> l \<noteq> [] \<Longrightarrow> getlines l = [l]"
proof -
  assume n: "CHR ''\<newline>'' \<notin> set l" and "l \<noteq> []"
  then obtain c s where l: "l = c # s" by (cases l) auto
  have "takeWhile (\<lambda>x. x \<noteq> CHR ''\<newline>'') (c # s) = c # s" using n unfolding l takeWhile_eq_all_conv by auto
  then show ?thesis by (simp only: l getlines.simps Let_def) simp
qed

text \<open>The fields of the datagram, for any status text.\<close>

lemma state_fields:
  assumes "CHR ''\<newline>'' \<notin> set state" and "state \<noteq> []"
  shows "getlines (state_text state status) = (if status = [] then [state] else [state, ''STATUS='' @ sanitizeStatus status])"
proof (cases "status = []")
  case True
  then show ?thesis using assms by (simp add: state_text_def getlines_one)
next
  case False
  have "getlines (state @ CHR ''\<newline>'' # (''STATUS='' @ sanitizeStatus status)) = state # getlines (''STATUS='' @ sanitizeStatus status)"
    using assms(1) by (rule getlines_append)
  moreover have "getlines (''STATUS='' @ sanitizeStatus status) = [''STATUS='' @ sanitizeStatus status]"
    using sanitized_no_newline [of status] by (intro getlines_one) simp_all
  ultimately show ?thesis using False by (simp add: state_text_def)
qed

lemma state_text_ne: "state \<noteq> [] \<Longrightarrow> state_text state status \<noteq> []"
  by (simp add: state_text_def)

text \<open>The copies into \<open>sun_path\<close> fill the array exactly and the length covers the name.\<close>

lemma notify_address_fits:
  "s \<noteq> [] \<Longrightarrow> notify_address s = Some (path, len) \<Longrightarrow>
     length path = sun_path_size \<and> len \<le> 2 + sun_path_size \<and>
     take (len - 2) path = (if hd s = CHR ''@'' then NUL # tl s else s @ [NUL])"
  by (cases s) (auto simp: notify_address_def sun_path_size_def Let_def split: if_splits)

text \<open>C29. A notification is a datagram with the state and at most one \<open>STATUS\<close> field, whatever the status text holds (line
  breaks in it cannot forge a field); it goes to the socket named in the environment, an abstract one for \<open>@\<close>, with copies
  that stay inside \<open>sun_path\<close>; it succeeds exactly when all of it was sent, and no descriptor is left open.\<close>

theorem notification_well_formed:
  "notifyReady socket_ok sent status n = (ok, calls) \<longrightarrow>
     calls = [] \<and> \<not> ok \<or> calls = [Nc_socket False] \<and> \<not> ok \<or>
     (\<exists>text path len. calls = [Nc_socket True, Nc_sendto text path len, Nc_close] \<and>
        getlines text = (if status = [] then [''READY=1''] else [''READY=1'', ''STATUS='' @ sanitizeStatus status]) \<and>
        (ok \<longleftrightarrow> sent = int (length text)) \<and>
        length path = sun_path_size \<and> len \<le> 2 + sun_path_size \<and>
        take (len - 2) path = (if hd (sn_notifySocket n) = CHR ''@'' then NUL # tl (sn_notifySocket n) else sn_notifySocket n @ [NUL]))"
proof -
  have f: "getlines (state_text ''READY=1'' status) = (if status = [] then [''READY=1''] else [''READY=1'', ''STATUS='' @ sanitizeStatus status])"
    by (rule state_fields) simp_all
  show ?thesis
    using f state_text_ne [of "''READY=1''" status] notify_address_fits [of "sn_notifySocket n"]
    by (auto simp: notifyReady_def sendNotification_def simp del: getlines.simps split: if_splits option.splits prod.splits)
qed

theorem notification_well_formed_witness:
  "\<exists>text path len. snd (notifyReady True 28 (''up'' @ ''\<newline>'' @ ''STOPPING=1'') \<lparr>sn_notifySocket = ''@edge'', sn_watchdogInterval = 0\<rparr>) =
       [Nc_socket True, Nc_sendto text path len, Nc_close] \<and>
     getlines text = [''READY=1'', ''STATUS=up STOPPING=1''] \<and> take (len - 2) path = NUL # ''edge''"
proof -
  let ?n = "\<lparr>sn_notifySocket = ''@edge'', sn_watchdogInterval = 0\<rparr>"
  let ?st = "''up'' @ ''\<newline>'' @ ''STOPPING=1''"
  obtain ok calls where r: "notifyReady True 28 ?st ?n = (ok, calls)" by fastforce
  have c: "calls \<noteq> []" "calls \<noteq> [Nc_socket False]"
    using r by (auto simp: notifyReady_def sendNotification_def state_text_def notify_address_def sun_path_size_def Let_def)
  have "sanitizeStatus ?st = ''up STOPPING=1''" by (simp add: sanitizeStatus_def)
  then show ?thesis
    using notification_well_formed [of True 28 ?st ?n ok calls] r c by auto
qed

end
