(* ===== verification/Config.thy ===== *)
theory Config
  imports Prelude
begin

section \<open>The configuration\<close>

text \<open>
  \<open>src/config.cpp\<close>. Nodes belong to yaml-cpp and are the type \<open>'n\<close>; what the code asks of them is the argument: whether a
  node is defined (its conversion to bool), whether it is a map, its child under a key, the conversions (\<open>None\<close> when they
  throw), and the node that \<open>return {}\<close> constructs. A configuration that was never loaded holds that node too.
\<close>

record 'n yaml =
  ym_defined :: "'n \<Rightarrow> bool"
  ym_isMap :: "'n \<Rightarrow> bool"
  ym_child :: "'n \<Rightarrow> string \<Rightarrow> 'n"
  ym_empty :: 'n
  ym_string :: "'n \<Rightarrow> string option"
  ym_int :: "'n \<Rightarrow> int option"
  ym_bool :: "'n \<Rightarrow> bool option"

text \<open>\<open>load\<close>: the root of the new file, or the exception; on failure the old root stays.\<close>

definition config_load :: "'n option \<Rightarrow> 'n \<Rightarrow> bool \<times> 'n" where
  "config_load file root = (case file of None \<Rightarrow> (False, root) | Some new \<Rightarrow> (True, new))"

text \<open>The loop of \<open>getNode\<close> on what is left of the key.\<close>

function getNode :: "'n yaml \<Rightarrow> 'n \<Rightarrow> string \<Rightarrow> 'n" where
  "getNode ym node key =
     (if key = [] then node
      else let keyPart = takeWhile (\<lambda>c. c \<noteq> CHR ''.'') key; rest = dropWhile (\<lambda>c. c \<noteq> CHR ''.'') key in
        if \<not> ym_defined ym node \<or> \<not> ym_isMap ym node then ym_empty ym
        else let nextNode = ym_child ym node keyPart in
          if \<not> ym_defined ym nextNode then ym_empty ym
          else if rest = [] then nextNode
          else getNode ym nextNode (tl rest))"
  by pat_completeness auto
termination
proof (relation "measure (\<lambda>(ym, node, key). length key)")
  fix ym :: "'n yaml" and node key x xa xb
  assume k: "key \<noteq> []" and xa: "xa = dropWhile (\<lambda>c. c \<noteq> CHR ''.'') key" "xa \<noteq> []"
  have "length xa \<le> length key" by (simp only: xa(1) length_dropWhile_le)
  moreover have "0 < length key" using k by simp
  ultimately have "length (tl xa) < length key" unfolding length_tl by linarith
  then show "((ym, xb, tl xa), ym, node, key) \<in> measure (\<lambda>(ym, node, key). length key)" by simp
qed simp

declare getNode.simps [simp del]

definition has :: "'n yaml \<Rightarrow> 'n \<Rightarrow> string \<Rightarrow> bool" where
  "has ym root key = ym_defined ym (getNode ym root key)"

definition get_as :: "('n \<Rightarrow> 'v option) \<Rightarrow> 'n yaml \<Rightarrow> 'n \<Rightarrow> string \<Rightarrow> 'v \<Rightarrow> 'v" where
  "get_as conv ym root key defaultValue =
     (let node = getNode ym root key in
      if \<not> ym_defined ym node then defaultValue
      else (case conv node of Some v \<Rightarrow> v | None \<Rightarrow> defaultValue))"

definition getString :: "'n yaml \<Rightarrow> 'n \<Rightarrow> string \<Rightarrow> string \<Rightarrow> string" where
  "getString ym = get_as (ym_string ym) ym"

definition getInt :: "'n yaml \<Rightarrow> 'n \<Rightarrow> string \<Rightarrow> int \<Rightarrow> int" where
  "getInt ym = get_as (ym_int ym) ym"

definition getBool :: "'n yaml \<Rightarrow> 'n \<Rightarrow> string \<Rightarrow> bool \<Rightarrow> bool" where
  "getBool ym = get_as (ym_bool ym) ym"

subsection \<open>Paths\<close>

text \<open>Specification: descend through the maps, one step per name.\<close>

fun descend :: "'n yaml \<Rightarrow> 'n \<Rightarrow> string list \<Rightarrow> 'n option" where
  "descend ym node [] = Some node"
| "descend ym node (k # ks) =
     (if ym_defined ym node \<and> ym_isMap ym node \<and> ym_defined ym (ym_child ym node k)
      then descend ym (ym_child ym node k) ks else None)"

fun dotted :: "string list \<Rightarrow> string" where
  "dotted [] = []"
| "dotted [k] = k"
| "dotted (k # ks) = k @ CHR ''.'' # dotted ks"

definition name_ok :: "string \<Rightarrow> bool" where
  "name_ok k \<longleftrightarrow> k \<noteq> [] \<and> CHR ''.'' \<notin> set k"

lemma name_split:
  assumes "name_ok k"
  shows "takeWhile (\<lambda>c. c \<noteq> CHR ''.'') k = k" "dropWhile (\<lambda>c. c \<noteq> CHR ''.'') k = []"
    and "takeWhile (\<lambda>c. c \<noteq> CHR ''.'') (k @ CHR ''.'' # r) = k" "dropWhile (\<lambda>c. c \<noteq> CHR ''.'') (k @ CHR ''.'' # r) = CHR ''.'' # r"
proof -
  have n: "\<And>c. c \<in> set k \<Longrightarrow> c \<noteq> CHR ''.''" using assms by (auto simp: name_ok_def)
  show "takeWhile (\<lambda>c. c \<noteq> CHR ''.'') k = k" using n by (simp add: takeWhile_eq_all_conv)
  show "dropWhile (\<lambda>c. c \<noteq> CHR ''.'') k = []" using n by (simp add: dropWhile_eq_Nil_conv)
  show "takeWhile (\<lambda>c. c \<noteq> CHR ''.'') (k @ CHR ''.'' # r) = k" using n by (simp add: takeWhile_append2)
  show "dropWhile (\<lambda>c. c \<noteq> CHR ''.'') (k @ CHR ''.'' # r) = CHR ''.'' # r" using n by (simp add: dropWhile_append2)
qed

text \<open>\<open>getNode\<close> follows a dotted path, and gives the empty node where the path leaves the document.\<close>

lemma getNode_descends:
  "list_all name_ok ks \<Longrightarrow> getNode ym node (dotted ks) = (case descend ym node ks of Some n \<Rightarrow> n | None \<Rightarrow> ym_empty ym)"
proof (induction ks arbitrary: node rule: dotted.induct)
  case 1
  show ?case by (simp add: getNode.simps)
next
  case (2 k)
  then show ?case by (subst getNode.simps) (simp add: name_split Let_def, simp add: name_ok_def)
next
  case (3 k k' ks)
  then show ?case by (subst getNode.simps) (simp add: name_split Let_def)
qed

text \<open>What a missing key reads as depends on the empty node of the library: the default is returned exactly when that node
  does not count as defined or does not convert.\<close>

lemma missing_key:
  assumes "list_all name_ok ks" and "descend ym root ks = None"
  shows "has ym root (dotted ks) = ym_defined ym (ym_empty ym)"
    and "get_as conv ym root (dotted ks) d = (if ym_defined ym (ym_empty ym) then case conv (ym_empty ym) of Some v \<Rightarrow> v | None \<Rightarrow> d else d)"
  using getNode_descends [OF assms(1), of ym root] assms(2) by (auto simp: has_def get_as_def split: option.split)

lemma present_key:
  assumes "list_all name_ok ks" and "descend ym root ks = Some n" and "ym_defined ym n" and "conv n = Some v"
  shows "get_as conv ym root (dotted ks) d = v"
  using getNode_descends [OF assms(1), of ym root] assms by (simp add: get_as_def)

end
