(* ===== verification/Gateway.thy ===== *)
theory Gateway
  imports Config Control_Command Unix_Server Mqtt_Service Systemd_Notifier Metrics_Log Device_Scheduler
begin

section \<open>The gateway process\<close>

text \<open>
  \<open>src/main.cpp\<close> and \<open>src/signal_handler.cpp\<close>: the settings it reads and checks, the heartbeat interval of the systemd watchdog, the order in which it
  constructs, starts, stops and destroys the services, and the control socket: the server of \<open>Unix_Server\<close> with the
  command processor of \<open>Control_Command\<close> as its handler; and the way from a signal to the end of the event loop. A constructor that throws ends the process
  (\<open>Terminated\<close>).
\<close>

subsection \<open>Settings\<close>

record gateway_config =
  gc_mqtt :: mqtt_config
  gc_monitorEnabled :: bool
  gc_monitorIntervalMs :: int

definition main_config_invalid :: "int \<Rightarrow> int \<Rightarrow> int \<Rightarrow> int \<Rightarrow> bool \<Rightarrow> int \<Rightarrow> bool" where
  "main_config_invalid mqttPort mqttKeepAlive mqttReconnectInitial mqttReconnectMaximum monitorEnabled monitorIntervalMs \<longleftrightarrow>
     mqttPort \<le> 0 \<or> mqttPort > 65535 \<or> mqttKeepAlive \<le> 0 \<or> mqttKeepAlive > 65535 \<or> mqttReconnectInitial \<le> 0 \<or>
     mqttReconnectMaximum < mqttReconnectInitial \<or> (monitorEnabled \<and> monitorIntervalMs \<le> 0)"

text \<open>The settings of a loaded configuration, \<open>None\<close> where \<open>main\<close> refuses them.\<close>

definition gateway_settings :: "'n yaml \<Rightarrow> 'n \<Rightarrow> gateway_config option" where
  "gateway_settings ym doc =
     (let mqttPort = getInt ym doc ''mqtt.port'' 1883;
          mqttKeepAlive = getInt ym doc ''mqtt.keep_alive_seconds'' 60;
          mqttReconnectInitial = getInt ym doc ''mqtt.reconnect_initial_delay_seconds'' 1;
          mqttReconnectMaximum = getInt ym doc ''mqtt.reconnect_maximum_delay_seconds'' 30;
          monitorEnabled = getBool ym doc ''monitor.enabled'' True;
          monitorIntervalMs = getInt ym doc ''monitor.interval_ms'' 5000
      in if main_config_invalid mqttPort mqttKeepAlive mqttReconnectInitial mqttReconnectMaximum monitorEnabled monitorIntervalMs
         then None
         else Some \<lparr>gc_mqtt = \<lparr>qc_host = getString ym doc ''mqtt.host'' ''127.0.0.1'',
                qc_port = word_of_int mqttPort,
                qc_clientId = getString ym doc ''mqtt.client_id'' ''edgelink'',
                qc_keepAliveSeconds = word_of_int mqttKeepAlive,
                qc_connectTimeoutMs = getInt ym doc ''mqtt.connect_timeout_ms'' 3000,
                qc_reconnectInitialDelaySeconds = word_of_int mqttReconnectInitial,
                qc_reconnectMaximumDelaySeconds = word_of_int mqttReconnectMaximum,
                qc_publishAckTimeoutMs = getInt ym doc ''mqtt.publish_ack_timeout_ms'' 3000,
                qc_topicPrefix = getString ym doc ''mqtt.topic_prefix'' ''edgelink/devices''\<rparr>,
              gc_monitorEnabled = monitorEnabled, gc_monitorIntervalMs = monitorIntervalMs\<rparr>)"

text \<open>An environment variable that is set and not empty, else the default.\<close>

definition env_or :: "(string \<Rightarrow> string option) \<Rightarrow> string \<Rightarrow> string \<Rightarrow> string" where
  "env_or env name defaultValue = (case env name of None \<Rightarrow> defaultValue | Some s \<Rightarrow> if s = [] then defaultValue else s)"

definition config_path :: "(string \<Rightarrow> string option) \<Rightarrow> string" where
  "config_path env = env_or env ''EDGELINK_CONFIG'' ''config/edgelink.yaml''"

definition control_socket_path :: "(string \<Rightarrow> string option) \<Rightarrow> string" where
  "control_socket_path env = env_or env ''EDGELINK_CONTROL_SOCKET'' ''/tmp/edgelink.sock''"

definition storage_path :: "(string \<Rightarrow> string option) \<Rightarrow> 'n yaml \<Rightarrow> 'n \<Rightarrow> string" where
  "storage_path env ym doc = env_or env ''EDGELINK_STORAGE_PATH'' (getString ym doc ''storage.database_path'' ''./data/edgelink.db'')"

text \<open>The period of the watchdog timer, \<open>None\<close> when it is not started.\<close>

definition heartbeat_ms :: "int \<Rightarrow> u64 option" where
  "heartbeat_ms period = (if period > 0 then Some (word_of_int (max 100 (cpp_div period 2))) else None)"

text \<open>\<open>int\<close> has 32 bits, as what \<open>ym_int\<close> converts to.\<close>

definition int_conversions :: "'n yaml \<Rightarrow> bool" where
  "int_conversions ym \<longleftrightarrow> (\<forall>n i. ym_int ym n = Some i \<longrightarrow> - (2 ^ 31) \<le> i \<and> i < 2 ^ 31)"

lemma getInt_range:
  assumes "int_conversions ym" and "- (2 ^ 31) \<le> d" and "d < 2 ^ 31"
  shows "- (2 ^ 31) \<le> getInt ym doc key d" and "getInt ym doc key d < 2 ^ 31"
  using assms by (auto simp: getInt_def get_as_def int_conversions_def Let_def split: option.split)

lemma uint_of_small: "0 \<le> i \<Longrightarrow> i < 2 ^ LENGTH('a::len) \<Longrightarrow> uint (word_of_int i :: 'a word) = i"
  by (simp add: uint_word_of_int)

text \<open>Accepted settings reach the MQTT service unchanged: no conversion to the narrower integers truncates, the port and
  the keep-alive time are positive and the reconnect delays are ordered, whatever the file says.\<close>

theorem gateway_settings_exact:
  assumes "int_conversions ym" and "gateway_settings ym doc = Some gc"
  shows "uint (qc_port (gc_mqtt gc)) = getInt ym doc ''mqtt.port'' 1883 \<and> 0 < qc_port (gc_mqtt gc)"
    and "uint (qc_keepAliveSeconds (gc_mqtt gc)) = getInt ym doc ''mqtt.keep_alive_seconds'' 60 \<and> 0 < qc_keepAliveSeconds (gc_mqtt gc)"
    and "uint (qc_reconnectInitialDelaySeconds (gc_mqtt gc)) = getInt ym doc ''mqtt.reconnect_initial_delay_seconds'' 1"
    and "uint (qc_reconnectMaximumDelaySeconds (gc_mqtt gc)) = getInt ym doc ''mqtt.reconnect_maximum_delay_seconds'' 30"
    and "0 < qc_reconnectInitialDelaySeconds (gc_mqtt gc) \<and>
      qc_reconnectInitialDelaySeconds (gc_mqtt gc) \<le> qc_reconnectMaximumDelaySeconds (gc_mqtt gc)"
    and "gc_monitorEnabled gc \<longrightarrow> 0 < gc_monitorIntervalMs gc \<and> uint (word_of_int (gc_monitorIntervalMs gc) :: u64) = gc_monitorIntervalMs gc"
proof -
  note r = getInt_range [OF assms(1), of _ doc]
  have b: "getInt ym doc ''mqtt.reconnect_initial_delay_seconds'' 1 < 2 ^ 31"
      "getInt ym doc ''mqtt.reconnect_maximum_delay_seconds'' 30 < 2 ^ 31" "getInt ym doc ''monitor.interval_ms'' 5000 < 2 ^ 31"
    by (rule r; simp)+
  show "uint (qc_port (gc_mqtt gc)) = getInt ym doc ''mqtt.port'' 1883 \<and> 0 < qc_port (gc_mqtt gc)"
    using assms(2) by (auto simp: gateway_settings_def Let_def main_config_invalid_def uint_of_small word_less_def split: if_splits)
  show "uint (qc_keepAliveSeconds (gc_mqtt gc)) = getInt ym doc ''mqtt.keep_alive_seconds'' 60 \<and> 0 < qc_keepAliveSeconds (gc_mqtt gc)"
    using assms(2) by (auto simp: gateway_settings_def Let_def main_config_invalid_def uint_of_small word_less_def split: if_splits)
  show i: "uint (qc_reconnectInitialDelaySeconds (gc_mqtt gc)) = getInt ym doc ''mqtt.reconnect_initial_delay_seconds'' 1"
    using assms(2) b by (auto simp: gateway_settings_def Let_def main_config_invalid_def uint_of_small split: if_splits)
  show m: "uint (qc_reconnectMaximumDelaySeconds (gc_mqtt gc)) = getInt ym doc ''mqtt.reconnect_maximum_delay_seconds'' 30"
    using assms(2) b by (auto simp: gateway_settings_def Let_def main_config_invalid_def uint_of_small split: if_splits)
  show "0 < qc_reconnectInitialDelaySeconds (gc_mqtt gc) \<and>
      qc_reconnectInitialDelaySeconds (gc_mqtt gc) \<le> qc_reconnectMaximumDelaySeconds (gc_mqtt gc)"
    using assms(2) i m by (auto simp: word_less_def word_le_def gateway_settings_def Let_def main_config_invalid_def split: if_splits)
  show "gc_monitorEnabled gc \<longrightarrow> 0 < gc_monitorIntervalMs gc \<and> uint (word_of_int (gc_monitorIntervalMs gc) :: u64) = gc_monitorIntervalMs gc"
    using assms(2) b by (auto simp: gateway_settings_def Let_def main_config_invalid_def uint_of_small split: if_splits)
qed

text \<open>A document with one map, \<open>mqtt\<close>, whose \<open>port\<close> is given.\<close>

datatype demo_node = Demo_root | Demo_mqtt | Demo_port int | Demo_missing

definition demo_yaml :: "int \<Rightarrow> demo_node yaml" where
  "demo_yaml port = \<lparr>ym_defined = (\<lambda>n. n \<noteq> Demo_missing), ym_isMap = (\<lambda>n. n = Demo_root \<or> n = Demo_mqtt),
     ym_child = (\<lambda>n k. if n = Demo_root \<and> k = ''mqtt'' then Demo_mqtt
                   else if n = Demo_mqtt \<and> k = ''port'' then Demo_port port else Demo_missing),
     ym_empty = Demo_missing, ym_string = (\<lambda>_. None),
     ym_int = (\<lambda>n. case n of Demo_port i \<Rightarrow> if - (2 ^ 31) \<le> i \<and> i < 2 ^ 31 then Some i else None | _ \<Rightarrow> None), ym_bool = (\<lambda>_. None)\<rparr>"

theorem gateway_settings_exact_witness:
  "gateway_settings (demo_yaml 8883) Demo_root \<noteq> None \<and> uint (qc_port (gc_mqtt (the (gateway_settings (demo_yaml 8883) Demo_root)))) = 8883 \<and>
   gateway_settings (demo_yaml 65536) Demo_root = None"
proof -
  have p: "getInt (demo_yaml i) Demo_root ''mqtt.port'' 1883 = i" if "- (2 ^ 31) \<le> i" "i < 2 ^ 31" for i
    using that by (simp add: getInt_def get_as_def demo_yaml_def getNode.simps)
  have c: "int_conversions (demo_yaml i)" for i
    by (auto simp: int_conversions_def demo_yaml_def split: demo_node.splits if_splits)
  have d: "getInt (demo_yaml i) Demo_root ''mqtt.keep_alive_seconds'' 60 = 60"
    "getInt (demo_yaml i) Demo_root ''mqtt.reconnect_initial_delay_seconds'' 1 = 1"
    "getInt (demo_yaml i) Demo_root ''mqtt.reconnect_maximum_delay_seconds'' 30 = 30"
    "getInt (demo_yaml i) Demo_root ''monitor.interval_ms'' 5000 = 5000" for i
    by (simp_all add: getInt_def get_as_def demo_yaml_def getNode.simps)
  have s: "gateway_settings (demo_yaml 8883) Demo_root \<noteq> None" by (simp add: gateway_settings_def main_config_invalid_def p d)
  then obtain gc where g: "gateway_settings (demo_yaml 8883) Demo_root = Some gc" by blast
  have "gateway_settings (demo_yaml 65536) Demo_root = None" by (simp add: gateway_settings_def main_config_invalid_def p)
  then show ?thesis using gateway_settings_exact(1) [OF c g] s p [of 8883] by (simp add: g)
qed

text \<open>The heartbeat is at most half the watchdog period from 200 ms on; below 100 ms it comes too late.\<close>

lemma heartbeat_half: "200 \<le> w \<Longrightarrow> w < 2 ^ 63 \<Longrightarrow> \<exists>h. heartbeat_ms w = Some h \<and> 2 * uint h \<le> w"
  by (simp add: heartbeat_ms_def cpp_div_nonneg uint_of_small max_def) presburger

lemma heartbeat_too_slow: "0 < w \<Longrightarrow> w < 100 \<Longrightarrow> \<exists>h. heartbeat_ms w = Some h \<and> w < uint h"
  by (simp add: heartbeat_ms_def cpp_div_nonneg max_def)

subsection \<open>The order of construction, start, stop and destruction\<close>

datatype gw_object = O_EventLoop | O_MessageBus | O_Storage | O_Mqtt | O_TcpServer | O_ControlServer | O_Processor
  | O_SystemMonitor | O_Notifier | O_SignalTimer | O_WatchdogTimer | O_MonitorTimer

datatype gw_op = Op_open | Op_attach | Op_setOfflineStorage | Op_connect | Op_start | Op_setMessageHandler | Op_startPeriodic
  | Op_sample | Op_notifyReady | Op_run | Op_notifyStopping | Op_stop | Op_disconnect | Op_detach | Op_close

datatype gw_event = Make gw_object | Call gw_object gw_op | Destroy gw_object

text \<open>What \<open>main\<close> cannot decide: the settings, which calls succeed, and which constructors return.\<close>

record main_results =
  mr_settings :: bool
  mr_storageOpen :: bool
  mr_storageAttach :: bool
  mr_mqttAttach :: bool
  mr_tcpStart :: bool
  mr_controlStart :: bool
  mr_watchdog :: bool
  mr_monitor :: bool
  mr_constructs :: "gw_object \<Rightarrow> bool"

definition main_objects :: "gw_object list" where
  "main_objects = [O_EventLoop, O_MessageBus, O_Storage, O_Mqtt, O_TcpServer, O_ControlServer, O_Processor, O_SystemMonitor, O_Notifier]"

text \<open>From the last construction to the end of \<open>main\<close>: the calls, the objects constructed on the way, the exit code.\<close>

definition main_shutdown :: "gw_event list" where
  "main_shutdown = [Call O_ControlServer Op_stop, Call O_TcpServer Op_stop, Call O_Mqtt Op_disconnect, Call O_Mqtt Op_detach,
     Call O_Storage Op_detach, Call O_Storage Op_close]"

definition main_serve :: "gw_event list" where
  "main_serve = [Call O_Notifier Op_notifyReady, Call O_EventLoop Op_run, Call O_Notifier Op_notifyStopping]"

definition main_loop :: "main_results \<Rightarrow> gw_event list" where
  "main_loop r =
     [Make O_SignalTimer, Call O_SignalTimer Op_startPeriodic, Make O_WatchdogTimer] @
     (if mr_watchdog r then [Call O_WatchdogTimer Op_startPeriodic] else []) @
     [Make O_MonitorTimer] @
     (if mr_monitor r then [Call O_SystemMonitor Op_sample, Call O_MonitorTimer Op_startPeriodic] else []) @
     main_serve @ main_shutdown"

definition main_body :: "main_results \<Rightarrow> gw_event list \<times> gw_object list \<times> int" where
  "main_body r =
     (let c1 = [Call O_Storage Op_open]; c2 = c1 @ [Call O_Storage Op_attach];
          c3 = c2 @ [Call O_Mqtt Op_setOfflineStorage, Call O_Mqtt Op_attach];
          c4 = c3 @ [Call O_Mqtt Op_connect, Call O_TcpServer Op_start];
          c5 = c4 @ [Call O_ControlServer Op_setMessageHandler, Call O_ControlServer Op_start]
      in if \<not> mr_storageOpen r then (c1, [], 1)
         else if \<not> mr_storageAttach r then (c2, [], 1)
         else if \<not> mr_mqttAttach r then (c3, [], 1)
         else if \<not> mr_tcpStart r then (c4, [], 1)
         else if \<not> mr_controlStart r then (c5 @ [Call O_TcpServer Op_stop], [], 1)
         else (c5 @ main_loop r, [O_SignalTimer, O_WatchdogTimer, O_MonitorTimer], 0))"

text \<open>The whole function when no constructor throws: at its end the local objects are destroyed in the reverse order of their
  construction.\<close>

definition main_calls :: "main_results \<Rightarrow> gw_event list \<times> int" where
  "main_calls r =
     (if \<not> mr_settings r then ([], 1)
      else (case main_body r of (calls, extra, code) \<Rightarrow>
        (List.map Make main_objects @ calls @ List.map Destroy (rev (main_objects @ extra)), code)))"

text \<open>An exception of a constructor is not caught: \<open>std::terminate\<close>, without destructors.\<close>

datatype main_end = Exited int | Terminated

definition throws_at :: "main_results \<Rightarrow> gw_event \<Rightarrow> bool" where
  "throws_at r e = (case e of Make ob \<Rightarrow> \<not> mr_constructs r ob | _ \<Rightarrow> False)"

definition main_run :: "main_results \<Rightarrow> gw_event list \<times> main_end" where
  "main_run r =
     (let (es, code) = main_calls r in
      if list_ex (throws_at r) es then (takeWhile (\<lambda>e. \<not> throws_at r e) es, Terminated) else (es, Exited code))"

text \<open>Which objects hold a pointer or reference to which: a destroyed object must not be needed by a live one.\<close>

fun needs :: "gw_object \<Rightarrow> gw_object list" where
  "needs O_Storage = [O_MessageBus]"
| "needs O_Mqtt = [O_MessageBus, O_Storage]"
| "needs O_TcpServer = [O_EventLoop]"
| "needs O_ControlServer = [O_EventLoop]"
| "needs O_SignalTimer = [O_EventLoop]"
| "needs O_WatchdogTimer = [O_EventLoop, O_Notifier]"
| "needs O_MonitorTimer = [O_EventLoop, O_SystemMonitor]"
| "needs _ = []"

text \<open>While the event loop runs, requests also reach the command processor.\<close>

fun used_by :: "gw_object \<Rightarrow> gw_op \<Rightarrow> gw_object list" where
  "used_by O_EventLoop Op_run = [O_EventLoop, O_Processor, O_ControlServer, O_TcpServer]"
| "used_by ob _ = [ob]"

text \<open>The objects that live after the events, \<open>None\<close> when an event uses, needs or destroys an object that does not live.\<close>

fun lifetimes :: "gw_object list \<Rightarrow> gw_event list \<Rightarrow> gw_object list option" where
  "lifetimes live [] = Some live"
| "lifetimes live (Make ob # es) =
     (if ob \<notin> set live \<and> set (needs ob) \<subseteq> set live then lifetimes (ob # live) es else None)"
| "lifetimes live (Call ob op # es) = (if set (used_by ob op) \<subseteq> set live then lifetimes live es else None)"
| "lifetimes live (Destroy ob # es) =
     (if ob \<in> set live \<and> list_all (\<lambda>x. ob \<notin> set (needs x)) (remove1 ob live) then lifetimes (remove1 ob live) es else None)"

lemma lifetimes_append: "lifetimes live (es @ fs) = Option.bind (lifetimes live es) (\<lambda>live'. lifetimes live' fs)"
  by (induction live es rule: lifetimes.induct) simp_all

lemma main_calls_safe:
  "lifetimes [] (fst (main_calls r)) = Some [] \<and>
   (snd (main_calls r) = 0) = (Call O_EventLoop Op_run \<in> set (fst (main_calls r))) \<and>
   (snd (main_calls r) = 0 \<longrightarrow> (\<exists>pre. fst (main_calls r) = pre @ main_shutdown @
      List.map Destroy (rev (main_objects @ [O_SignalTimer, O_WatchdogTimer, O_MonitorTimer]))))"
proof -
  consider "\<not> mr_settings r" | "mr_settings r" "\<not> mr_storageOpen r" | "mr_settings r" "mr_storageOpen r" "\<not> mr_storageAttach r"
    | "mr_settings r" "mr_storageOpen r" "mr_storageAttach r" "\<not> mr_mqttAttach r"
    | "mr_settings r" "mr_storageOpen r" "mr_storageAttach r" "mr_mqttAttach r" "\<not> mr_tcpStart r"
    | "mr_settings r" "mr_storageOpen r" "mr_storageAttach r" "mr_mqttAttach r" "mr_tcpStart r" "\<not> mr_controlStart r"
    | "mr_settings r" "mr_storageOpen r" "mr_storageAttach r" "mr_mqttAttach r" "mr_tcpStart r" "mr_controlStart r" by blast
  then show ?thesis
  proof cases
    case 7
    then have "\<exists>pre. fst (main_calls r) = pre @ main_shutdown @
        List.map Destroy (rev (main_objects @ [O_SignalTimer, O_WatchdogTimer, O_MonitorTimer]))"
      unfolding main_calls_def main_body_def main_loop_def Let_def append_assoc [symmetric] by simp
    moreover have "lifetimes [] (fst (main_calls r)) = Some []" "snd (main_calls r) = 0" "Call O_EventLoop Op_run \<in> set (fst (main_calls r))"
      using 7 by (simp_all add: main_calls_def main_body_def main_loop_def main_objects_def main_serve_def main_shutdown_def)
    ultimately show ?thesis by blast
  qed (simp_all add: main_calls_def main_body_def main_objects_def Let_def)
qed


definition tcp_busy :: main_results where
  "tcp_busy = \<lparr>mr_settings = True, mr_storageOpen = True, mr_storageAttach = True, mr_mqttAttach = True, mr_tcpStart = False,
     mr_controlStart = True, mr_watchdog = False, mr_monitor = True, mr_constructs = (\<lambda>ob. True)\<rparr>"


subsection \<open>Control commands over the control socket\<close>

text \<open>The handler \<open>main\<close> installs; it has no state of its own and does not throw.\<close>

definition control_handler :: "'w message_handler" where
  "control_handler request w = (Some (process request), w)"

text \<open>What the server needs of a handler to answer every request: it is a function of the request alone, does not throw and
  gives no empty answer.\<close>

locale answering =
  fixes handler :: "'w message_handler" and answer :: "string \<Rightarrow> string"
  assumes handler_answers: "handler request w = (Some (answer request), w)"
    and answer_ne: "answer request \<noteq> []"
begin

lemma respond_answer: "length request \<le> MaxControlMessageSize \<Longrightarrow> respond (Some handler) request w = (answer request, w)"
  by (simp add: respond_def handler_answers)

lemma read_answers:
  "\<forall>r \<in> set requests. r \<noteq> [] \<and> length r \<le> MaxControlMessageSize \<Longrightarrow>
     unix_read (Some handler) (List.map Sys_ok requests @ [Sys_EAGAIN]) w = Some (Io_again, List.map answer requests, w)"
  by (induction requests) (simp_all add: respond_answer answer_ne)

end

interpretation ctl: answering control_handler process
  by unfold_locales (simp_all add: control_handler_def process_def Let_def)

lemma unix_write_all: "unix_write (List.map (\<lambda>m. Sys_ok (length m)) ms) ms = Some (Io_done, length ms)"
  by (induction ms) simp_all

text \<open>C19. From the socket to the command processor and back: a client of the control socket that sends commands of 1 to 4096
  bytes gets, in one turn of the event loop and in order, exactly the answers of \<open>process\<close>, and nothing else is left to send.\<close>

theorem control_commands_answered:
  assumes "um_find (sv_clients (us_base u)) fd = Some \<lparr>cl_channel = client_channel fd, cl_queue = []\<rparr>"
    and "us_messageHandler u = Some control_handler"
    and "\<forall>r \<in> set requests. r \<noteq> [] \<and> length r \<le> MaxControlMessageSize"
  shows "\<exists>u'. unix_handleClientRead os (List.map Sys_ok requests @ [Sys_EAGAIN])
        (List.map (\<lambda>r. Sys_ok (length (process r))) requests) fd (u, w) = Some (u', w) \<and>
     sent_on fd (us_base u') = sent_on fd (us_base u) @ List.map process requests \<and>
     um_find (sv_clients (us_base u')) fd = Some \<lparr>cl_channel = client_channel fd, cl_queue = []\<rparr>"
proof -
  let ?ans = "List.map process requests"
  have w: "unix_write (List.map (\<lambda>r. Sys_ok (length (process r))) requests) ?ans = Some (Io_done, length ?ans)"
    using unix_write_all [of ?ans] by (simp add: comp_def)
  have s: "um_find (sv_clients (set_queue fd q s)) fd = Some \<lparr>cl_channel = client_channel fd, cl_queue = q\<rparr>"
    if "um_find (sv_clients s) fd = Some \<lparr>cl_channel = client_channel fd, cl_queue = q'\<rparr>" for q q' and s :: "(string list, string) server"
    using that by (simp add: set_queue_def edgelink_simps)
  have l: "sv_log (set_queue fd q s) = sv_log s" "sv_clients (sv_logged es s) = sv_clients s" for q es and s :: "(string list, string) server"
    by (simp_all add: set_queue_def sv_logged_def split: option.split)
  let ?u1 = "u\<lparr>us_base := set_queue fd ?ans (sv_logged [Sv_in fd ?ans] (us_base u))\<rparr>"
  have c1: "um_find (sv_clients (us_base ?u1)) fd = Some \<lparr>cl_channel = client_channel fd, cl_queue = ?ans\<rparr>"
    using s [of "sv_logged [Sv_in fd ?ans] (us_base u)"] assms(1) by (simp add: l)
  let ?u2 = "?u1\<lparr>us_base := set_queue fd [] (sv_logged [Sv_out fd ?ans] (us_base ?u1))\<rparr>"
  have c2: "um_find (sv_clients (us_base ?u2)) fd = Some \<lparr>cl_channel = client_channel fd, cl_queue = []\<rparr>"
    using s [of "sv_logged [Sv_out fd ?ans] (us_base ?u1)"] c1 by (simp add: l)
  have m: "ch_events (client_channel fd) = EPOLLIN OR EPOLLRDHUP"
    by (simp add: client_channel_def setErrorCallback_def setWriteCallback_def setReadCallback_def setEvents_def)
  have e: "snd (unix_updateClientEvents os fd (EPOLLIN OR EPOLLRDHUP) ?u2) = ?u2"
    using c2 m by (simp add: unix_updateClientEvents_def)
  have "unix_handleClientWrite os (List.map (\<lambda>r. Sys_ok (length (process r))) requests) fd ?u1 = Some ?u2"
    using c1 w e unfolding unix_handleClientWrite_def by simp
  then have "unix_handleClientRead os (List.map Sys_ok requests @ [Sys_EAGAIN])
        (List.map (\<lambda>r. Sys_ok (length (process r))) requests) fd (u, w) = Some (?u2, w)"
    using assms ctl.read_answers [OF assms(3), of w] unfolding unix_handleClientRead_def by simp
  moreover have "sent_on fd (us_base ?u2) = sent_on fd (us_base u) @ ?ans" by (simp add: sent_on_def l)
  ultimately show ?thesis using c2 by blast
qed

theorem control_commands_answered_witness:
  "\<exists>u'. unix_handleClientRead ux_os [Sys_ok '' ping'', Sys_ok ''reboot'', Sys_EAGAIN] [Sys_ok 7, Sys_ok 21] 7
       (setMessageHandler control_handler ux_connected, 5) = Some (u', 5) \<and>
     sent_on 7 (us_base u') = [''OK PONG'', ''ERROR UNKNOWN_COMMAND'']"
proof -
  let ?u = "setMessageHandler control_handler ux_connected" and ?rs = "['' ping'', ''reboot'']"
  have p: "process '' ping'' = ''OK PONG''" "process ''reboot'' = ''ERROR UNKNOWN_COMMAND''" by code_simp+
  have u: "um_find (sv_clients (us_base ?u)) 7 = Some \<lparr>cl_channel = client_channel 7, cl_queue = []\<rparr>"
    "us_messageHandler ?u = Some control_handler" and s: "sent_on 7 (us_base ?u) = []"
    using ux_connected_state by (simp_all add: setMessageHandler_def sent_on_def)
  have n: "List.map (\<lambda>r. Sys_ok (length (process r))) ?rs = [Sys_ok 7, Sys_ok 21]" by (simp add: p)
  have d: "\<forall>r \<in> set ?rs. r \<noteq> [] \<and> length r \<le> MaxControlMessageSize" by (simp add: MaxControlMessageSize_def)
  show ?thesis using control_commands_answered [OF u d, of ux_os 5] unfolding n s
    by (simp only: list.map p append.simps) blast
qed

subsection \<open>Shutdown by a signal\<close>

text \<open>\<open>src/signal_handler.cpp\<close>: the flag, set by the handler registered for both signals.\<close>

definition SIGINT :: int where "SIGINT = 2"
definition SIGTERM :: int where "SIGTERM = 15"

definition handleSignal :: "int \<Rightarrow> bool \<Rightarrow> bool" where
  "handleSignal signal requested = (if signal = SIGINT \<or> signal = SIGTERM then True else requested)"

definition registerSignalHandlers :: "(int \<Rightarrow> (bool \<Rightarrow> bool) option) \<Rightarrow> int \<Rightarrow> (bool \<Rightarrow> bool) option" where
  "registerSignalHandlers handlers = handlers(SIGINT \<mapsto> handleSignal SIGINT, SIGTERM \<mapsto> handleSignal SIGTERM)"

definition shutdownRequested :: "bool \<Rightarrow> bool" where
  "shutdownRequested requested = requested"

text \<open>The callback of the signal timer, in a world that holds the flag.\<close>

definition signal_callback :: "'c event_loop \<times> bool \<Rightarrow> 'c event_loop \<times> bool" where
  "signal_callback lw = (let (l, requested) = lw in if shutdownRequested requested then (loop_stop l, requested) else (l, requested))"

text \<open>After a signal, the next expiry of the signal timer ends the event loop; before, it does not.\<close>

lemma signal_ends_loop:
  assumes "um_find (el_channels l) fd = Some (setReadCallback cb (setEvents EPOLLIN (new_channel fd)))"
    and "run cb = signal_callback" and "signal = SIGINT \<or> signal = SIGTERM"
  shows "\<exists>l'. loop_run run (Sys_ok [(fd, EPOLLIN)] # rs) (l, handleSignal signal False) = Some (l', True) \<and> \<not> el_running l'"
proof -
  have e: "handleEvent (setRevents EPOLLIN (setReadCallback cb (setEvents EPOLLIN (new_channel fd)))) = Some cb"
    by (simp add: handleEvent_def setRevents_def setReadCallback_def setEvents_def new_channel_def EPOLLIN_def EPOLLERR_def EPOLLHUP_def EPOLLRDHUP_def)
  show ?thesis using assms
    by (cases rs) (auto simp: loop_run_def e handleSignal_def signal_callback_def shutdownRequested_def loop_stop_def)
qed

end
