(* ===== verification/Restart.thy ===== *)
theory Restart
  imports Pipeline
begin

section \<open>The outbox across restarts of the gateway\<close>

text \<open>
  The gateway process can end at any point: it is stopped, it is killed, or it crashes. What stays is the database; the
  next process opens it, attaches the services as \<open>src/main.cpp\<close> does and goes on. A history of the gateway is therefore a
  list of lives: each starts from the database that the one before left, and runs any interleaving of the bus callbacks, the
  network thread and the replay thread (\<open>Mqtt_Service\<close>) up to any point. The end of a process keeps what SQLite has
  committed; a loss of power may not (\<open>PRAGMA synchronous=NORMAL\<close>) and is outside the model.
\<close>

subsection \<open>One life\<close>

text \<open>The objects as \<open>main\<close> constructs them, and the database file.\<close>

definition process_start :: "string \<Rightarrow> mqtt_config \<Rightarrow> 'db \<Rightarrow> 'db mqtt_world" where
  "process_start storagePath mqttConfig db =
     \<lparr>mw_mqtt = new_mqtt mqttConfig, mw_store = (new_storage storagePath, db), mw_replay = Rp_none, mw_forwards = [],
      mw_closing = None, mw_live = [], mw_enqueued = [], mw_events = [], mw_removed = []\<rparr>"

text \<open>\<open>main\<close> up to the call of \<open>connect\<close>; with the result False it returns 1.\<close>

definition gateway_start :: "'db sqlite_api \<Rightarrow> fs_results \<Rightarrow> string \<Rightarrow> mqtt_config \<Rightarrow> 'db \<Rightarrow>
    bool \<times> 'db mqtt_world \<times> pipeline_callback bus" where
  "gateway_start api fs storagePath mqttConfig db = pipeline_attach api fs (process_start storagePath mqttConfig db, empty_bus)"

text \<open>The end of \<open>main\<close> once \<open>disconnect\<close> has returned.\<close>

definition gateway_stop :: "'db mqtt_world \<times> pipeline_callback bus \<Rightarrow> 'db mqtt_world \<times> pipeline_callback bus" where
  "gateway_stop s = (let (w, b) = pipeline_detach s in (w\<lparr>mw_store := storage_close (mw_store w)\<rparr>, b))"

text \<open>A step of the service, or the other callback of the bus.\<close>

inductive life_step :: "'db sqlite_api \<Rightarrow> float_text \<Rightarrow> json_floats \<Rightarrow> 'db mqtt_world \<Rightarrow> 'db mqtt_world \<Rightarrow> bool"
  for api fl jf where
  life_service: "mqtt_step api jf w w' \<Longrightarrow> life_step api fl jf w w'"
| life_store: "life_step api fl jf w (w\<lparr>mw_store := snd (storeMessage api fl m (mw_store w))\<rparr>)"

inductive life_reach :: "'db sqlite_api \<Rightarrow> float_text \<Rightarrow> json_floats \<Rightarrow> 'db mqtt_world \<Rightarrow> 'db mqtt_world \<Rightarrow> bool"
  for api fl jf w0 where
  life_init: "life_reach api fl jf w0 w0"
| life_next: "life_reach api fl jf w0 w \<Longrightarrow> life_step api fl jf w w' \<Longrightarrow> life_reach api fl jf w0 w'"

lemma life_mqtt_reach: "mqtt_reach api jf w w' \<Longrightarrow> life_reach api fl jf w0 w \<Longrightarrow> life_reach api fl jf w0 w'"
  by (induction rule: mqtt_reach.induct) (auto intro: life_next life_service)

text \<open>A message that is published on the bus is one of these runs.\<close>

lemma forward_run:
  assumes "i < length (mw_forwards w)" and "mw_forwards w ! i = pc" and "forward_step api jf res now pc w = (pc', w')"
  shows "mqtt_step api jf w (w'\<lparr>mw_forwards := (mw_forwards w)[i := pc']\<rparr>)"
  using step_forward [OF assms(1), of api jf res now pc' w'] assms(2,3) by simp

lemma forward_step_frame:
  "forward_step api jf res now pc (w\<lparr>mw_forwards := fs\<rparr>) =
     (let (pc', w') = forward_step api jf res now pc w in (pc', w'\<lparr>mw_forwards := fs\<rparr>))"
  by (cases pc) (auto simp: forward_step_def Let_def split: prod.splits option.splits)

lemma forward_sections:
  assumes "forward_step api jf res now pc w = (pc', w')"
    and "life_reach api fl jf w0 (w\<lparr>mw_forwards := fs @ [pc]\<rparr>)"
  shows "life_reach api fl jf w0 (w'\<lparr>mw_forwards := fs @ [pc']\<rparr>)"
proof -
  have "mqtt_step api jf (w\<lparr>mw_forwards := fs @ [pc]\<rparr>) (w'\<lparr>mw_forwards := fs @ [pc']\<rparr>)"
    using forward_run [of "length fs" "w\<lparr>mw_forwards := fs @ [pc]\<rparr>" pc api jf res now pc' "w'\<lparr>mw_forwards := fs @ [pc]\<rparr>"]
    by (simp add: forward_step_frame assms(1))
  then show ?thesis using assms(2) by (blast intro: life_next life_service)
qed

lemma forwardMessage_life:
  assumes "life_reach api fl jf w0 w"
  shows "\<exists>pc. life_reach api fl jf w0 ((forwardMessage api jf res now m w)\<lparr>mw_forwards := mw_forwards w @ [pc]\<rparr>)"
proof -
  let ?f = "mw_forwards w" and ?step = "forward_step api jf res now"
  have "life_reach api fl jf w0 (w\<lparr>mw_forwards := ?f @ [Fw_begin m]\<rparr>)"
    using assms by (blast intro: life_next life_service step_call)
  moreover obtain p1 w1 where s1: "?step (Fw_begin m) w = (p1, w1)" by fastforce
  moreover obtain p2 w2 where s2: "?step p1 w1 = (p2, w2)" by fastforce
  moreover obtain p3 w3 where s3: "?step p2 w2 = (p3, w3)" by fastforce
  moreover obtain p4 w4 where s4: "?step p3 w3 = (p4, w4)" by fastforce
  ultimately have "life_reach api fl jf w0 (w4\<lparr>mw_forwards := ?f @ [p4]\<rparr>)"
    by (blast intro: forward_sections)
  moreover have "forwardMessage api jf res now m w = w4" by (simp add: forwardMessage_def s1 s2 s3 s4)
  ultimately show ?thesis by blast
qed

lemma publish_life:
  assumes "pipeline_attached b" and "msg_topic m = SourceTopic" and "life_reach api fl jf w0 w"
    and "publish (pipeline_run api fl jf res now) m (w, b) = (n, w', b')"
  shows "\<exists>pc. life_reach api fl jf w0 (w'\<lparr>mw_forwards := mw_forwards w @ [pc]\<rparr>)"
proof -
  let ?w1 = "w\<lparr>mw_store := snd (storeMessage api fl m (mw_store w))\<rparr>"
  have "w' = forwardMessage api jf res now m ?w1"
    using assms(4) by (simp add: publish_attached [OF assms(1,2)])
  moreover have "life_reach api fl jf w0 ?w1" using assms(3) by (blast intro: life_next life_store)
  ultimately show ?thesis using forwardMessage_life [of api fl jf w0 ?w1 res now m] by simp
qed

subsection \<open>What opening a database keeps\<close>

text \<open>
  What is relied on of SQLite beyond \<open>Storage_Service\<close>: opening the file, the initial statements, of which each creates
  only what does not exist, and insertions into the other table leave the rows of the outbox alone, whether or not they
  succeed.
\<close>

definition sqlite_durable :: "'db sqlite_api \<Rightarrow> ('db \<Rightarrow> (int \<times> sq_value list) list) \<Rightarrow> bool" where
  "sqlite_durable api outb \<longleftrightarrow> sqlite_outbox_ok api outb \<and>
     (\<forall>path db. outb (snd (sq_open api path db)) = outb db) \<and>
     (\<forall>sql db. sql \<in> set InitializeSql \<longrightarrow> outb (snd (sq_exec api sql db)) = outb db) \<and>
     (\<forall>ps db. length ps = 7 \<longrightarrow> outb (snd (snd (sq_step api InsertMessageSql ps db))) = outb db)"

lemma execute_all_durable:
  assumes "sqlite_durable api outb" and "set sqls \<subseteq> set InitializeSql"
  shows "outb (snd (execute_all api sqls db)) = outb db"
  using assms(2)
proof (induction sqls arbitrary: db)
  case (Cons sql sqls)
  have "outb (snd (sq_exec api sql db)) = outb db" using assms(1) Cons.prems by (simp add: sqlite_durable_def)
  then show ?case using Cons by (auto simp: executeSqlLocked_def split: prod.splits)
qed simp

lemma storage_open_durable:
  assumes "sqlite_durable api outb"
  shows "outb (snd (snd (storage_open api fs s))) = outb (snd s)"
proof -
  obtain st db where s: "s = (st, db)" by fastforce
  have "outb (snd (sq_open api (c_str (st_databasePath st)) db)) = outb db" using assms by (simp add: sqlite_durable_def)
  moreover have "outb (snd (execute_all api InitializeSql db')) = outb db'" for db'
    by (rule execute_all_durable [OF assms subset_refl])
  ultimately show ?thesis
    by (simp add: s storage_open_def initializeDatabaseLocked_def Let_def split: prod.split) (metis snd_conv)
qed

lemma storeMessage_durable:
  assumes "sqlite_durable api outb"
  shows "outb (snd (snd (storeMessage api fl m s))) = outb (snd s) \<and> fst (snd (storeMessage api fl m s)) = fst s"
proof -
  obtain st db where s: "s = (st, db)" by fastforce
  have "outb (snd (snd (sq_step api InsertMessageSql ps db))) = outb db" if "length ps = 7" for ps
    using assms that by (simp add: sqlite_durable_def)
  from this [of "[bind_text (msg_topic m), bind_text (msg_deviceId m), bind_text (msg_tagName m),
      Sq_int (int (value_index (msg_value m))), bind_text (value_text fl (msg_value m)),
      Sq_int (int (quality_index (msg_quality m))), Sq_int (timestampToMilliseconds (msg_timestamp m))]"]
  show ?thesis by (auto simp: s storeMessage_def serializeTagValue_def split: prod.split)
qed

text \<open>Shutting down touches no row at all.\<close>

lemma pipeline_detach_database: "snd (mw_store (fst (pipeline_detach s))) = snd (mw_store (fst s))"
  by (simp add: pipeline_detach_def split: prod.splits)

lemma gateway_stop_database: "snd (mw_store (fst (gateway_stop s))) = snd (mw_store (fst s))"
  using pipeline_detach_database [of s]
  by (auto simp: gateway_stop_def storage_close_def split: prod.splits)

lemma gateway_start_fields:
  assumes "gateway_start api fs path config db = (ok, w, b)"
  shows "mw_enqueued w = [] \<and> mw_removed w = [] \<and> mw_events w = [] \<and> mw_replay w = Rp_none \<and> \<not> mq_replaying (mw_mqtt w) \<and>
    snd (mw_store w) = snd (snd (storage_open api fs (new_storage path, db))) \<and> (ok \<longrightarrow> st_open (fst (mw_store w)))"
proof -
  have "storage_open api fs (new_storage path, db) = (True, st, db') \<Longrightarrow> st_open st" for st db'
    using open_flags [of api fs "new_storage path" db st db'] by simp
  then show ?thesis using assms
    by (auto simp: gateway_start_def pipeline_attach_def process_start_def attachMessageBus_def detachMessageBus_def
        mqtt_attachMessageBus_def mqtt_detachMessageBus_def setOfflineStorage_def new_mqtt_def Let_def split: prod.splits if_splits)
qed

subsection \<open>A life that started with messages in the outbox\<close>

text \<open>The history variable \<open>mw_enqueued\<close> is only written, so it may as well start with something.\<close>

abbreviation enqueued_before :: "(string \<times> string \<times> bool) list \<Rightarrow> 'db mqtt_world \<Rightarrow> 'db mqtt_world" where
  "enqueued_before xs w \<equiv> w\<lparr>mw_enqueued := xs @ mw_enqueued w\<rparr>"

lemma enqueued_swap:
  "w\<lparr>mw_enqueued := xs, mw_forwards := fs\<rparr> = w\<lparr>mw_forwards := fs, mw_enqueued := xs\<rparr>"
  "w\<lparr>mw_enqueued := xs, mw_store := s\<rparr> = w\<lparr>mw_store := s, mw_enqueued := xs\<rparr>"
  "w\<lparr>mw_enqueued := xs, mw_mqtt := m\<rparr> = w\<lparr>mw_mqtt := m, mw_enqueued := xs\<rparr>"
  "w\<lparr>mw_enqueued := xs, mw_events := es\<rparr> = w\<lparr>mw_events := es, mw_enqueued := xs\<rparr>"
  "w\<lparr>mw_enqueued := xs, mw_replay := pc\<rparr> = w\<lparr>mw_replay := pc, mw_enqueued := xs\<rparr>"
  "w\<lparr>mw_enqueued := xs, mw_closing := c\<rparr> = w\<lparr>mw_closing := c, mw_enqueued := xs\<rparr>"
  by simp_all

lemma replay_step_enqueued:
  "replay_step api res timedOut (w\<lparr>mw_enqueued := xs\<rparr>) = map_option (\<lambda>w'. w'\<lparr>mw_enqueued := xs\<rparr>) (replay_step api res timedOut w)"
  by (cases "mw_replay w") (auto simp: replay_step_def Let_def split: list.splits prod.splits)

lemma forward_step_enqueued:
  "forward_step api jf res now pc (enqueued_before xs w) =
     (let (pc', w') = forward_step api jf res now pc w in (pc', enqueued_before xs w'))"
  by (cases pc) (auto simp: forward_step_def Let_def split: prod.splits option.splits)

lemma mqtt_step_enqueued:
  assumes "mqtt_step api jf w w'"
  shows "mqtt_step api jf (enqueued_before xs w) (enqueued_before xs w')"
  using assms
proof (cases rule: mqtt_step.cases)
  case (step_replay res timedOut)
  then have "replay_step api res timedOut (enqueued_before xs w) = Some (enqueued_before xs w')"
    using replay_step_enqueued_same [of api res timedOut w w'] by (simp add: replay_step_enqueued)
  then show ?thesis by (rule mqtt_step.step_replay)
next
  case (step_call message)
  then show ?thesis using mqtt_step.step_call [of api jf "enqueued_before xs w" message]
    by (simp add: enqueued_swap)
next
  case (step_forward i res now pc' v)
  then show ?thesis
    using mqtt_step.step_forward [of i "enqueued_before xs w" api jf res now pc' "enqueued_before xs v"]
    by (simp add: forward_step_enqueued enqueued_swap)
next
  case (step_handleConnect client code)
  then show ?thesis using mqtt_step.step_handleConnect [of api jf "enqueued_before xs w"] by (simp add: enqueued_swap)
next
  case (step_handleDisconnect client)
  then show ?thesis using mqtt_step.step_handleDisconnect [of api jf "enqueued_before xs w"] by (simp add: enqueued_swap)
next
  case (step_handlePublish client mid)
  then show ?thesis using mqtt_step.step_handlePublish [of api jf "enqueued_before xs w"] by (simp add: enqueued_swap)
next
  case (step_setOfflineStorage present)
  then show ?thesis using mqtt_step.step_setOfflineStorage [of api jf "enqueued_before xs w"] by (simp add: enqueued_swap)
next
  case (step_connect lib r m')
  then show ?thesis using mqtt_step.step_connect [of "enqueued_before xs w" lib r m' api jf] by (simp add: enqueued_swap)
next
  case (step_disconnect client running m')
  then show ?thesis using mqtt_step.step_disconnect [of "enqueued_before xs w" client running m' api jf] by (simp add: enqueued_swap)
next
  case (step_disconnect_end client running)
  then show ?thesis using mqtt_step.step_disconnect_end [of "enqueued_before xs w" client running api jf] by (simp add: enqueued_swap)
qed

lemma mqtt_inv_store:
  assumes "mqtt_inv api outb w" and "outb (snd s) = outb (snd (mw_store w))" and "fst s = fst (mw_store w)"
  shows "mqtt_inv api outb (w\<lparr>mw_store := s\<rparr>)"
  using assms by (simp add: mqtt_inv_def store_inv_def store_queue_def)

lemma life_inv:
  assumes "life_reach api fl jf w0 w" and "mqtt_inv api outb (enqueued_before xs w0)" and "sqlite_durable api outb"
  shows "mqtt_inv api outb (enqueued_before xs w)"
  using assms
proof (induction rule: life_reach.induct)
  case (life_next w w')
  from life_next.hyps(2) show ?case
  proof (cases rule: life_step.cases)
    case life_service
    then show ?thesis using mqtt_inv_step mqtt_step_enqueued life_next by blast
  next
    case (life_store m)
    have "mqtt_inv api outb ((enqueued_before xs w)\<lparr>mw_store := snd (storeMessage api fl m (mw_store w))\<rparr>)"
      using life_next storeMessage_durable [of api outb fl m "mw_store w"] by (intro mqtt_inv_store) simp_all
    then show ?thesis by (simp add: life_store enqueued_swap)
  qed
qed simp

subsection \<open>Any number of lives\<close>

text \<open>
  \<open>gateway_lives api fl jf path db0 ws db\<close>: processes ran one after the other on the file \<open>path\<close>, ended in the states \<open>ws\<close>, and
  the database went from \<open>db0\<close> to \<open>db\<close>. A process whose start fails ends at once. The configuration and the file system may
  change between two lives.
\<close>

inductive gateway_lives :: "'db sqlite_api \<Rightarrow> float_text \<Rightarrow> json_floats \<Rightarrow> string \<Rightarrow> 'db \<Rightarrow> 'db mqtt_world list \<Rightarrow> 'db \<Rightarrow> bool"
  for api fl jf path db0 where
  lives_none: "gateway_lives api fl jf path db0 [] db0"
| lives_next: "gateway_lives api fl jf path db0 ws db \<Longrightarrow> gateway_start api fs path config db = (ok, w0, b) \<Longrightarrow>
     (if ok then life_reach api fl jf w0 w else w = w0) \<Longrightarrow>
     gateway_lives api fl jf path db0 (ws @ [w]) (snd (mw_store w))"

definition outbox_contents :: "'db sqlite_api \<Rightarrow> ('db \<Rightarrow> (int \<times> sq_value list) list) \<Rightarrow> 'db \<Rightarrow> (string \<times> string \<times> bool) list" where
  "outbox_contents api outb db = map (\<lambda>r. pq_content (pending_of_row api (row_of r))) (outb db)"

lemma outbox_contents_queue: "outbox_contents api outb (snd s) = map pq_content (store_queue api outb s)"
  by (simp add: outbox_contents_def store_queue_def)

lemma started_inv:
  assumes "sqlite_durable api outb" and "outbox_wf (outb db)" and "gateway_start api fs path config db = (True, w0, b)"
  shows "mqtt_inv api outb (enqueued_before (outbox_contents api outb db) w0)"
proof -
  note f = gateway_start_fields [OF assms(3)]
  have o: "outb (snd (mw_store w0)) = outb db"
    using f storage_open_durable [OF assms(1), of fs "(new_storage path, db)"] by simp
  have "store_inv api outb (mw_store w0)" using f assms(1,2) unfolding store_inv_def o by (simp add: sqlite_durable_def)
  moreover have "map pq_content (store_queue api outb (mw_store w0)) = outbox_contents api outb db"
    by (simp add: outbox_contents_def store_queue_def o)
  ultimately show ?thesis using f by (intro mqtt_inv_start) (simp add: mqtt_start_def)
qed

text \<open>What a life does to the outbox: it takes messages out at the front, each confirmed, and adds messages at the end.\<close>

lemma life_outbox:
  assumes "sqlite_durable api outb" and "outbox_wf (outb db)" and "gateway_start api fs path config db = (ok, w0, b)"
    and "if ok then life_reach api fl jf w0 w else w = w0"
  shows "outbox_wf (outb (snd (mw_store w))) \<and> list_all (confirmed (mw_events w)) (mw_removed w) \<and>
    outbox_contents api outb db @ mw_enqueued w = map pq_content (mw_removed w) @ outbox_contents api outb (snd (mw_store w))"
proof (cases ok)
  case True
  then have "mqtt_inv api outb (enqueued_before (outbox_contents api outb db) w)"
    using life_inv [OF _ started_inv [OF assms(1,2)] assms(1)] assms(3,4) by simp
  then show ?thesis by (simp add: mqtt_inv_def store_inv_def outbox_contents_queue list_all_iff)
next
  case False
  then have "w = w0" using assms(4) by simp
  moreover have "outb (snd (mw_store w0)) = outb db"
    using gateway_start_fields [OF assms(3)] storage_open_durable [OF assms(1), of fs "(new_storage path, db)"] by simp
  ultimately show ?thesis using gateway_start_fields [OF assms(3)] assms(2) by (simp add: outbox_contents_def)
qed

lemma lives_outbox:
  assumes "gateway_lives api fl jf path db0 ws db" and "sqlite_durable api outb" and "outbox_wf (outb db0)"
  shows "outbox_wf (outb db) \<and> list_all (\<lambda>w. list_all (confirmed (mw_events w)) (mw_removed w)) ws \<and>
    outbox_contents api outb db0 @ concat (map mw_enqueued ws) =
      map pq_content (concat (map mw_removed ws)) @ outbox_contents api outb db"
  using assms
proof (induction rule: gateway_lives.induct)
  case (lives_next ws db fs config ok w0 b w)
  then have ih: "outbox_wf (outb db)" "list_all (\<lambda>w. list_all (confirmed (mw_events w)) (mw_removed w)) ws"
    "outbox_contents api outb db0 @ concat (map mw_enqueued ws) =
      map pq_content (concat (map mw_removed ws)) @ outbox_contents api outb db"
    by simp_all
  note l = life_outbox [OF lives_next.prems(1) ih(1) lives_next.hyps(2,3)]
  have "outbox_contents api outb db0 @ concat (map mw_enqueued (ws @ [w])) =
      (outbox_contents api outb db0 @ concat (map mw_enqueued ws)) @ mw_enqueued w" by simp
  also have "\<dots> = map pq_content (concat (map mw_removed ws)) @ outbox_contents api outb db @ mw_enqueued w"
    unfolding ih(3) by simp
  finally show ?case using l ih(2) by simp
qed simp

subsection \<open>Two lives of a gateway\<close>

text \<open>A process buffers one message and is killed; the next one finds it, connects and delivers it. The database is in memory.\<close>

definition demo_fs :: fs_results where
  "demo_fs = \<lparr>fs_parent_empty = True, fs_stat = Stat_errno 2, fs_create = None, fs_is_directory_after = False\<rparr>"

definition demo_start :: "mem_db \<Rightarrow> bool \<times> mem_db mqtt_world \<times> pipeline_callback bus" where
  "demo_start db = gateway_start mem_api demo_fs ''gw.db'' demo_mqtt_config db"

definition demo_connect :: "mem_db mqtt_world \<Rightarrow> mem_db mqtt_world" where
  "demo_connect w =
     (let v = w\<lparr>mw_mqtt := snd (mqtt_connect demo_lib (mw_mqtt w)), mw_replay := Rp_wait\<rparr>
      in v\<lparr>mw_mqtt := handleConnect 7 0 (mw_mqtt v)\<rparr>)"

lemma mem_api_durable: "sqlite_durable mem_api snd"
  using mem_api_ok(2) by (auto simp: sqlite_durable_def mem_api_def sql_texts_differ)

lemma demo_started:
  assumes "demo_start db = (ok, w, b)"
  shows "ok" and "pipeline_attached b" and "snd (mw_store w) = db" and "st_open (fst (mw_store w))"
    and "\<not> mq_connected (mw_mqtt w)" and "mq_offlineStorage (mw_mqtt w)" and "mq_config (mw_mqtt w) = demo_mqtt_config"
    and "mq_client (mw_mqtt w) = None" and "\<not> mq_loopRunning (mw_mqtt w)" and "mw_replay w = Rp_none" and "mw_closing w = None"
proof -
  let ?st = "(new_storage ''gw.db'')\<lparr>st_open := True\<rparr>" and ?m = "setOfflineStorage True (new_mqtt demo_mqtt_config)"
  have o: "storage_open mem_api demo_fs (new_storage ''gw.db'', db) = (True, ?st, db)"
    by (simp add: storage_open_def new_storage_def demo_fs_def parent_ready_def initializeDatabaseLocked_def InitializeSql_def
        executeSqlLocked_def mem_api_def)
  have st: "st_open ?st" "\<not> st_attached ?st" "\<not> mq_attached ?m" and t: "SourceTopic \<noteq> ''''"
    by (simp_all add: new_storage_def setOfflineStorage_def new_mqtt_def SourceTopic_def)
  have wf: "bus_wf (snd (subscribe SourceTopic (Some Cb_storeMessage) empty_bus))"
    using t by (intro bus_wf_subscribe) (simp_all add: empty_bus_def [symmetric] bus_wf_empty, simp add: empty_bus_def)
  have "demo_start db = (True, (process_start ''gw.db'' demo_mqtt_config db)
      \<lparr>mw_store := (?st\<lparr>st_attached := True, st_subscriptionId := bus_nextSubscriptionId (empty_bus :: pipeline_callback bus)\<rparr>, db),
       mw_mqtt := ?m\<lparr>mq_attached := True, mq_subscriptionId :=
         bus_nextSubscriptionId (snd (subscribe SourceTopic (Some Cb_storeMessage) empty_bus))\<rparr>\<rparr>, demo_bus)"
    using attach_detached [OF st(1,2) bus_wf_empty] mqtt_attach_detached [OF st(3) wf]
    by (simp add: demo_start_def gateway_start_def pipeline_attach_def process_start_def o demo_bus_def)
  then have e: "ok = True" "b = demo_bus" "w = (process_start ''gw.db'' demo_mqtt_config db)
      \<lparr>mw_store := (?st\<lparr>st_attached := True, st_subscriptionId := bus_nextSubscriptionId (empty_bus :: pipeline_callback bus)\<rparr>, db),
       mw_mqtt := ?m\<lparr>mq_attached := True, mq_subscriptionId :=
         bus_nextSubscriptionId (snd (subscribe SourceTopic (Some Cb_storeMessage) empty_bus))\<rparr>\<rparr>"
    using assms by simp_all
  show ok "pipeline_attached b" using e demo_bus_attached by simp_all
  show "snd (mw_store w) = db" "st_open (fst (mw_store w))" "mw_replay w = Rp_none" "mw_closing w = None"
    by (simp_all add: e(3) process_start_def)
  show "\<not> mq_connected (mw_mqtt w)" "mq_offlineStorage (mw_mqtt w)" "mq_config (mw_mqtt w) = demo_mqtt_config"
    "mq_client (mw_mqtt w) = None" "\<not> mq_loopRunning (mw_mqtt w)"
    by (simp_all add: e(3) setOfflineStorage_def new_mqtt_def Let_def)
qed

text \<open>The first life.\<close>

lemma demo_first_life:
  "\<exists>w db. gateway_lives mem_api demo_fl demo_jf ''gw.db'' ([], []) [w] db \<and>
     mw_enqueued w = [bus_content demo_jf demo_mqtt_config (demo_update True)] \<and> mw_removed w = [] \<and>
     outbox_contents mem_api snd db = [bus_content demo_jf demo_mqtt_config (demo_update True)]"
proof -
  let ?m = "demo_update True" and ?c = "bus_content demo_jf demo_mqtt_config (demo_update True)"
  obtain ok w0 b where s: "demo_start ([], []) = (ok, w0, b)" by (metis prod_cases3)
  note d = demo_started [OF s]
  have i: "store_inv mem_api snd (mw_store w0)" and room: "mem_room (Suc (Suc 0)) (snd (mw_store w0))"
    using mem_api_ok(2) d(3,4) by (simp_all add: store_inv_def outbox_wf_def mem_room_def next_id_def)
  obtain w' where p: "publish (pipeline_run mem_api demo_fl demo_jf Mosq_failed 0) ?m (w0, b) = (2, w', b)"
    and bf: "buffered mem_api demo_fl demo_jf fst snd [?m] w0 w'"
    using publish_offline [OF d(2,5,6) demo_update_publishable i mem_api_ok(1) mem_room_ok room] by blast
  have t: "msg_topic ?m = SourceTopic" by (simp add: demo_update_def)
  obtain pc where r: "life_reach mem_api demo_fl demo_jf w0 (w'\<lparr>mw_forwards := mw_forwards w0 @ [pc]\<rparr>)" (is "life_reach _ _ _ _ ?w")
    using publish_life [OF d(2) t life_init p] by blast
  have g: "gateway_start mem_api demo_fs ''gw.db'' demo_mqtt_config ([], []) = (True, w0, b)"
    using s d(1) by (simp add: demo_start_def)
  have l: "gateway_lives mem_api demo_fl demo_jf ''gw.db'' ([], []) [?w] (snd (mw_store ?w))"
    using lives_next [OF lives_none g, of demo_fl demo_jf ?w] r by simp
  have rm: "mw_removed ?w = []" using bf gateway_start_fields [OF g] by (simp add: buffered_def)
  have q: "outbox_contents mem_api snd (snd (mw_store ?w)) = [?c]"
    using bf d(3,7) by (simp add: buffered_def outbox_contents_queue) (simp add: store_queue_def)
  have "mw_enqueued ?w = [?c]"
    using lives_outbox [OF l mem_api_durable] rm q by (simp add: outbox_wf_def) (simp add: outbox_contents_def)
  then show ?thesis using l rm q by blast
qed

text \<open>The second life up to the accepted connection.\<close>

lemma demo_second_life:
  assumes "demo_start db = (ok, w, b)"
  shows "life_reach mem_api demo_fl demo_jf w (demo_connect w)" and "replay_due 7 (demo_connect w)"
    and "mw_store (demo_connect w) = mw_store w"
proof -
  note d = demo_started [OF assms]
  obtain m where m: "mqtt_connect demo_lib (mw_mqtt w) = (None, m)" "mq_client m = Some 7" "\<not> mq_connected m" "\<not> mq_stopping m"
    "\<not> mq_replaying m" "mq_offlineStorage m"
    using d(5-9) by (simp add: mqtt_connect_def initializeClientLocked_def config_invalid_def demo_lib_def demo_mqtt_config_def mq_log_def)
  let ?v = "w\<lparr>mw_mqtt := m, mw_replay := Rp_wait\<rparr>"
  have c: "demo_connect w = ?v\<lparr>mw_mqtt := handleConnect 7 0 (mw_mqtt ?v)\<rparr>" by (simp add: demo_connect_def m(1) Let_def)
  have "mqtt_step mem_api demo_jf w ?v" using step_connect [OF d(10,11) m(1), of mem_api demo_jf] by simp
  then have "life_reach mem_api demo_fl demo_jf w ?v" by (blast intro: life_next life_init life_service)
  then show "life_reach mem_api demo_fl demo_jf w (demo_connect w)"
    unfolding c by (blast intro: life_next life_service step_handleConnect)
  have "broker_away 7 ?v" using m by (simp add: broker_away_def)
  then show "replay_due 7 (demo_connect w)" unfolding c by (rule accepted_due)
  show "mw_store (demo_connect w) = mw_store w" by (simp add: c)
qed

subsection \<open>Nothing is lost, everything is delivered\<close>

text \<open>
  C3. No message of the outbox is lost when the gateway is stopped, killed or restarted, at any point and any number of
  times: what was in the outbox at first, followed by what all processes put into it, is, in this order, what was
  removed from it, each after libmosquitto reported the \<open>PUBACK\<close> of the message in that process, followed by what is in the
  database now.
\<close>

theorem restarts_lose_nothing:
  assumes "gateway_lives api fl jf path db0 ws db" and "sqlite_durable api outb" and "outbox_wf (outb db0)"
  shows "outbox_contents api outb db0 @ concat (map mw_enqueued ws) =
      map pq_content (concat (map mw_removed ws)) @ outbox_contents api outb db \<and>
    list_all (\<lambda>w. list_all (confirmed (mw_events w)) (mw_removed w)) ws"
  using lives_outbox [OF assms] by blast

theorem restarts_lose_nothing_witness:
  "\<exists>w db. gateway_lives mem_api demo_fl demo_jf ''gw.db'' ([], []) [w] db \<and>
     mw_enqueued w = [bus_content demo_jf demo_mqtt_config (demo_update True)] \<and>
     outbox_contents mem_api snd db = mw_enqueued w"
proof -
  obtain w db where l: "gateway_lives mem_api demo_fl demo_jf ''gw.db'' ([], []) [w] db" and
    e: "mw_enqueued w = [bus_content demo_jf demo_mqtt_config (demo_update True)]" "mw_removed w = []"
    using demo_first_life by blast
  have "outbox_wf (snd ([], []))" by (simp add: outbox_wf_def)
  from restarts_lose_nothing [OF l mem_api_durable this] show ?thesis
    using l e by (intro exI [of _ w] exI [of _ db]) (simp add: outbox_contents_def)
qed

text \<open>
  C4. Every message that any process put into the outbox reaches the broker in the end: once a later process has connected
  and nothing fails in it, its replay thread needs five sections for each message left and four more, and then all of
  them, of all processes, have been confirmed by a \<open>PUBACK\<close>, in the order in which they were put into the outbox.
\<close>

theorem restarts_deliver_everything:
  assumes "gateway_lives api fl jf path db0 ws db" and "sqlite_durable api outb" and "outbox_wf (outb db0)"
    and "gateway_start api fs path config db = (True, w0, b)" and "life_reach api fl jf w0 w"
    and "outbox_responsive api" and "replay_due c w" and "list_all sendable (store_queue api outb (mw_store w))"
    and "replay_run api c (5 * length (store_queue api outb (mw_store w)) + 4) w w'"
  shows "outbox_contents api outb db0 @ concat (map mw_enqueued (ws @ [w'])) =
      map pq_content (concat (map mw_removed (ws @ [w']))) \<and>
    list_all (\<lambda>w. list_all (confirmed (mw_events w)) (mw_removed w)) (ws @ [w'])"
proof -
  have "life_reach api fl jf w0 w'" using life_mqtt_reach [OF replay_run_reach [OF assms(9)] assms(5)] .
  then have lives: "gateway_lives api fl jf path db0 (ws @ [w']) (snd (mw_store w'))"
    using lives_next [OF assms(1,4)] by simp
  have "outbox_wf (outb db)" using lives_outbox [OF assms(1-3)] by blast
  then have "mqtt_inv api outb (enqueued_before (outbox_contents api outb db) w)"
    using life_inv [OF assms(5) started_inv [OF assms(2) _ assms(4)] assms(2)] by blast
  then have "store_inv api outb (mw_store w)" by (simp add: mqtt_inv_def)
  from replay_drained [OF this assms(8,6,7,9) refl] have "store_queue api outb (mw_store w') = []" by blast
  then show ?thesis using lives_outbox [OF lives assms(2,3)] by (simp add: outbox_contents_queue)
qed

theorem restarts_deliver_everything_witness:
  "\<exists>w1 db w0 b w2. gateway_lives mem_api demo_fl demo_jf ''gw.db'' ([], []) [w1] db \<and>
     gateway_start mem_api demo_fs ''gw.db'' demo_mqtt_config db = (True, w0, b) \<and>
     replay_run mem_api 7 9 (demo_connect w0) w2 \<and>
     map pq_content (mw_removed w2) = [bus_content demo_jf demo_mqtt_config (demo_update True)]"
proof -
  let ?c = "bus_content demo_jf demo_mqtt_config (demo_update True)"
  obtain w1 db where l: "gateway_lives mem_api demo_fl demo_jf ''gw.db'' ([], []) [w1] db" and
    e: "mw_enqueued w1 = [?c]" "mw_removed w1 = []" "outbox_contents mem_api snd db = [?c]"
    using demo_first_life by blast
  obtain ok w0 b where s: "demo_start db = (ok, w0, b)" by (metis prod_cases3)
  note d = demo_started [OF s] and n = demo_second_life [OF s]
  have g: "gateway_start mem_api demo_fs ''gw.db'' demo_mqtt_config db = (True, w0, b)"
    using s d(1) by (simp add: demo_start_def)
  have z: "outbox_wf (snd ([], []))" by (simp add: outbox_wf_def)
  have wf: "outbox_wf (snd db)" using lives_outbox [OF l mem_api_durable z] by blast
  then have inv: "store_inv mem_api snd (mw_store (demo_connect w0))"
    using mem_api_ok(2) d(3,4) by (simp add: store_inv_def n(3))
  have q: "map pq_content (store_queue mem_api snd (mw_store (demo_connect w0))) = [?c]"
    using e(3) by (simp add: n(3) outbox_contents_queue [symmetric] d(3))
  have c: "CHR 0x00 \<notin> set (qc_topicPrefix demo_mqtt_config)" by (simp add: demo_mqtt_config_def)
  have send: "list_all sendable (store_queue mem_api snd (mw_store (demo_connect w0)))"
    using bus_content_sendable [OF c demo_update_publishable] unfolding sendable_content q by simp
  have len: "length (store_queue mem_api snd (mw_store (demo_connect w0))) = 1" using arg_cong [OF q, of length] by simp
  then have "replay_left mem_api snd (demo_connect w0) = 9" using n(2) by (simp add: replay_left_def replay_due_def Let_def)
  then obtain w2 where w2: "replay_run mem_api 7 9 (demo_connect w0) w2"
    using replay_run_completes [OF run_init replay_due_healthy [OF inv send n(2)] mem_api_responsive] by auto
  then have "replay_run mem_api 7 (5 * length (store_queue mem_api snd (mw_store (demo_connect w0))) + 4) (demo_connect w0) w2"
    by (simp add: len)
  from restarts_deliver_everything [OF l mem_api_durable z g n(1) mem_api_responsive n(2) send this]
  have r: "[?c] @ mw_enqueued w2 = map pq_content (mw_removed w2)" using e by (simp add: outbox_contents_def)
  have "mw_enqueued w2 = mw_enqueued (demo_connect w0)"
    using w2 by (induction rule: replay_run.induct) (auto dest: replay_step_enqueued_same)
  also have "\<dots> = []" using gateway_start_fields [OF g] by (simp add: demo_connect_def Let_def)
  finally have "map pq_content (mw_removed w2) = [?c]" using r by simp
  with l g w2 show ?thesis
    by (intro exI [of _ w1] exI [of _ db] exI [of _ w0] exI [of _ b] exI [of _ w2]) simp
qed

end
