(* ===== verification/Shutdown.thy ===== *)
theory Shutdown
  imports Gateway
begin

section \<open>From a signal to the end of the event loop\<close>

text \<open>
  \<open>SIGINT\<close> and \<open>SIGTERM\<close> only set a flag (\<open>src/signal_handler.cpp\<close>); the signal timer of \<open>src/main.cpp\<close> looks at it every
  200 ms and stops the event loop. Here the timer runs on the loop (\<open>Event_Loop\<close>, \<open>Device_Scheduler\<close>) beside the callbacks of
  all other channels, which are an argument.
\<close>

subsection \<open>The signal timer on the event loop\<close>

datatype 'o main_cb = Cb_signalTimer | Cb_other 'o

datatype signal_check = Check_shutdown

type_synonym ('o, 'w) main_state = "'o main_cb event_loop \<times> bool \<times> signal_check timer \<times> 'w"

text \<open>The constructor and \<open>startPeriodic\<close>; \<open>None\<close> when the constructor throws.\<close>

definition start_signal_timer :: "int \<Rightarrow> bool \<Rightarrow> bool \<Rightarrow> 'o main_cb event_loop \<Rightarrow> ('o main_cb event_loop \<times> signal_check timer) option" where
  "start_signal_timer timerFd permitted armed l =
     (case new_timer (\<lambda>_. Cb_signalTimer) timerFd permitted l of
        (Inl _, _, _) \<Rightarrow> None
      | (Inr t, l', _) \<Rightarrow> Some (l', snd (startPeriodic armed 200 Check_shutdown t)))"

text \<open>What the callbacks of the channels do; \<open>readOk\<close> says whether the \<open>timerfd\<close> gave its eight bytes.\<close>

definition main_event :: "('o \<Rightarrow> ('o, 'w) main_state \<Rightarrow> ('o, 'w) main_state) \<Rightarrow> bool \<Rightarrow> 'o main_cb \<Rightarrow>
    ('o, 'w) main_state \<Rightarrow> ('o, 'w) main_state" where
  "main_event other readOk cb s =
     (case cb of
        Cb_other x \<Rightarrow> other x s
      | Cb_signalTimer \<Rightarrow>
          (let (l, requested, t, w) = s in
           case timer_handleRead readOk t of
             None \<Rightarrow> s
           | Some Check_shutdown \<Rightarrow> (let (l', requested') = signal_callback (l, requested) in (l', requested', t, w))))"

text \<open>
  What is asked of the other callbacks: they leave the signal timer and its channel alone, do not start the loop again, and
  do not take a signal back. A signal may arrive while they run.
\<close>

definition signal_channel :: "int \<Rightarrow> 'o main_cb event_loop \<Rightarrow> bool" where
  "signal_channel fd l \<longleftrightarrow> (\<exists>c. um_find (el_channels l) fd = Some c \<and> ch_readCallback c = Some Cb_signalTimer)"

definition others_keep :: "int \<Rightarrow> ('o \<Rightarrow> ('o, 'w) main_state \<Rightarrow> ('o, 'w) main_state) \<Rightarrow> bool" where
  "others_keep fd other \<longleftrightarrow> (\<forall>x l r t w. case other x (l, r, t, w) of (l', r', t', w') \<Rightarrow>
     (signal_channel fd l \<longrightarrow> signal_channel fd l') \<and> (\<not> el_running l \<longrightarrow> \<not> el_running l') \<and> (r \<longrightarrow> r') \<and> t' = t)"

definition signal_armed :: "int \<Rightarrow> ('o, 'w) main_state \<Rightarrow> bool" where
  "signal_armed fd s \<longleftrightarrow> (case s of (l, r, t, w) \<Rightarrow> signal_channel fd l \<and> tm_callback t = Some Check_shutdown)"

lemma signal_armed_start:
  assumes "start_signal_timer fd permitted armed l0 = Some (l, t)"
  shows "signal_armed fd (l, r, t, w) \<and> 0 \<le> fd"
proof -
  have "um_find (el_channels l) fd = Some (setReadCallback Cb_signalTimer (setEvents EPOLLIN (new_channel fd)))"
    "tm_callback t = Some Check_shutdown" "0 \<le> fd"
    using assms
    by (auto simp: start_signal_timer_def new_timer_def startPeriodic_def timer_settime_def addChannel_def edgelink_simps
        setReadCallback_def setEvents_def new_channel_def Let_def split: if_splits)
  then show ?thesis by (simp add: signal_armed_def signal_channel_def setReadCallback_def)
qed

lemma signal_channel_revents:
  assumes "signal_channel fd l" and "um_find (el_channels l) fd' = Some c"
  shows "signal_channel fd (l\<lparr>el_channels := um_set fd' (setRevents r c) (el_channels l)\<rparr>)"
  using assms by (auto simp: signal_channel_def edgelink_simps setRevents_def)

subsection \<open>One turn\<close>

text \<open>A callback keeps the timer armed, a signal pending, and a stopped loop stopped.\<close>

definition no_way_back :: "int \<Rightarrow> ('o, 'w) main_state \<Rightarrow> ('o, 'w) main_state \<Rightarrow> bool" where
  "no_way_back fd s s' \<longleftrightarrow> (signal_armed fd s \<longrightarrow> signal_armed fd s') \<and> (fst (snd s) \<longrightarrow> fst (snd s')) \<and>
     (\<not> el_running (fst s) \<longrightarrow> \<not> el_running (fst s'))"

lemma no_way_back_refl: "no_way_back fd s s"
  by (simp add: no_way_back_def)

lemma no_way_back_trans: "no_way_back fd s s' \<Longrightarrow> no_way_back fd s' s'' \<Longrightarrow> no_way_back fd s s''"
  by (simp add: no_way_back_def)

lemma main_event_no_way_back: "others_keep fd other \<Longrightarrow> no_way_back fd s (main_event other readOk cb s)"
proof (cases cb)
  case Cb_signalTimer
  then show ?thesis
    by (cases s) (auto simp: main_event_def no_way_back_def signal_armed_def signal_channel_def timer_handleRead_def
        signal_callback_def loop_stop_def split: option.splits signal_check.splits prod.splits if_splits)
next
  case (Cb_other x)
  assume o: "others_keep fd other"
  obtain l r t w where s: "s = (l, r, t, w)" by (metis prod_cases4)
  obtain l' r' t' w' where "other x s = (l', r', t', w')" by (metis prod_cases4)
  then show ?thesis using o [unfolded others_keep_def, rule_format, where x = x and l = l and r = r and t = t and w = w]
    by (auto simp: main_event_def Cb_other s no_way_back_def signal_armed_def)
qed

lemma revents_no_way_back:
  "um_find (el_channels l) fd' = Some c \<Longrightarrow>
     no_way_back fd (l, s) (l\<lparr>el_channels := um_set fd' (setRevents r c) (el_channels l)\<rparr>, s)"
  using signal_channel_revents [of fd l fd' c r] by (cases s) (auto simp: no_way_back_def signal_armed_def)

lemma dispatch_no_way_back:
  "others_keep fd other \<Longrightarrow> no_way_back fd s (dispatch (main_event other readOk) events s)"
proof (induction "main_event other readOk" events s rule: dispatch.induct)
  case (1 s)
  then show ?case by (simp add: no_way_back_def)
next
  case (2 fd' revents events l w)
  show ?case
  proof (cases "um_find (el_channels l) fd'")
    case None
    then show ?thesis using 2 by simp
  next
    case (Some c)
    let ?l1 = "l\<lparr>el_channels := um_set fd' (setRevents revents c) (el_channels l)\<rparr>"
    let ?s1 = "case handleEvent (setRevents revents c) of None \<Rightarrow> (?l1, w) | Some cb \<Rightarrow> main_event other readOk cb (?l1, w)"
    have "no_way_back fd (?l1, w) ?s1"
      using main_event_no_way_back [OF "2.prems"] by (simp add: no_way_back_def split: option.split)
    with revents_no_way_back [OF Some] have "no_way_back fd (l, w) ?s1" by (rule no_way_back_trans)
    moreover have "no_way_back fd ?s1 (dispatch (main_event other readOk) events ?s1)"
      using "2.hyps"(2) [OF Some refl refl "2.prems"] .
    ultimately show ?thesis using Some by (simp add: Let_def) (rule no_way_back_trans)
  qed
qed

lemma dispatch_Cons: "dispatch run (e # events) s = dispatch run events (dispatch run [e] s)"
  by (cases e; cases s) (auto simp: Let_def split: option.split)

text \<open>The turn in which the signal timer is reported stops the loop.\<close>

lemma dispatch_stops:
  assumes "others_keep fd other" and "signal_armed fd s" and "fst (snd s)" and "(fd, EPOLLIN) \<in> set events"
  shows "\<not> el_running (fst (dispatch (main_event other True) events s))"
  using assms(2-4)
proof (induction events arbitrary: s)
  case (Cons e events)
  obtain l r t w where s: "s = (l, r, t, w)" by (metis prod_cases4)
  show ?case
  proof (cases "e = (fd, EPOLLIN)")
    case True
    obtain c where c: "um_find (el_channels l) fd = Some c" "ch_readCallback c = Some Cb_signalTimer" "tm_callback t = Some Check_shutdown"
      using Cons.prems(1) by (auto simp: s signal_armed_def signal_channel_def)
    let ?l1 = "l\<lparr>el_channels := um_set fd (setRevents EPOLLIN c) (el_channels l)\<rparr>"
    have "handleEvent (setRevents EPOLLIN c) = Some Cb_signalTimer"
      using c(2) by (simp add: handleEvent_def setRevents_def EPOLLIN_def EPOLLERR_def EPOLLHUP_def EPOLLRDHUP_def)
    moreover have "main_event other True Cb_signalTimer (?l1, r, t, w) = (loop_stop ?l1, r, t, w)"
      using Cons.prems(2) c(3) by (simp add: main_event_def timer_handleRead_def signal_callback_def shutdownRequested_def s)
    ultimately have "dispatch (main_event other True) (e # events) s = dispatch (main_event other True) events (loop_stop ?l1, r, t, w)"
      by (simp add: True s c(1) Let_def)
    then show ?thesis
      using dispatch_no_way_back [OF assms(1), of "(loop_stop ?l1, r, t, w)" True events] by (simp add: no_way_back_def loop_stop_def)
  next
    case False
    let ?s1 = "dispatch (main_event other True) [e] s"
    have "no_way_back fd s ?s1" using assms(1) by (rule dispatch_no_way_back)
    then have "\<not> el_running (fst (dispatch (main_event other True) events ?s1))"
      using Cons.IH [of ?s1] Cons.prems False by (simp add: no_way_back_def)
    then show ?thesis using dispatch_Cons [of "main_event other True" e events s] by argo
  qed
qed simp

subsection \<open>The loop ends\<close>

text \<open>
  C18. A signal ends the gateway: when \<open>SIGINT\<close> or \<open>SIGTERM\<close> has arrived, before \<open>run\<close> or in any turn of the event loop, the turn
  in which the signal timer is reported is the last one, whatever else is reported in it and in whatever order, and \<open>run\<close>
  returns without waiting again, so that \<open>main\<close> goes on with the shutdown.
\<close>

theorem signal_ends_run:
  assumes "start_signal_timer fd permitted armed l0 = Some (l1, t1)" and "others_keep fd other"
    and "fold (dispatch (main_event other True)) turns (l1, requested, t1, w1) = (l, r, t, w)"
    and "signal = SIGINT \<or> signal = SIGTERM" and "(fd, EPOLLIN) \<in> set events"
  shows "\<exists>s'. run_loop (main_event other True) (Sys_ok events # results) (l, handleSignal signal r, t, w) = Some s' \<and>
    \<not> el_running (fst s') \<and> (el_running l \<longrightarrow> s' = dispatch (main_event other True) events (l, True, t, w))"
proof -
  let ?step = "dispatch (main_event other True)"
  have "no_way_back fd s (fold ?step turns s)" for s
  proof (induction turns arbitrary: s)
    case (Cons es turns)
    show ?case unfolding fold_Cons comp_apply
      by (rule no_way_back_trans [OF dispatch_no_way_back [OF assms(2)] Cons.IH])
  qed (simp add: no_way_back_refl)
  then have "no_way_back fd (l1, requested, t1, w1) (l, r, t, w)" unfolding assms(3) [symmetric] .
  moreover have "signal_armed fd (l1, requested, t1, w1)" 
    by (rule conjunct1 [OF signal_armed_start [OF assms(1)]])
  ultimately have armed: "signal_armed fd (l, True, t, w)" by (simp add: no_way_back_def signal_armed_def)
  have r: "handleSignal signal r = True" using assms(4) by (auto simp: handleSignal_def)
  have stop: "\<not> el_running (fst (?step events (l, True, t, w)))"
    using dispatch_stops [OF assms(2) armed _ assms(5)] by simp
  obtain l' s' where d: "?step events (l, True, t, w) = (l', s')" by (metis surj_pair)
  have "run_loop (main_event other True) results (l', s') = Some (l', s')"
    using stop by (cases results) (simp_all add: d)
  then show ?thesis using stop by (cases "el_running l") (simp_all add: r d)
qed

text \<open>A run: the signal arrives in a callback of descriptor 5, and the timer is reported in the next turn.\<close>

definition demo_other :: "nat \<Rightarrow> (nat, nat) main_state \<Rightarrow> (nat, nat) main_state" where
  "demo_other n s = (let (l, r, t, w) = s in (l, r \<or> n = 1, t, w + 1))"

theorem signal_ends_run_witness:
  "\<exists>l1 t1 l r t w s'. start_signal_timer 8 True True
       (snd (addChannel True (setReadCallback (Cb_other 1) (setEvents EPOLLIN (new_channel 5))) new_event_loop)) = Some (l1, t1) \<and>
     fold (dispatch (main_event demo_other True)) [[(5, EPOLLIN)]] (l1, False, t1, 0) = (l, r, t, w) \<and>
     run_loop (main_event demo_other True) [Sys_ok [(5, EPOLLIN), (8, EPOLLIN)]] (l, handleSignal SIGTERM r, t, w) = Some s' \<and>
     \<not> el_running (fst s')"
proof -
  let ?l0 = "snd (addChannel True (setReadCallback (Cb_other 1) (setEvents EPOLLIN (new_channel 5))) new_event_loop) :: nat main_cb event_loop"
  obtain l1 t1 where a: "start_signal_timer 8 True True ?l0 = Some (l1, t1)"
    by (simp add: start_signal_timer_def new_timer_def addChannel_def new_event_loop_def setReadCallback_def setEvents_def
        new_channel_def Let_def)
  obtain l r t w where f: "fold (dispatch (main_event demo_other True)) [[(5, EPOLLIN)]] (l1, False, t1, 0) = (l, r, t, w)"
    by (metis prod_cases4)
  have o: "others_keep 8 demo_other" by (simp add: others_keep_def demo_other_def)
  have e: "(8, EPOLLIN) \<in> set [(5, EPOLLIN), (8, EPOLLIN)]" by simp
  from signal_ends_run [OF a o f _ e, of SIGTERM "[]"] a f show ?thesis by blast
qed

end
