(* ===== verification/Spec2Isabelle.thy ===== *)
theory Spec2Isabelle
  imports Prelude Device_Model Device_Manager Connection_State Reconnect_Backoff Message_Bus Bus_Threads
    Ipc_Codec Ipc_Bridge Shm_Races Remote_Messages Control_Command Modbus_Plugin Socketcan Plugin_Manager Mqtt_Service Mqtt_Replay Pipeline Modbus_Typing Event_Loop Wakeup
    Device_Scheduler Scheduler_Loop Tcp_Server
    Unix_Server Thread_Pool System_Monitor Metrics_Log Systemd_Notifier Config Logger Gateway
    Restart Shutdown
begin

text \<open>
  EdgeLink, an industrial gateway in C++17: device plugins poll field buses and put tag values on a message bus; the values
  are stored in SQLite, published over MQTT with an offline outbox, and handed to other processes through shared memory; an
  epoll loop drives sockets and timers, and a local socket accepts control commands. This library models the program in
  HOL, one theory per component, and proves what makes each component correct. Paths below are under \<open>src/\<close> of the
  repository's \<open>src/\<close>, \<open>include/edgelink/\<close> and \<open>plugins/\<close>.

  \<^bold>\<open>Parts and theories\<close>

  \<^item> \<open>Prelude\<close>, \<open>Std_Text\<close>, \<open>Binary64\<close>: words and byte images, \<open>unordered_map\<close> as an association list, results of
    system calls; character tests, integer parsing and printing, lines; rounding of \<open>double\<close>.
  \<^item> \<open>Device_Model\<close> (\<open>device.h\<close>), \<open>Device_Manager\<close> (\<open>device_manager.cpp\<close>): devices, tags, the table of devices.
  \<^item> \<open>Connection_State\<close> (\<open>device_connection_state_machine.cpp\<close>), \<open>Reconnect_Backoff\<close> (\<open>reconnect_backoff.cpp\<close>).
  \<^item> \<open>Message_Bus\<close>, \<open>Bus_Threads\<close> (\<open>message_bus.cpp\<close>): topics, subscribers, publishing with callbacks that may
    change the bus; the same bus used by several threads, where \<open>publish\<close> calls a copy of the list outside the mutex.
  \<^item> \<open>Ipc_Codec\<close> (\<open>ipc_message_codec.cpp\<close>), \<open>Shared_Memory\<close> (\<open>shared_memory_buffer.cpp\<close>), \<open>Ipc_Bridge\<close>
    (\<open>eventfd_notifier.cpp\<close>, \<open>shared_memory_message_bridge.cpp\<close>): messages between processes. \<open>Shm_Races\<close> has
    reads and writes of the shared memory that overlap, access by access; \<open>Remote_Messages\<close> follows a message from
    \<open>send\<close> in one process through the event loop of the other to its history and outbox.
  \<^item> \<open>Modbus_Plugin\<close> (\<open>modbus_plugin.cpp\<close>, \<open>modbus_rtu_transport.cpp\<close>) and \<open>Modbus_Typing\<close> (the type of what it stores),
    \<open>Socketcan\<close> (\<open>socketcan_plugin.cpp\<close>,
    \<open>socketcan_transport.cpp\<close>), \<open>Plugin_Manager\<close> (\<open>plugin_manager.cpp\<close>).
  \<^item> \<open>Storage_Service\<close> (\<open>storage_service.cpp\<close>), \<open>Mqtt_Json\<close> and \<open>Mqtt_Service\<close> (\<open>mqtt_service.cpp\<close>): history, outbox,
    JSON payloads, connection handling, the replay thread. \<open>Mqtt_Replay\<close> follows the replay thread while nothing fails;
    \<open>Pipeline\<close> joins bus, storage and MQTT as \<open>main.cpp\<close> does; \<open>Restart\<close> follows the outbox through any number of
    processes on one database, each ended at any point.
  \<^item> \<open>Event_Loop\<close> (\<open>channel.cpp\<close>, \<open>event_loop.cpp\<close>), \<open>Wakeup\<close> (\<open>wakeup.cpp\<close>, and \<open>run\<close>/\<open>stop\<close> as threads),
    \<open>Device_Scheduler\<close> (\<open>timer.cpp\<close>, \<open>device_scheduler.cpp\<close>), \<open>Scheduler_Loop\<close> (the tasks on the event loop).
  \<^item> \<open>Socket_Server\<close> holds what the two servers share; \<open>Tcp_Server\<close> (\<open>tcp_server.cpp\<close>) and \<open>Unix_Server\<close>
    (\<open>unix_domain_server.cpp\<close>) add their queues and handlers; \<open>Control_Command\<close> (\<open>control_command_processor.cpp\<close>).
  \<^item> \<open>Thread_Pool\<close> (\<open>thread_pool.cpp\<close>), \<open>System_Monitor\<close> (\<open>system_monitor.cpp\<close>), \<open>Metrics_Log\<close> (the log line
    of \<open>main.cpp\<close>), \<open>Systemd_Notifier\<close>
    (\<open>systemd_notifier.cpp\<close>), \<open>Config\<close> (\<open>config.cpp\<close>), \<open>Logger\<close> (\<open>logger.cpp\<close>), \<open>Gateway\<close> (\<open>main.cpp\<close>,
    \<open>signal_handler.cpp\<close>, and the control socket end to end), \<open>Shutdown\<close> (the signal timer on the event loop).

  \<^bold>\<open>How the code is modelled\<close>

  A class is a \<open>record\<close> of its members and each method a function that returns the new state; a C++ enumeration or variant is
  a \<open>datatype\<close>; exceptions and early returns are \<open>None\<close>, \<open>Inl\<close> or a Boolean, as the code reports them. Integers whose
  width matters are words, so that additions wrap as in the code, and the guards against overflow are proved to work.
  Library calls are not under \<open>src/\<close> and are arguments: the kernel's answers, libmosquitto, SQLite (an interface of table
  operations with stated laws), libmodbus, yaml-cpp, the dynamic linker, the text form of floating-point values. Where a
  theorem needs a documented behaviour of one of them, it is a hypothesis, and a witness instantiates it.

  Records also keep ghost histories where a property speaks about the past (calls made, descriptors opened and closed,
  bytes queued and sent). Methods that hold a mutex are atomic; code that runs between critical sections of several threads
  (MQTT callbacks and replay, the thread pool, run and stop of the event loop, the message bus) or by several processes
  (the shared memory) is a step relation or a step function over all
  interleavings of the critical sections.

  \<^bold>\<open>Loops and bounds\<close>

  A loop around a system call consumes the list of the results the kernel gives, one per call (\<open>sys_result\<close>); \<open>None\<close> means
  that the list ended while the loop was still running, so a result \<open>Some\<close> is a completed call, and lemmas state which lists
  are long enough (\<open>retry_eintr_total\<close>, the write loops on full results). All other loops are structural or have a
  termination measure; no fuel is used. The replay of
  an outbox of \<open>n\<close> rows takes at most \<open>5 n + 4\<close> sections of its thread. The sizes fixed by the code are kept: the capacity and header of the shared
  memory, 4096 bytes per control message, 108 bytes of \<open>sun_path\<close>, 125 Modbus registers, 8 CAN bytes, 64-bit ids.

  \<^bold>\<open>What is shown\<close>

  \<^item> Round trips: IPC frames, shared memory, CAN frames, stored values, JSON strings, \<open>/proc/meminfo\<close>, printed integers.
  \<^item> Delivery: a message sent over the bridge is published in the other process; a bus message is sent live or buffered; the
    outbox is a FIFO queue, and no interleaving of replay, acknowledgements and disconnects loses a row. End to end, what is
    published while the broker is away is stored and reaches the broker in order after the next connection, and what any
    earlier process put into the outbox is delivered by a later one, whenever and however often the gateway was killed.
  \<^item> Invariants: the device table; the connection state machine against the device manager; the loop's table against the
    kernel's interest list; the servers' clients, queues and descriptors; timers against scheduler state; the thread pool.
  \<^item> Refinement and equivalence: both servers implement an abstract connection table (locale \<open>output_queue\<close> of
    \<open>Socket_Server\<close>, interpreted on the byte buffer and on the message queue); request handling equals a reference function.
  \<^item> Liveness and termination: stopping the pool executes every accepted task; a stop of the event loop is not lost; the
    replay thread empties the outbox; expired timers run the callbacks of their tasks; a signal ends the event loop.
  \<^item> Types: a Modbus device holds nothing but finite \<open>double\<close>s, and a tag of quality \<open>Good\<close> has a value.
  \<^item> Safety and bounds: memory accesses of the shared buffer, register counts, resources released on every failure path,
    percentages, the lifetimes of the objects of \<open>main\<close>.

  \<^bold>\<open>Not modelled\<close>

  The logging calls inside the other components and the abstract plugin class. The scheduling fairness of threads, the
  contents of floating-point conversions, and memory exhaustion are outside the model.
\<close>

end
